(* ===== verification/Agento_Prelude.thy ===== *)
theory Agento_Prelude
  imports Complex_Main "HOL-Library.Product_Lexorder" "HOL-Library.Option_ord"
    "HOL-Library.List_Lexorder" "HOL-Library.Char_ord"
begin

text \<open>
  Shared vocabulary of the development: Python values, exceptions and results, MySQL tables as
  lists of rows, the order in which a query with \<open>ORDER BY ... LIMIT 1\<close> picks a row, and the
  clock. Every other theory imports this one.
\<close>

section \<open>Automation\<close>

named_theorems table_simps \<open>equations of the table operations\<close>
named_theorems keeps \<open>facts that an operation leaves a table or a column as it was\<close>

section \<open>Python values and results\<close>

text \<open>
  A Python value where the code looks at its shape at run time (an outbox payload, a JSON
  column, a capability row). \<open>PyOther\<close> is any value that is none of the JSON types, named by
  its class.
\<close>

datatype pyval =
    PyNone
  | PyBool bool
  | PyInt int
  | PyFloat rat
  | PyStr string
  | PyList "pyval list"
  | PyDict "(pyval \<times> pyval) list"
  | PyOther string

text \<open>\<open>d.get(key)\<close> of a dict with string keys: \<open>PyNone\<close> when the key is absent.\<close>

fun py_get :: "pyval \<Rightarrow> string \<Rightarrow> pyval" where
  "py_get (PyDict kvs) k = (case map_of kvs (PyStr k) of None \<Rightarrow> PyNone | Some v \<Rightarrow> v)"
| "py_get _ k = PyNone"

text \<open>\<open>d.get(key, fallback)\<close>, and Python's truth of a value.\<close>

definition py_get_or :: "pyval \<Rightarrow> string \<Rightarrow> pyval \<Rightarrow> pyval" where
  "py_get_or d k fallback = (case d of PyDict kvs \<Rightarrow>
     (case map_of kvs (PyStr k) of None \<Rightarrow> fallback | Some v \<Rightarrow> v) | _ \<Rightarrow> fallback)"

fun py_truth :: "pyval \<Rightarrow> bool" where
  "py_truth PyNone = False"
| "py_truth (PyBool b) = b"
| "py_truth (PyInt n) = (n \<noteq> 0)"
| "py_truth (PyFloat r) = (r \<noteq> 0)"
| "py_truth (PyStr s) = (s \<noteq> [])"
| "py_truth (PyList xs) = (xs \<noteq> [])"
| "py_truth (PyDict kvs) = (kvs \<noteq> [])"
| "py_truth (PyOther t) = True"

fun is_py_dict :: "pyval \<Rightarrow> bool" where
  "is_py_dict (PyDict kvs) = True"
| "is_py_dict _ = False"

text \<open>Python's truth of an optional string: \<open>None\<close> and the empty string are false.\<close>

definition truthy :: "string option \<Rightarrow> bool" where
  "truthy s \<longleftrightarrow> s \<noteq> None \<and> s \<noteq> Some []"

lemma truthy_simps [simp]:
  "\<not> truthy None" "\<not> truthy (Some [])" "truthy (Some (c # cs))"
  by (auto simp: truthy_def)

text \<open>\<open>a or b\<close> on optional strings.\<close>

definition py_or :: "string option \<Rightarrow> string option \<Rightarrow> string option" where
  "py_or a b = (if truthy a then a else b)"

lemma py_or_simps [simp]:
  "py_or None b = b" "py_or (Some []) b = b" "py_or (Some (c # cs)) b = Some (c # cs)"
  by (auto simp: py_or_def)

text \<open>SQL's \<open>COALESCE(a, b)\<close>.\<close>

fun coalesce :: "'a option \<Rightarrow> 'a option \<Rightarrow> 'a option" where
  "coalesce (Some a) b = Some a"
| "coalesce None b = b"

lemma coalesce_None [simp]: "coalesce a None = a"
  by (cases a) auto

text \<open>
  \<open>re.match\<close> of a pattern that ends in \<open>$\<close>: the pattern may end at the end of the string or
  just before one newline at the end. \<open>p\<close> is the test of the text the pattern describes.
\<close>

definition re_match_dollar :: "(string \<Rightarrow> bool) \<Rightarrow> string \<Rightarrow> bool" where
  "re_match_dollar p s \<longleftrightarrow> p s \<or> (s \<noteq> [] \<and> last s = CHR 0x0A \<and> p (butlast s))"

definition is_lower :: "char \<Rightarrow> bool" where
  "is_lower c \<longleftrightarrow> c \<in> set ''abcdefghijklmnopqrstuvwxyz''"

definition is_digit :: "char \<Rightarrow> bool" where
  "is_digit c \<longleftrightarrow> c \<in> set ''0123456789''"

definition starts_with :: "string \<Rightarrow> string \<Rightarrow> bool" where
  "starts_with pre s \<longleftrightarrow> take (length pre) s = pre"

fun contains_str :: "string \<Rightarrow> string \<Rightarrow> bool" where
  "contains_str pat [] = (pat = [])"
| "contains_str pat (c # cs) = (starts_with pat (c # cs) \<or> contains_str pat cs)"

text \<open>The decimal text of a number, as \<open>str(int)\<close> and an f-string write it.\<close>

definition digit_char :: "nat \<Rightarrow> char" where
  "digit_char d = ''0123456789'' ! d"

fun str_nat :: "nat \<Rightarrow> string" where
  "str_nat n = (if n < 10 then [digit_char n] else str_nat (n div 10) @ [digit_char (n mod 10)])"

declare str_nat.simps [simp del]

definition digit_value :: "char \<Rightarrow> nat" where
  "digit_value c = length (takeWhile (\<lambda>d. d \<noteq> c) ''0123456789'')"

definition nat_of_str :: "string \<Rightarrow> nat" where
  "nat_of_str s = foldl (\<lambda>n c. 10 * n + digit_value c) 0 s"

lemma less_10_cases:
  "(d::nat) < 10 \<Longrightarrow> d \<in> {0, 1, 2, 3, 4, 5, 6, 7, 8, 9}"
  by auto

lemma digit_value_char: "d < 10 \<Longrightarrow> digit_value (digit_char d) = d"
  using less_10_cases [of d] by (auto simp: digit_char_def digit_value_def)

lemma is_digit_char: "d < 10 \<Longrightarrow> is_digit (digit_char d)"
  using less_10_cases [of d] by (auto simp: digit_char_def is_digit_def)

lemma str_nat_digits: "c \<in> set (str_nat n) \<Longrightarrow> is_digit c"
proof (induction n rule: str_nat.induct)
  case (1 n)
  then show ?case
    by (cases "n < 10") (auto simp: str_nat.simps [of n] is_digit_char)
qed

lemma str_nat_nonempty [simp]: "str_nat n \<noteq> []"
  by (simp add: str_nat.simps [of n])

lemma nat_of_str_str_nat [simp]: "nat_of_str (str_nat n) = n"
proof (induction n rule: str_nat.induct)
  case (1 n)
  then show ?case
    by (cases "n < 10") (auto simp: str_nat.simps [of n] nat_of_str_def digit_value_char)
qed

lemma str_nat_inject [simp]: "str_nat m = str_nat n \<longleftrightarrow> m = n"
  by (metis nat_of_str_str_nat)

text \<open>\<open>str.strip()\<close> and \<open>str.lower()\<close> on Latin-1 text (a \<open>char\<close> is one code point below 256).\<close>

definition is_space :: "char \<Rightarrow> bool" where
  "is_space c \<longleftrightarrow> c \<in> {CHR '' '', CHR 0x09, CHR 0x0A, CHR 0x0B, CHR 0x0C, CHR 0x0D,
     CHR 0x1C, CHR 0x1D, CHR 0x1E, CHR 0x1F, CHR 0x85, CHR 0xA0}"

definition strip :: "string \<Rightarrow> string" where
  "strip s = rev (dropWhile is_space (rev (dropWhile is_space s)))"

definition to_lower :: "char \<Rightarrow> char" where
  "to_lower c =
     (let n = (of_char c :: nat)
      in if (65 \<le> n \<and> n \<le> 90) \<or> (192 \<le> n \<and> n \<le> 222 \<and> n \<noteq> 215) then char_of (n + 32) else c)"

definition lower :: "string \<Rightarrow> string" where
  "lower = map to_lower"

text \<open>
  \<open>int(s)\<close> of a text: white space around it, one sign, decimal digits with single underscores
  between them. \<open>None\<close> is the \<open>ValueError\<close>.
\<close>

fun digits_ok :: "string \<Rightarrow> bool" where
  "digits_ok [] = False"
| "digits_ok [c] = is_digit c"
| "digits_ok (c # d # cs) =
     (is_digit c \<and> (if d = CHR ''_'' then digits_ok cs else digits_ok (d # cs)))"

definition int_of_text :: "string \<Rightarrow> int option" where
  "int_of_text s =
     (let t = strip s;
          neg = (t \<noteq> [] \<and> hd t = CHR ''-'');
          d = (if t \<noteq> [] \<and> hd t \<in> {CHR ''-'', CHR ''+''} then tl t else t);
          n = int (nat_of_str (filter (\<lambda>c. c \<noteq> CHR ''_'') d))
      in if digits_ok d then Some (if neg then - n else n) else None)"

section \<open>Dicts\<close>

text \<open>\<open>dict.update\<close>: a key that is there keeps its place and gets the new value.\<close>

definition dict_put :: "'k \<times> 'v \<Rightarrow> ('k \<times> 'v) list \<Rightarrow> ('k \<times> 'v) list" where
  "dict_put kv xs = (if fst kv \<in> fst ` set xs then map (\<lambda>x. if fst x = fst kv then kv else x) xs
                     else xs @ [kv])"

definition dict_update :: "('k \<times> 'v) list \<Rightarrow> ('k \<times> 'v) list \<Rightarrow> ('k \<times> 'v) list" where
  "dict_update new xs = fold dict_put new xs"

lemma dict_put_keys: "fst ` set (dict_put kv xs) = insert (fst kv) (fst ` set xs)"
  by (auto simp: dict_put_def image_iff)

lemma dict_put_distinct: "distinct (map fst xs) \<Longrightarrow> distinct (map fst (dict_put kv xs))"
proof -
  assume d: "distinct (map fst xs)"
  have "map fst (map (\<lambda>x. if fst x = fst kv then kv else x) xs) = map fst xs" by auto
  with d show ?thesis by (simp add: dict_put_def del: map_map)
qed

lemma dict_put_item: "x \<in> set (dict_put kv xs) \<Longrightarrow> x = kv \<or> x \<in> set xs"
  by (auto simp: dict_put_def split: if_splits)

lemma map_of_dict_put: "map_of (dict_put kv xs) = (map_of xs)(fst kv \<mapsto> snd kv)"
proof (cases "fst kv \<in> fst ` set xs")
  case True
  have "map_of (map (\<lambda>x. if fst x = fst kv then kv else x) xs) k
      = (if k = fst kv then (if fst kv \<in> fst ` set xs then Some (snd kv) else None) else map_of xs k)" for k
  proof (induction xs)
    case (Cons x xs)
    then show ?case by (cases "fst x = fst kv"; cases "k = fst kv") (simp_all add: image_iff)
  qed simp
  with True show ?thesis by (intro ext) (simp add: dict_put_def)
next
  case False
  then have "map_of xs (fst kv) = None" by (simp add: map_of_eq_None_iff)
  with False show ?thesis by (cases kv) (auto simp: dict_put_def map_add_def split: option.splits)
qed

lemma dict_update_fresh:
  "distinct (map fst xs @ map fst new) \<Longrightarrow> dict_update new xs = xs @ new"
proof (induction new arbitrary: xs)
  case (Cons kv new)
  then have "dict_put kv xs = xs @ [kv]" by (auto simp: dict_put_def image_iff)
  then show ?case using Cons.IH [of "xs @ [kv]"] Cons.prems by (simp add: dict_update_def)
qed (simp add: dict_update_def)

section \<open>Tables\<close>

text \<open>
  A table is the list of its rows in primary-key order. \<open>UPDATE t SET f WHERE p\<close> is
  \<open>update_where\<close>; \<open>changed\<close> is the affected-row count PyMySQL reports for it, which counts
  the rows whose value really changed.
\<close>

definition update_where :: "('r \<Rightarrow> bool) \<Rightarrow> ('r \<Rightarrow> 'r) \<Rightarrow> 'r list \<Rightarrow> 'r list" where
  "update_where p f rs = map (\<lambda>r. if p r then f r else r) rs"

definition changed :: "('r \<Rightarrow> bool) \<Rightarrow> ('r \<Rightarrow> 'r) \<Rightarrow> 'r list \<Rightarrow> nat" where
  "changed p f rs = length (filter (\<lambda>r. p r \<and> f r \<noteq> r) rs)"

lemma update_where_Nil [table_simps, simp]: "update_where p f [] = []"
  by (simp add: update_where_def)

lemma update_where_Cons [table_simps]:
  "update_where p f (r # rs) = (if p r then f r else r) # update_where p f rs"
  by (simp add: update_where_def)

lemma update_where_append [table_simps]:
  "update_where p f (rs @ qs) = update_where p f rs @ update_where p f qs"
  by (simp add: update_where_def)

lemma update_where_same [simp]: "update_where p (\<lambda>r. r) rs = rs"
  by (simp add: update_where_def)

lemma length_update_where [simp]: "length (update_where p f rs) = length rs"
  by (simp add: update_where_def)

lemma in_update_where:
  "r \<in> set (update_where p f rs) \<longleftrightarrow> (\<exists>q \<in> set rs. r = (if p q then f q else q))"
  by (auto simp: update_where_def)

lemma update_where_none: "(\<And>r. r \<in> set rs \<Longrightarrow> \<not> p r) \<Longrightarrow> update_where p f rs = rs"
  by (induction rs) (auto simp: table_simps)

lemma map_update_where [keeps]:
  "(\<And>r. p r \<Longrightarrow> g (f r) = g r) \<Longrightarrow> map g (update_where p f rs) = map g rs"
  by (auto simp: update_where_def)

lemma find_update_where:
  assumes "\<And>r. p r \<Longrightarrow> q (f r) = q r"
  shows "find q (update_where p f rs) = map_option (\<lambda>r. if p r then f r else r) (find q rs)"
  using assms by (induction rs) (auto simp: table_simps)

lemma find_SomeD: "find p xs = Some x \<Longrightarrow> x \<in> set xs \<and> p x"
  by (induction xs) (auto split: if_splits)

lemma find_None_filter: "find p xs = None \<longleftrightarrow> filter p xs = []"
  by (induction xs) auto

lemma find_append:
  "find p (xs @ ys) = (case find p xs of None \<Rightarrow> find p ys | Some x \<Rightarrow> Some x)"
  by (induction xs) auto

text \<open>A row found by a unique key.\<close>

lemma find_unique:
  assumes "distinct (map key rs)" and "r \<in> set rs"
  shows "find (\<lambda>q. key q = key r) rs = Some r"
  using assms by (induction rs) (auto simp: rev_image_eqI)

lemma distinct_key_eq:
  "distinct (map key rs) \<Longrightarrow> r \<in> set rs \<Longrightarrow> q \<in> set rs \<Longrightarrow> key r = key q \<Longrightarrow> r = q"
  by (induction rs) (auto simp: rev_image_eqI)

text \<open>An update by a unique key that changes its row reports one row.\<close>

text \<open>A row appended under the next id of an auto-increment key.\<close>

lemma fresh_append:
  assumes "distinct (map key xs) \<and> (\<forall>x \<in> set xs. key x < (n :: nat))" and r: "key r = n"
  shows "distinct (map key (xs @ [r])) \<and> (\<forall>x \<in> set (xs @ [r]). key x < n + 1)"
proof -
  from assms have lt: "key x < n" if "x \<in> set xs" for x using that by blast
  then have "n \<notin> key ` set xs" by (metis imageE less_irrefl)
  with assms r lt show ?thesis by (auto intro: less_SucI)
qed

lemma changed_one:
  assumes "distinct rs" and "r \<in> set rs" and "p r" and "f r \<noteq> r"
    and "\<And>q. q \<in> set rs \<Longrightarrow> q \<noteq> r \<Longrightarrow> \<not> p q"
  shows "changed p f rs = 1"
  using assms
proof (induction rs)
  case (Cons a rs)
  show ?case
  proof (cases "r = a")
    case True
    with Cons.prems have "\<forall>q \<in> set rs. \<not> p q" by auto
    then have "changed p f rs = 0" by (auto simp: changed_def filter_empty_conv)
    with True Cons.prems show ?thesis by (simp add: changed_def)
  next
    case False
    with Cons.prems have "r \<in> set rs" and "\<not> p a" by auto
    with Cons show ?thesis by (simp add: changed_def)
  qed
qed simp

section \<open>\<open>ORDER BY ... LIMIT 1\<close>\<close>

text \<open>
  The row a query picks: the first of the rows that no other row goes before. Rows that tie
  are picked in table order, which is one of the rows MySQL may return; no lemma here depends
  on which of them it is.
\<close>

fun best :: "('a \<Rightarrow> 'a \<Rightarrow> bool) \<Rightarrow> 'a list \<Rightarrow> 'a option" where
  "best lt [] = None"
| "best lt (x # xs) =
     (case best lt xs of None \<Rightarrow> Some x | Some y \<Rightarrow> if lt y x then Some y else Some x)"

lemma best_None [simp]: "best lt xs = None \<longleftrightarrow> xs = []"
  by (cases xs) (auto split: option.splits)

lemma best_in: "best lt xs = Some x \<Longrightarrow> x \<in> set xs"
  by (induction xs arbitrary: x) (auto split: option.splits if_splits)

lemma best_filterD: "best lt (filter p xs) = Some x \<Longrightarrow> x \<in> set xs \<and> p x"
  by (drule best_in) auto

lemma best_filter_None: "best lt (filter p xs) = None \<longleftrightarrow> (\<forall>x \<in> set xs. \<not> p x)"
  by (auto simp: filter_empty_conv)

text \<open>
  The interface of a query order: a strict order in which incomparability is transitive (what
  an \<open>ORDER BY\<close> over columns always is). A component that picks rows interprets it on its
  own order and gets that no picked row is behind another candidate.
\<close>

locale row_order =
  fixes before :: "'a \<Rightarrow> 'a \<Rightarrow> bool"
  assumes asym: "before x y \<Longrightarrow> \<not> before y x"
    and cotrans: "before x z \<Longrightarrow> before x y \<or> before y z"
begin

lemma best_first: "best before xs = Some x \<Longrightarrow> y \<in> set xs \<Longrightarrow> \<not> before y x"
proof (induction xs arbitrary: x y)
  case (Cons a xs)
  show ?case
  proof (cases "best before xs")
    case None
    with Cons.prems show ?thesis using asym by auto
  next
    case (Some b)
    then show ?thesis
      using Cons asym cotrans by (auto split: if_splits) blast+
  qed
qed simp

lemma picked_first:
  assumes "best before (filter p xs) = Some x" and "y \<in> set xs" and "p y"
  shows "\<not> before y x"
  using assms best_first [OF assms(1)] by simp

end

text \<open>An order by a key of a linear order is a query order: the usual case.\<close>

lemma key_row_order: "row_order (\<lambda>x y. (key x :: 'k :: linorder) < key y)"
  by unfold_locales auto

section \<open>The clock\<close>

text \<open>
  One clock in microseconds serves Python and MySQL (the code runs both in UTC and says it
  relies on it). \<open>NOW()\<close> has whole seconds; a Python time with microseconds that is stored in
  a column of whole seconds is rounded to the nearest second by MySQL.
\<close>

abbreviation (input) usec :: "nat \<Rightarrow> nat" where
  "usec s \<equiv> s * 1000000"

definition sql_now :: "nat \<Rightarrow> nat" where
  "sql_now us = us div 1000000"

definition stored_ts :: "nat \<Rightarrow> nat" where
  "stored_ts us = (us + 500000) div 1000000"

lemma stored_ts_whole [simp]: "stored_ts (s * 1000000) = s"
  by (simp add: stored_ts_def)

lemma stored_ts_mono: "a \<le> b \<Longrightarrow> stored_ts a \<le> stored_ts b"
  by (simp add: stored_ts_def div_le_mono)

lemma sql_now_le_stored: "sql_now us \<le> stored_ts us"
  by (simp add: sql_now_def stored_ts_def div_le_mono)

lemma stored_ts_plus: "stored_ts (us + s * 1000000) = stored_ts us + s"
proof -
  have "us + s * 1000000 + 500000 = (us + 500000) + 1000000 * s" by simp
  then show ?thesis unfolding stored_ts_def by (metis div_mult_self2 add.commute zero_neq_numeral)
qed

end
