(* ===== verification/Job_Model.thy ===== *)
theory Job_Model
  imports Agento_Prelude
begin

text \<open>
  The data of the queue: \<open>job_models.py\<close> and \<open>job_types.py\<close>. A row of the \<open>job\<close> table is the
  record \<open>job_row\<close>; the dataclass \<open>Job\<close> a consumer works on extends it by the fields that are
  not columns. Times of whole-second columns are seconds, \<open>finished_at\<close> is in microseconds.
\<close>

section \<open>Job types\<close>

datatype agent_type = CRON_TYPE | TODO_TYPE | FOLLOWUP_TYPE | BLANK_TYPE

fun agent_type_value :: "agent_type \<Rightarrow> string" where
  "agent_type_value CRON_TYPE = ''cron''"
| "agent_type_value TODO_TYPE = ''todo''"
| "agent_type_value FOLLOWUP_TYPE = ''followup''"
| "agent_type_value BLANK_TYPE = ''blank''"

datatype job_type = BuiltinType agent_type | ModuleJobType string string

fun type_value :: "job_type \<Rightarrow> string" where
  "type_value (BuiltinType t) = agent_type_value t"
| "type_value (ModuleJobType v m) = v"

definition BUILTIN_JOB_TYPES :: "string list" where
  "BUILTIN_JOB_TYPES = [''cron'', ''todo'', ''followup'', ''blank'']"

definition job_type_text :: "string \<Rightarrow> bool" where
  "job_type_text s \<longleftrightarrow> s \<noteq> [] \<and> is_lower (hd s) \<and> length (tl s) \<le> 31
     \<and> (\<forall>c \<in> set (tl s). is_lower c \<or> c = CHR ''_'')"

definition JOB_TYPE_GRAMMAR :: "string \<Rightarrow> bool" where
  "JOB_TYPE_GRAMMAR = re_match_dollar job_type_text"

text \<open>The process registry: value and declaring module, in declaration order (a dict).\<close>

type_synonym type_registry = "(string \<times> string) list"

datatype type_error = InvalidType | BuiltinRedeclared | DeclaredByTwo string string

fun dict_set :: "('k \<times> 'v) list \<Rightarrow> 'k \<Rightarrow> 'v \<Rightarrow> ('k \<times> 'v) list" where
  "dict_set [] k v = [(k, v)]"
| "dict_set ((k', v') # kvs) k v =
     (if k' = k then (k, v) # kvs else (k', v') # dict_set kvs k v)"

definition register_job_type ::
    "type_registry \<Rightarrow> string \<Rightarrow> string \<Rightarrow> type_error + type_registry" where
  "register_job_type reg v m =
     (if \<not> JOB_TYPE_GRAMMAR v then Inl InvalidType
      else if v \<in> set BUILTIN_JOB_TYPES then Inl BuiltinRedeclared
      else case map_of reg v of
             Some m' \<Rightarrow> if m' \<noteq> m then Inl (DeclaredByTwo m' m) else Inr (dict_set reg v m)
           | None \<Rightarrow> Inr (dict_set reg v m))"

definition builtin_of :: "string \<Rightarrow> agent_type option" where
  "builtin_of v = find (\<lambda>t. agent_type_value t = v) [CRON_TYPE, TODO_TYPE, FOLLOWUP_TYPE, BLANK_TYPE]"

text \<open>\<open>None\<close> is \<open>JobTypeUnknown\<close>.\<close>

definition resolve_job_type :: "type_registry \<Rightarrow> string \<Rightarrow> job_type option" where
  "resolve_job_type reg v =
     (case builtin_of v of
        Some t \<Rightarrow> Some (BuiltinType t)
      | None \<Rightarrow> map_option (ModuleJobType v) (map_of reg v))"

definition registered_job_types :: "type_registry \<Rightarrow> string list" where
  "registered_job_types reg = BUILTIN_JOB_TYPES @ map fst reg"

definition clear_job_types :: "type_registry \<Rightarrow> type_registry" where
  "clear_job_types reg = []"

section \<open>Requesters\<close>

datatype requester_trust = CLAIMED | DOMAIN | ACCOUNT

fun trust_value :: "requester_trust \<Rightarrow> string" where
  "trust_value CLAIMED = ''claimed''"
| "trust_value DOMAIN = ''domain''"
| "trust_value ACCOUNT = ''account''"

definition trust_of :: "string \<Rightarrow> requester_trust option" where
  "trust_of v = find (\<lambda>t. trust_value t = v) [CLAIMED, DOMAIN, ACCOUNT]"

definition normalize_email :: "string option \<Rightarrow> string option" where
  "normalize_email v = (case v of None \<Rightarrow> None
     | Some s \<Rightarrow> (let cleaned = map to_lower (strip s) in if cleaned = [] then None else Some cleaned))"

record job_requester =
  rq_key :: string
  rq_email :: "string option"
  rq_trust :: requester_trust
  rq_meta :: "pyval option"

text \<open>The constructor with its \<open>__post_init__\<close>; \<open>None\<close> is the \<open>ValueError\<close>.\<close>

definition make_requester ::
    "string \<Rightarrow> string option \<Rightarrow> requester_trust \<Rightarrow> pyval option \<Rightarrow> job_requester option" where
  "make_requester k e t m =
     (if strip k = [] then None
      else Some \<lparr>rq_key = strip k, rq_email = normalize_email e, rq_trust = t, rq_meta = m\<rparr>)"

section \<open>Job rows\<close>

datatype job_status = TODO | RUNNING | SUCCESS | FAILED | DEAD | PAUSED

definition TERMINAL_STATUSES :: "job_status list" where
  "TERMINAL_STATUSES = [SUCCESS, FAILED, DEAD]"

definition OPEN_STATUSES :: "job_status list" where
  "OPEN_STATUSES = [TODO, RUNNING, PAUSED]"

record job_row =
  j_id :: nat
  j_schedule_id :: "nat option"
  j_type :: string
  j_source :: string
  j_view :: "nat option"
  j_priority :: nat
  j_ref :: "string option"
  j_agent_type :: "string option"
  j_provider :: "string option"
  j_model :: "string option"
  j_input_tokens :: "nat option"
  j_output_tokens :: "nat option"
  j_prompt :: "string option"
  j_output :: "string option"
  j_context :: "string option"
  j_key :: string
  j_status :: job_status
  j_attempt :: nat
  j_max :: nat
  j_sched :: nat
  j_started :: "nat option"
  j_finished :: "nat option"
  j_summary :: "string option"
  j_error_msg :: "string option"
  j_error_class :: "string option"
  j_pid :: "nat option"
  j_runner :: "string option"
  j_session :: "string option"
  j_created :: nat
  j_updated :: nat
  j_rq_key :: "string option"
  j_rq_email :: "string option"
  j_rq_trust :: string
  j_rq_meta :: "pyval option"
  j_parent :: "nat option"
  j_depth :: nat
  j_test :: "pyval option"
  j_thread :: "nat option"
  j_resume :: "nat option"
  j_line :: "nat option"

text \<open>The dataclass: the row, its resolved type, and the fields that are not columns.\<close>

record job = job_row +
  j_jtype :: job_type
  j_trust :: requester_trust
  j_execution :: "string option"
  j_thread_key :: "string option"
  j_detached :: bool
  j_fresh :: bool

datatype row_error = JobTypeUnknown string | BadTrust string

definition dict_or_none :: "pyval option \<Rightarrow> pyval option" where
  "dict_or_none v = (case v of Some d \<Rightarrow> if is_py_dict d then Some d else None | None \<Rightarrow> None)"

text \<open>
  \<open>Job.from_row\<close>. A JSON column arrives parsed; one that is not an object becomes \<open>None\<close>.
\<close>

definition job_from_row :: "type_registry \<Rightarrow> job_row \<Rightarrow> row_error + job" where
  "job_from_row reg r =
     (case resolve_job_type reg (j_type r) of
        None \<Rightarrow> Inl (JobTypeUnknown (j_type r))
      | Some t \<Rightarrow>
          (case trust_of (if j_rq_trust r = [] then ''claimed'' else j_rq_trust r) of
             None \<Rightarrow> Inl (BadTrust (j_rq_trust r))
           | Some tr \<Rightarrow>
               Inr (job_row.extend
                 (r\<lparr>j_rq_meta := dict_or_none (j_rq_meta r), j_test := dict_or_none (j_test r)\<rparr>)
                 (job.fields t tr None None False False))))"

section \<open>Facts\<close>

lemma status_cases_lists:
  "s \<in> set TERMINAL_STATUSES \<longleftrightarrow> s \<notin> set OPEN_STATUSES"
  by (cases s) (auto simp: TERMINAL_STATUSES_def OPEN_STATUSES_def)

lemma terminal_simps [simp]:
  "SUCCESS \<in> set TERMINAL_STATUSES" "FAILED \<in> set TERMINAL_STATUSES" "DEAD \<in> set TERMINAL_STATUSES"
  "TODO \<notin> set TERMINAL_STATUSES" "RUNNING \<notin> set TERMINAL_STATUSES" "PAUSED \<notin> set TERMINAL_STATUSES"
  by (auto simp: TERMINAL_STATUSES_def)

lemma open_simps [simp]:
  "SUCCESS \<notin> set OPEN_STATUSES" "FAILED \<notin> set OPEN_STATUSES" "DEAD \<notin> set OPEN_STATUSES"
  "TODO \<in> set OPEN_STATUSES" "RUNNING \<in> set OPEN_STATUSES" "PAUSED \<in> set OPEN_STATUSES"
  by (auto simp: OPEN_STATUSES_def)

lemma map_of_dict_set: "map_of (dict_set kvs k v) = (map_of kvs)(k \<mapsto> v)"
  by (induction kvs) (auto simp: fun_eq_iff)

lemma fst_dict_set: "fst ` set (dict_set kvs k v) = insert k (fst ` set kvs)"
proof (induction kvs)
  case (Cons a kvs)
  then show ?case by (cases a) auto
qed simp

lemma distinct_dict_set:
  "distinct (map fst kvs) \<Longrightarrow> distinct (map fst (dict_set kvs k v))"
proof (induction kvs)
  case (Cons a kvs)
  then show ?case
    using fst_dict_set [of kvs k v] by (cases a) auto
qed simp

lemma builtin_of_value: "builtin_of v = Some t \<longleftrightarrow> agent_type_value t = v"
  by (cases t) (auto simp: builtin_of_def split: if_splits)

lemma builtin_of_None: "builtin_of v = None \<longleftrightarrow> v \<notin> set BUILTIN_JOB_TYPES"
  by (auto simp: builtin_of_def BUILTIN_JOB_TYPES_def)

lemma job_from_row_fields:
  assumes "job_from_row reg r = Inr j"
  shows "j_id j = j_id r" "j_status j = j_status r" "j_attempt j = j_attempt r"
    "j_thread j = j_thread r" "j_session j = j_session r" "j_started j = j_started r"
    "j_depth j = j_depth r" "j_line j = j_line r" "j_view j = j_view r"
    "j_source j = j_source r" "j_ref j = j_ref r" "\<not> j_detached j" "j_max j = j_max r"
    "j_type j = j_type r" "j_resume j = j_resume r" "j_execution j = None"
  using assms
  by (auto simp: job_from_row_def job_row.defs job.defs split: option.splits)

section \<open>The registry keeps what it promises\<close>

definition registry_ok :: "type_registry \<Rightarrow> bool" where
  "registry_ok reg \<longleftrightarrow> distinct (map fst reg)
     \<and> (\<forall>v \<in> fst ` set reg. JOB_TYPE_GRAMMAR v \<and> v \<notin> set BUILTIN_JOB_TYPES)"

lemma dict_set_ok:
  "registry_ok reg \<Longrightarrow> JOB_TYPE_GRAMMAR v \<Longrightarrow> v \<notin> set BUILTIN_JOB_TYPES
    \<Longrightarrow> registry_ok (dict_set reg v m)"
  by (simp add: registry_ok_def distinct_dict_set fst_dict_set)

lemma register_ok:
  "registry_ok reg \<Longrightarrow> register_job_type reg v m = Inr reg' \<Longrightarrow> registry_ok reg'"
  by (auto simp: register_job_type_def dict_set_ok split: if_splits option.splits)

end
