(* ===== verification/Retry_Policy.thy ===== *)
theory Retry_Policy
  imports Job_Model
begin

text \<open>
  \<open>retry_policy.py\<close>: what happens after a failed attempt. An exception is the record \<open>exn\<close>
  of the attributes the framework reads from it with \<open>getattr\<close>; its class name decides.
  The text of \<open>RetryDecision.reason\<close> is a constructor of \<open>retry_reason\<close>.
\<close>

section \<open>Exceptions and verdicts\<close>

record verdict =
  v_retryable :: bool
  v_reason :: string
  v_fresh_start :: bool
  v_blocked :: bool

record exn =
  x_class :: string
  x_msg :: string
  x_verdict :: "verdict option"
  x_other_token :: bool
  x_pool_retry_at :: "nat option"
  x_agent_output :: "string option"
  x_session :: "string option"
  x_credential :: "nat option"
  x_reset_at :: "nat option"

definition plain_exn :: "string \<Rightarrow> string \<Rightarrow> exn" where
  "plain_exn c m = \<lparr>x_class = c, x_msg = m, x_verdict = None, x_other_token = False,
     x_pool_retry_at = None, x_agent_output = None, x_session = None, x_credential = None,
     x_reset_at = None\<rparr>"

text \<open>\<open>JobVerificationFailed(verdict)\<close>.\<close>

definition verification_failed :: "verdict \<Rightarrow> exn" where
  "verification_failed v =
     (plain_exn ''JobVerificationFailed'' (''job verification veto: '' @ v_reason v))
       \<lparr>x_verdict := Some v\<rparr>"

section \<open>The policy\<close>

definition BACKOFF_DELAYS :: "nat list" where
  "BACKOFF_DELAYS = [60, 300, 1800]"

definition NON_RETRYABLE_ERRORS :: "string list" where
  "NON_RETRYABLE_ERRORS =
     [''ValueError'', ''PermissionError'', ''FileNotFoundError'', ''KeyError'',
      ''AuthenticationError'', ''UsageLimitError'', ''TransientAuthError'',
      ''InvalidJobRuntime'', ''ModelConfigError'']"

definition OTHER_TOKEN_ERRORS :: "string list" where
  "OTHER_TOKEN_ERRORS = [''AuthenticationError'', ''UsageLimitError'', ''TransientAuthError'']"

datatype retry_reason =
    VetoBlocked string
  | VetoFinal string
  | VetoMaxAttempts
  | VetoRetry
  | MaxAttemptsAfter string
  | NextToken string
  | NonRetryable string
  | MaxAttempts
  | Retry

record retry_decision =
  should_retry :: bool
  delay_seconds :: nat
  reason :: retry_reason

definition stop_because :: "retry_reason \<Rightarrow> retry_decision" where
  "stop_because r = \<lparr>should_retry = False, delay_seconds = 0, reason = r\<rparr>"

text \<open>
  \<open>BACKOFF_DELAYS[min(attempt - 1, len(BACKOFF_DELAYS) - 1)]\<close> with Python's index: attempt 0
  gives index -1, the last delay.
\<close>

definition backoff_delay :: "nat \<Rightarrow> nat" where
  "backoff_delay attempt =
     (if attempt = 0 then last BACKOFF_DELAYS
      else BACKOFF_DELAYS ! min (attempt - 1) (length BACKOFF_DELAYS - 1))"

definition retry_after :: "nat \<Rightarrow> retry_reason \<Rightarrow> retry_decision" where
  "retry_after attempt r = \<lparr>should_retry = True, delay_seconds = backoff_delay attempt, reason = r\<rparr>"

definition evaluate :: "string option \<Rightarrow> nat \<Rightarrow> nat \<Rightarrow> exn option \<Rightarrow> retry_decision" where
  "evaluate error_class attempt max_attempts error_obj =
     (case Option.bind error_obj x_verdict of
        Some v \<Rightarrow>
          if v_blocked v then stop_because (VetoBlocked (v_reason v))
          else if \<not> v_retryable v then stop_because (VetoFinal (v_reason v))
          else if max_attempts \<le> attempt then stop_because VetoMaxAttempts
          else retry_after attempt VetoRetry
      | None \<Rightarrow>
          if (\<exists>c \<in> set OTHER_TOKEN_ERRORS. error_class = Some c)
             \<and> (case error_obj of None \<Rightarrow> False | Some e \<Rightarrow> x_other_token e)
          then if max_attempts \<le> attempt then stop_because (MaxAttemptsAfter (the error_class))
               else retry_after attempt (NextToken (the error_class))
          else if truthy error_class \<and> the error_class \<in> set NON_RETRYABLE_ERRORS
          then stop_because (NonRetryable (the error_class))
          else if max_attempts \<le> attempt then stop_because MaxAttempts
          else retry_after attempt Retry)"

section \<open>What the policy guarantees\<close>

lemma stop_because_simps [simp]:
  "\<not> should_retry (stop_because r)" "delay_seconds (stop_because r) = 0"
  by (simp_all add: stop_because_def)

lemma retry_after_simps [simp]:
  "should_retry (retry_after a r)" "delay_seconds (retry_after a r) = backoff_delay a"
  by (simp_all add: retry_after_def)

lemma backoff_cases: "backoff_delay a = (if a = 1 then 60 else if a = 2 then 300 else 1800)"
proof -
  consider "a = 0" | "a = 1" | "a = 2" | "a \<ge> 3" by linarith
  then show ?thesis
  proof cases
    case 4
    then have "min (a - 1) 2 = 2" by linarith
    with 4 show ?thesis by (simp add: backoff_delay_def BACKOFF_DELAYS_def)
  qed (simp_all add: backoff_delay_def BACKOFF_DELAYS_def)
qed

lemma backoff_in: "backoff_delay a \<in> set BACKOFF_DELAYS"
  by (auto simp: backoff_cases BACKOFF_DELAYS_def)

lemma evaluate_delay:
  "delay_seconds (evaluate c a m e) = (if should_retry (evaluate c a m e) then backoff_delay a else 0)"
  by (auto simp: evaluate_def split: option.splits)

lemma evaluate_attempts: "should_retry (evaluate c a m e) \<Longrightarrow> a < m"
  by (auto simp: evaluate_def split: option.splits if_splits)

lemma evaluate_verdict:
  assumes "x_verdict e = Some v"
  shows "should_retry (evaluate c a m (Some e)) \<longleftrightarrow> \<not> v_blocked v \<and> v_retryable v \<and> a < m"
  using assms by (auto simp: evaluate_def)

lemma evaluate_no_verdict:
  assumes "x_verdict e = None" and "cl \<noteq> []"
  shows "should_retry (evaluate (Some cl) a m (Some e)) \<longleftrightarrow>
     a < m \<and> (cl \<in> set NON_RETRYABLE_ERRORS \<longrightarrow> cl \<in> set OTHER_TOKEN_ERRORS \<and> x_other_token e)"
  using assms
  by (auto simp: evaluate_def truthy_def)

end
