(* ===== verification/Store.thy ===== *)
theory Store
  imports Retry_Policy
begin

text \<open>
  The database the queue works on (\<open>sql/init/000_init.sql\<close>): one list per table, the next
  auto-increment ids, the clock, and two logs that are not tables: the events dispatched to
  in-process observers, and the calls to the registered execution finalizer. A transaction is a
  function on this record; a rollback returns the record it started from.
\<close>

section \<open>Rows\<close>

record thread_row =
  t_id :: nat
  t_view :: "nat option"
  t_ref :: string
  t_hash :: string
  t_key :: string

record stretch_row =
  s_id :: nat
  s_job :: nat
  s_seq :: nat
  s_count :: nat
  s_line_wait :: bool
  s_closed :: "nat option"

record outbox_row =
  o_id :: nat
  o_job :: nat
  o_execution :: "string option"
  o_kind :: string
  o_payload :: pyval
  o_created :: nat

record cap_row =
  c_hash :: string
  c_kind :: string
  c_view :: "nat option"
  c_job :: "nat option"
  c_expires :: nat
  c_revoked :: "nat option"
  c_created :: nat
  c_actor :: string
  c_subject :: string
  c_workspace :: "nat option"
  c_execution :: "string option"
  c_app :: "(string \<times> string \<times> string) option"
  c_ceiling :: "string list option"
  c_transports :: "string list"
  c_source_kind :: "string option"
  c_source_id :: "string option"
  c_test :: "pyval option"

datatype cred_status = CredOk | CredError
datatype error_source = Auto | Operator

text \<open>The payload column is encrypted at rest; the model holds what it decrypts to.\<close>

record cred_row =
  k_id :: nat
  k_scope :: string
  k_type :: string
  k_label :: string
  k_payload :: "pyval option"
  k_limit :: nat
  k_enabled :: bool
  k_status :: cred_status
  k_priority :: int
  k_error_msg :: "string option"
  k_error_source :: "error_source option"
  k_expires :: "int option"
  k_throttled :: "nat option"
  k_lease_owner :: "string option"
  k_leased :: "nat option"
  k_used :: "nat option"
  k_updated :: nat

section \<open>Events\<close>

datatype outcome = Succeeded | Failed | Abandoned

datatype event =
    JobPublishAfter string string "string option" string "nat option" nat "nat option"
  | JobDeferAfter nat nat nat string
  | JobClaimAfter nat nat
  | JobFinalizeBefore nat
  | JobFinalizeAfter nat "verdict option"
  | JobSucceedAfter nat
  | JobFailAfter nat string
  | JobRetryAfter nat nat
  | JobBlockedAfter nat
  | JobDeadAfter nat
  | ExecutionStartAfter "string option" nat nat
  | ExecutionFinishAfter "string option" nat nat
  | ExecutionAbandonAfter "string option" nat nat
  | CredentialRegisterAfter string nat
  | CredentialAuthFailedAfter string "nat option" nat
  | CredentialUsageLimitedAfter string "nat option" nat nat
  | CredentialAuthThrottledAfter string "nat option" nat nat
  | WorkerStartAfter nat
  | WorkerStopAfter nat
  | AgentViewRunStartBefore nat "string option" string "string option"
  | AgentViewRunFinishAfter nat "string option" string "string option" bool

text \<open>One call \<open>finalizer.finalize(job_id, attempt, execution_id, outcome, job_terminal)\<close>.\<close>

record exec_close =
  f_job :: nat
  f_attempt :: nat
  f_execution :: "string option"
  f_outcome :: outcome
  f_terminal :: bool

section \<open>The database\<close>

record db =
  now_us :: nat
  jobs :: "job_row list"
  next_job :: nat
  threads :: "thread_row list"
  next_thread :: nat
  stretches :: "stretch_row list"
  next_stretch :: nat
  outbox :: "outbox_row list"
  next_outbox :: nat
  caps :: "cap_row list"
  creds :: "cred_row list"
  next_cred :: nat
  views :: "(nat \<times> nat) list"
  events :: "event list"
  closes :: "exec_close list"

definition empty_db :: "nat \<Rightarrow> db" where
  "empty_db t = \<lparr>now_us = t, jobs = [], next_job = 1, threads = [], next_thread = 1,
     stretches = [], next_stretch = 1, outbox = [], next_outbox = 1, caps = [], creds = [],
     next_cred = 1, views = [], events = [], closes = []\<rparr>"

abbreviation now_s :: "db \<Rightarrow> nat" where
  "now_s d \<equiv> sql_now (now_us d)"

definition find_job :: "db \<Rightarrow> nat \<Rightarrow> job_row option" where
  "find_job d i = find (\<lambda>r. j_id r = i) (jobs d)"

definition update_jobs :: "(job_row \<Rightarrow> bool) \<Rightarrow> (job_row \<Rightarrow> job_row) \<Rightarrow> db \<Rightarrow> db" where
  "update_jobs p f d = d\<lparr>jobs := update_where p f (jobs d)\<rparr>"

definition dispatch :: "event \<Rightarrow> db \<Rightarrow> db" where
  "dispatch e d = d\<lparr>events := events d @ [e]\<rparr>"

fun dispatch_all :: "event list \<Rightarrow> db \<Rightarrow> db" where
  "dispatch_all [] d = d"
| "dispatch_all (e # es) d = dispatch_all es (dispatch e d)"

section \<open>Facts about the table operations\<close>

text \<open>Job ids are the primary key and are handed out in order.\<close>

definition ids_ok :: "db \<Rightarrow> bool" where
  "ids_ok d \<longleftrightarrow> distinct (map j_id (jobs d)) \<and> (\<forall>r \<in> set (jobs d). j_id r < next_job d)"

lemma ids_ok_append:
  "ids_ok d \<Longrightarrow> jobs d' = jobs d @ [n] \<Longrightarrow> j_id n = next_job d \<Longrightarrow> next_job d' = next_job d + 1
    \<Longrightarrow> ids_ok d'"
  unfolding ids_ok_def by (simp only:) (rule fresh_append)

lemma ids_ok_lt: "ids_ok d \<Longrightarrow> r \<in> set (jobs d) \<Longrightarrow> j_id r < next_job d"
  unfolding ids_ok_def by blast

lemma ids_ok_distinct: "ids_ok d \<Longrightarrow> distinct (map j_id (jobs d))"
  unfolding ids_ok_def by blast

lemma ids_ok_cong: "jobs d' = jobs d \<Longrightarrow> next_job d' = next_job d \<Longrightarrow> ids_ok d' = ids_ok d"
  by (simp only: ids_ok_def)

lemma find_job_in: "find_job d i = Some r \<Longrightarrow> r \<in> set (jobs d) \<and> j_id r = i"
  unfolding find_job_def by (drule find_SomeD) auto

lemma find_job_unique:
  "distinct (map j_id (jobs d)) \<Longrightarrow> r \<in> set (jobs d) \<Longrightarrow> find_job d (j_id r) = Some r"
  unfolding find_job_def by (rule find_unique)

lemma update_jobs_fields [simp]:
  "now_us (update_jobs p f d) = now_us d" "next_job (update_jobs p f d) = next_job d"
  "threads (update_jobs p f d) = threads d" "next_thread (update_jobs p f d) = next_thread d"
  "stretches (update_jobs p f d) = stretches d" "next_stretch (update_jobs p f d) = next_stretch d"
  "outbox (update_jobs p f d) = outbox d" "next_outbox (update_jobs p f d) = next_outbox d"
  "caps (update_jobs p f d) = caps d" "creds (update_jobs p f d) = creds d"
  "next_cred (update_jobs p f d) = next_cred d" "views (update_jobs p f d) = views d"
  "events (update_jobs p f d) = events d" "closes (update_jobs p f d) = closes d"
  "jobs (update_jobs p f d) = update_where p f (jobs d)"
  by (simp_all add: update_jobs_def)

lemma dispatch_fields [simp]:
  "now_us (dispatch e d) = now_us d" "jobs (dispatch e d) = jobs d"
  "next_job (dispatch e d) = next_job d" "threads (dispatch e d) = threads d"
  "next_thread (dispatch e d) = next_thread d" "stretches (dispatch e d) = stretches d"
  "next_stretch (dispatch e d) = next_stretch d" "outbox (dispatch e d) = outbox d"
  "next_outbox (dispatch e d) = next_outbox d" "caps (dispatch e d) = caps d"
  "creds (dispatch e d) = creds d" "next_cred (dispatch e d) = next_cred d"
  "views (dispatch e d) = views d" "closes (dispatch e d) = closes d"
  "events (dispatch e d) = events d @ [e]"
  by (simp_all add: dispatch_def)

lemma dispatch_all_fields [simp]:
  "now_us (dispatch_all es d) = now_us d" "jobs (dispatch_all es d) = jobs d"
  "next_job (dispatch_all es d) = next_job d" "threads (dispatch_all es d) = threads d"
  "next_thread (dispatch_all es d) = next_thread d" "stretches (dispatch_all es d) = stretches d"
  "next_stretch (dispatch_all es d) = next_stretch d" "outbox (dispatch_all es d) = outbox d"
  "next_outbox (dispatch_all es d) = next_outbox d" "caps (dispatch_all es d) = caps d"
  "creds (dispatch_all es d) = creds d" "next_cred (dispatch_all es d) = next_cred d"
  "views (dispatch_all es d) = views d" "closes (dispatch_all es d) = closes d"
  "events (dispatch_all es d) = events d @ es"
  by (induction es arbitrary: d) simp_all

text \<open>An update that keeps the id keeps the key and finds the same row.\<close>

lemma find_job_update:
  assumes "\<And>r. p r \<Longrightarrow> j_id (f r) = j_id r"
  shows "find_job (update_jobs p f d) i = map_option (\<lambda>r. if p r then f r else r) (find_job d i)"
  unfolding find_job_def update_jobs_fields by (rule find_update_where) (simp add: assms)

lemma ids_ok_update:
  assumes "\<And>r. p r \<Longrightarrow> j_id (f r) = j_id r"
  shows "ids_ok (update_jobs p f d) = ids_ok d"
proof -
  have "map j_id (update_where p f (jobs d)) = map j_id (jobs d)"
    by (rule map_update_where) (rule assms)
  moreover from this have "j_id ` set (update_where p f (jobs d)) = j_id ` set (jobs d)"
    by (metis set_map)
  ultimately show ?thesis
    by (simp add: ids_ok_def Ball_def) (metis (no_types, lifting) image_iff)
qed

end
