(* ===== verification/Outbox.thy ===== *)
theory Outbox
  imports Store
begin

text \<open>
  \<open>outbox.py\<close>: the transactional outbox. A row is written through the caller's transaction; its
  payload must be plain JSON data and must not look like configuration or a secret.
\<close>

section \<open>The payload guard\<close>

definition kind_text :: "string \<Rightarrow> bool" where
  "kind_text s \<longleftrightarrow> s \<noteq> [] \<and> is_lower (hd s) \<and> length (tl s) \<le> 31
     \<and> (\<forall>c \<in> set (tl s). is_lower c \<or> is_digit c \<or> c = CHR ''_'' \<or> c = CHR ''.'')"

definition KIND_GRAMMAR :: "string \<Rightarrow> bool" where
  "KIND_GRAMMAR = re_match_dollar kind_text"

text \<open>The positions \<open>(^|/)\<close>: the text itself and every suffix that follows a slash.\<close>

fun after_slashes :: "string \<Rightarrow> string list" where
  "after_slashes [] = []"
| "after_slashes (c # cs) = (if c = CHR ''/'' then cs # after_slashes cs else after_slashes cs)"

definition segments :: "string \<Rightarrow> string list" where
  "segments s = s # after_slashes s"

definition secret_words :: "string list" where
  "secret_words = [''smtp_pass'', ''password'', ''secret'', ''token'']"

text \<open>\<open>^sk-[a-z]{2,}-\<close>.\<close>

definition vendor_key :: "string \<Rightarrow> bool" where
  "vendor_key s \<longleftrightarrow> starts_with ''sk-'' s \<and> 2 \<le> length (takeWhile is_lower (drop 3 s))
     \<and> starts_with ''-'' (dropWhile is_lower (drop 3 s))"

text \<open>\<open>(^|/)[a-z0-9_]+/(smtp_pass|password|secret|token)\<close>.\<close>

definition path_char :: "char \<Rightarrow> bool" where
  "path_char c \<longleftrightarrow> is_lower c \<or> is_digit c \<or> c = CHR ''_''"

definition secret_path :: "string \<Rightarrow> bool" where
  "secret_path s \<longleftrightarrow> (\<exists>t \<in> set (segments s). takeWhile path_char t \<noteq> []
     \<and> (\<exists>w \<in> set secret_words. starts_with (CHR ''/'' # w) (dropWhile path_char t)))"

text \<open>Both patterns are searched case-insensitively: the text is lowered first.\<close>

definition forbidden_key :: "string \<Rightarrow> bool" where
  "forbidden_key k \<longleftrightarrow> (let s = lower k in
     (\<exists>t \<in> set (segments s). \<exists>w \<in> set (secret_words @ [''credential'']). starts_with w t)
     \<or> starts_with ''config__'' s \<or> vendor_key s \<or> secret_path s)"

definition forbidden_value :: "string \<Rightarrow> bool" where
  "forbidden_value v \<longleftrightarrow> (let s = lower v in
     starts_with ''config__'' s \<or> vendor_key s \<or> secret_path s)"

text \<open>\<open>_check_plain\<close>: true when no \<open>PayloadError\<close> is raised.\<close>

fun check_plain :: "pyval \<Rightarrow> bool"
  and check_items :: "(pyval \<times> pyval) list \<Rightarrow> bool"
  and check_list :: "pyval list \<Rightarrow> bool" where
  "check_plain (PyDict kvs) = check_items kvs"
| "check_plain (PyList xs) = check_list xs"
| "check_plain (PyOther c) = False"
| "check_plain (PyStr s) = (\<not> forbidden_value s)"
| "check_plain PyNone = True"
| "check_plain (PyBool b) = True"
| "check_plain (PyInt i) = True"
| "check_plain (PyFloat q) = True"
| "check_items [] = True"
| "check_items ((k, v) # kvs) =
     ((case k of PyStr s \<Rightarrow> \<not> forbidden_key s | _ \<Rightarrow> False) \<and> check_plain v \<and> check_items kvs)"
| "check_list [] = True"
| "check_list (x # xs) = (check_plain x \<and> check_list xs)"

section \<open>Writing and pruning\<close>

datatype outbox_error = PayloadError

definition write_outbox ::
    "nat \<Rightarrow> string \<Rightarrow> pyval \<Rightarrow> string option \<Rightarrow> db \<Rightarrow> outbox_error + (nat \<times> db)" where
  "write_outbox job_id kind payload execution_id d =
     (if \<not> KIND_GRAMMAR kind then Inl PayloadError
      else if \<not> is_py_dict payload then Inl PayloadError
      else if \<not> check_plain payload then Inl PayloadError
      else Inr (next_outbox d,
        d\<lparr>outbox := outbox d @ [\<lparr>o_id = next_outbox d, o_job = job_id, o_execution = execution_id,
             o_kind = kind, o_payload = payload, o_created = now_s d\<rparr>],
          next_outbox := next_outbox d + 1\<rparr>))"

definition day_seconds :: nat where
  "day_seconds = 86400"

text \<open>Every row past the retention goes, relayed or not; the result is the number deleted.\<close>

definition prune_outbox :: "nat \<Rightarrow> db \<Rightarrow> nat \<times> db" where
  "prune_outbox days d =
     (let old = (\<lambda>r. o_created r + days * day_seconds < now_s d)
      in (length (filter old (outbox d)), d\<lparr>outbox := filter (\<lambda>r. \<not> old r) (outbox d)\<rparr>))"

section \<open>Facts\<close>

text \<open>Which keys and strings a payload holds, at any depth.\<close>

inductive subvalue :: "pyval \<Rightarrow> pyval \<Rightarrow> bool" where
  here: "subvalue v v"
| in_list: "x \<in> set xs \<Longrightarrow> subvalue v x \<Longrightarrow> subvalue v (PyList xs)"
| in_dict: "(k, x) \<in> set kvs \<Longrightarrow> subvalue v x \<Longrightarrow> subvalue v (PyDict kvs)"

inductive_cases subvalue_listE: "subvalue v (PyList xs)"
inductive_cases subvalue_dictE: "subvalue v (PyDict kvs)"

lemma check_items_iff:
  "check_items kvs \<longleftrightarrow> (\<forall>(k, v) \<in> set kvs. (\<exists>s. k = PyStr s \<and> \<not> forbidden_key s) \<and> check_plain v)"
  by (induction kvs) (auto split: pyval.splits)

lemma check_list_iff: "check_list xs \<longleftrightarrow> (\<forall>x \<in> set xs. check_plain x)"
  by (induction xs) auto

lemma check_plain_sub: "subvalue v w \<Longrightarrow> check_plain w \<Longrightarrow> check_plain v"
  by (induction rule: subvalue.induct) (auto simp: check_items_iff check_list_iff)

lemma write_outboxD:
  assumes "write_outbox j k p e d = Inr (i, d')"
  shows "jobs d' = jobs d" "threads d' = threads d" "stretches d' = stretches d" "caps d' = caps d"
    "creds d' = creds d" "now_us d' = now_us d" "next_job d' = next_job d" "events d' = events d"
    "closes d' = closes d" "views d' = views d" "next_thread d' = next_thread d"
    "next_stretch d' = next_stretch d"
    "outbox d' = outbox d @ [\<lparr>o_id = next_outbox d, o_job = j, o_execution = e, o_kind = k,
       o_payload = p, o_created = now_s d\<rparr>]"
  using assms by (auto simp: write_outbox_def split: if_splits)

lemma write_outbox_ok:
  "KIND_GRAMMAR k \<Longrightarrow> is_py_dict p \<Longrightarrow> check_plain p \<Longrightarrow> \<exists>r. write_outbox j k p e d = Inr r"
  by (auto simp: write_outbox_def)

end
