(* ===== verification/Defer.thy ===== *)
theory Defer
  imports Outbox
begin

text \<open>
  \<open>defer.py\<close>: deferred claims. The delay of a deferral is clamped, and an unbroken run of
  deferrals of one job is one row of \<open>job_defer_stretch\<close>, announced once, when it closes.
\<close>

section \<open>Delays\<close>

definition DEFER_FLOOR_MS :: int where "DEFER_FLOOR_MS = 250"
definition DEFER_CEILING_MS :: int where "DEFER_CEILING_MS = 30000"

text \<open>\<open>int(value)\<close>; \<open>None\<close> is a \<open>TypeError\<close> or a \<open>ValueError\<close>.\<close>

fun py_int :: "pyval \<Rightarrow> int option" where
  "py_int (PyInt n) = Some n"
| "py_int (PyBool b) = Some (if b then 1 else 0)"
| "py_int (PyFloat q) = Some (if q < 0 then - \<lfloor>- q\<rfloor> else \<lfloor>q\<rfloor>)"
| "py_int (PyStr s) = int_of_text s"
| "py_int _ = None"

definition clamp_delay :: "pyval \<Rightarrow> int" where
  "clamp_delay delay_ms =
     (case py_int delay_ms of
        None \<Rightarrow> DEFER_FLOOR_MS
      | Some value \<Rightarrow> min (max value DEFER_FLOOR_MS) DEFER_CEILING_MS)"

text \<open>\<open>-(-ms // 1000)\<close>: whole seconds, rounded up.\<close>

definition defer_seconds :: "pyval \<Rightarrow> int" where
  "defer_seconds delay_ms = - ((- clamp_delay delay_ms) div 1000)"

section \<open>Stretches\<close>

definition open_stretch :: "nat \<Rightarrow> stretch_row \<Rightarrow> bool" where
  "open_stretch job_id s \<longleftrightarrow> s_job s = job_id \<and> s_closed s = None"

text \<open>\<open>ORDER BY stretch_seq DESC LIMIT 1\<close>.\<close>

definition later_stretch :: "stretch_row \<Rightarrow> stretch_row \<Rightarrow> bool" where
  "later_stretch s t \<longleftrightarrow> s_seq t < s_seq s"

interpretation stretch_order: row_order later_stretch
  by unfold_locales (auto simp: later_stretch_def)

definition current_stretch :: "nat \<Rightarrow> db \<Rightarrow> stretch_row option" where
  "current_stretch job_id d = best later_stretch (filter (open_stretch job_id) (stretches d))"

text \<open>\<open>COALESCE(MAX(stretch_seq), 0) + 1\<close> over the job's stretches.\<close>

definition next_seq :: "nat \<Rightarrow> db \<Rightarrow> nat" where
  "next_seq job_id d = fold max (map s_seq (filter (\<lambda>s. s_job s = job_id) (stretches d))) 0 + 1"

definition open_or_bump_stretch :: "nat \<Rightarrow> bool \<Rightarrow> db \<Rightarrow> (nat \<times> nat) \<times> db" where
  "open_or_bump_stretch job_id line_wait d =
     (case current_stretch job_id d of
        Some row \<Rightarrow>
          ((s_seq row, s_count row + 1),
           d\<lparr>stretches := update_where (\<lambda>s. s_id s = s_id row)
               (\<lambda>s. s\<lparr>s_count := s_count s + 1, s_line_wait := line_wait\<rparr>) (stretches d)\<rparr>)
      | None \<Rightarrow>
          (let seq = next_seq job_id d in
           ((seq, 1),
            d\<lparr>stretches := stretches d @ [\<lparr>s_id = next_stretch d, s_job = job_id, s_seq = seq,
                s_count = 1, s_line_wait = line_wait, s_closed = None\<rparr>],
              next_stretch := next_stretch d + 1\<rparr>)))"

text \<open>
  The compare-and-set close. Only the caller that changed the row writes the outbox row and
  gets the event.
\<close>

definition close_stretch :: "nat \<Rightarrow> string \<Rightarrow> db \<Rightarrow> outbox_error + (event option \<times> db)" where
  "close_stretch job_id why d =
     (case current_stretch job_id d of
        None \<Rightarrow> Inr (None, d)
      | Some row \<Rightarrow>
          (let hit = (\<lambda>s. s_id s = s_id row \<and> s_closed s = None);
               close = (\<lambda>s. s\<lparr>s_closed := Some (now_s d)\<rparr>)
           in if changed hit close (stretches d) \<noteq> 1 then Inr (None, d)
              else case write_outbox job_id ''job.deferred''
                     (PyDict [(PyStr ''stretch_seq'', PyInt (int (s_seq row))),
                              (PyStr ''defer_count'', PyInt (int (s_count row))),
                              (PyStr ''reason'', PyStr why)]) None
                     (d\<lparr>stretches := update_where hit close (stretches d)\<rparr>) of
                   Inl e \<Rightarrow> Inl e
                 | Inr (_, d') \<Rightarrow>
                     Inr (Some (JobDeferAfter job_id (s_seq row) (s_count row) why), d')))"

text \<open>Only a closed stretch past the retention is deleted.\<close>

definition prune_defer_stretches :: "nat \<Rightarrow> db \<Rightarrow> nat \<times> db" where
  "prune_defer_stretches days d =
     (let old = (\<lambda>s. case s_closed s of None \<Rightarrow> False | Some c \<Rightarrow> c + days * day_seconds < now_s d)
      in (length (filter old (stretches d)),
          d\<lparr>stretches := filter (\<lambda>s. \<not> old s) (stretches d)\<rparr>))"

section \<open>Facts\<close>

lemma clamp_bounds: "DEFER_FLOOR_MS \<le> clamp_delay v \<and> clamp_delay v \<le> DEFER_CEILING_MS"
  by (auto simp: clamp_delay_def DEFER_FLOOR_MS_def DEFER_CEILING_MS_def split: option.splits)

lemma defer_seconds_bounds: "1 \<le> defer_seconds v \<and> defer_seconds v \<le> 30"
  using clamp_bounds [of v]
  by (simp add: defer_seconds_def DEFER_FLOOR_MS_def DEFER_CEILING_MS_def) linarith

lemma defer_seconds_covers: "clamp_delay v \<le> 1000 * defer_seconds v"
  unfolding defer_seconds_def by linarith

text \<open>
  The invariant of the table: a stretch has its own id, and at most one stretch of a job is
  open.
\<close>

definition stretches_ok :: "db \<Rightarrow> bool" where
  "stretches_ok d \<longleftrightarrow> distinct (map s_id (stretches d))
     \<and> (\<forall>s \<in> set (stretches d). s_id s < next_stretch d)
     \<and> (\<forall>s \<in> set (stretches d). \<forall>t \<in> set (stretches d).
           s_job s = s_job t \<and> s_closed s = None \<and> s_closed t = None \<longrightarrow> s = t)"

lemma current_stretchD:
  "current_stretch j d = Some s \<Longrightarrow> s \<in> set (stretches d) \<and> s_job s = j \<and> s_closed s = None"
  unfolding current_stretch_def open_stretch_def by (drule best_filterD) auto

lemma current_stretch_None:
  "current_stretch j d = None \<longleftrightarrow> (\<forall>s \<in> set (stretches d). s_job s = j \<longrightarrow> s_closed s \<noteq> None)"
  unfolding current_stretch_def best_filter_None open_stretch_def by auto

lemma current_stretch_max:
  "current_stretch j d = Some s \<Longrightarrow> t \<in> set (stretches d) \<Longrightarrow> s_job t = j \<Longrightarrow> s_closed t = None
    \<Longrightarrow> s_seq t \<le> s_seq s"
  unfolding current_stretch_def
  by (drule stretch_order.picked_first) (auto simp: open_stretch_def later_stretch_def)

lemma fold_max_ge: "x \<in> set xs \<or> x = a \<Longrightarrow> (x::nat) \<le> fold max xs a"
proof (induction xs arbitrary: a x)
  case (Cons y xs)
  show ?case
  proof (cases "x \<in> set xs")
    case True
    then show ?thesis using Cons.IH by simp
  next
    case False
    with Cons.prems have "x \<le> max y a" by auto
    also have "\<dots> \<le> fold max xs (max y a)" using Cons.IH by blast
    finally show ?thesis by simp
  qed
qed simp

lemma next_seq_fresh: "s \<in> set (stretches d) \<Longrightarrow> s_job s = j \<Longrightarrow> s_seq s < next_seq j d"
  unfolding next_seq_def
  using fold_max_ge [of "s_seq s" "map s_seq (filter (\<lambda>s. s_job s = j) (stretches d))" 0]
  by auto

lemma open_or_bump_other_tables [simp]:
  assumes "open_or_bump_stretch j w d = (r, d')"
  shows "jobs d' = jobs d" "threads d' = threads d" "caps d' = caps d" "creds d' = creds d"
    "now_us d' = now_us d" "next_job d' = next_job d" "events d' = events d" "views d' = views d"
    "closes d' = closes d" "outbox d' = outbox d" "next_thread d' = next_thread d"
  using assms by (auto simp: open_or_bump_stretch_def Let_def split: option.splits)

lemma open_or_bump_ok:
  assumes ok: "stretches_ok d" and step: "open_or_bump_stretch j w d = (r, d')"
  shows "stretches_ok d'"
proof (cases "current_stretch j d")
  case None
  then have closed: "\<forall>s \<in> set (stretches d). s_job s = j \<longrightarrow> s_closed s \<noteq> None"
    by (simp add: current_stretch_None)
  obtain n where d': "stretches d' = stretches d @ [n]" "next_stretch d' = next_stretch d + 1"
    and n: "s_id n = next_stretch d" "s_job n = j"
    using None step by (auto simp: open_or_bump_stretch_def Let_def)
  have fresh: "s_id n \<notin> s_id ` set (stretches d)"
    using ok n by (auto simp: stretches_ok_def)
  show ?thesis
    unfolding stretches_ok_def d'
    using ok closed fresh n unfolding stretches_ok_def by (auto simp: less_Suc_eq)
next
  case (Some row)
  let ?f = "\<lambda>s. s\<lparr>s_count := s_count s + 1, s_line_wait := w\<rparr>"
  have d': "stretches d' = update_where (\<lambda>s. s_id s = s_id row) ?f (stretches d)"
    "next_stretch d' = next_stretch d"
    using Some step by (auto simp: open_or_bump_stretch_def)
  have ids: "map s_id (stretches d') = map s_id (stretches d)"
    unfolding d' by (rule map_update_where) simp
  have one: "\<forall>s \<in> set (stretches d). \<forall>t \<in> set (stretches d).
      s_job s = s_job t \<and> s_closed s = None \<and> s_closed t = None \<longrightarrow> s = t"
    using ok by (simp add: stretches_ok_def)
  show ?thesis
    unfolding stretches_ok_def ids
  proof (intro conjI ballI impI)
    show "distinct (map s_id (stretches d))" using ok by (simp add: stretches_ok_def)
  next
    fix s assume "s \<in> set (stretches d')"
    then show "s_id s < next_stretch d'" using ok by (auto simp: stretches_ok_def d' in_update_where)
  next
    fix s t
    assume "s \<in> set (stretches d')" "t \<in> set (stretches d')"
      and same: "s_job s = s_job t \<and> s_closed s = None \<and> s_closed t = None"
    then obtain s0 t0 where "s0 \<in> set (stretches d)" "t0 \<in> set (stretches d)"
      and s: "s = (if s_id s0 = s_id row then ?f s0 else s0)"
      and t: "t = (if s_id t0 = s_id row then ?f t0 else t0)"
      by (auto simp: d' in_update_where)
    moreover from same s t have "s_job s0 = s_job t0" "s_closed s0 = None" "s_closed t0 = None"
      by (auto split: if_splits)
    ultimately have "s0 = t0" using one by blast
    then show "s = t" using s t by simp
  qed
qed

text \<open>After a deferral the job has an open stretch, and it records the cause.\<close>

lemma open_or_bump_open:
  assumes step: "open_or_bump_stretch j w d = ((q, c), d')"
  shows "\<exists>s \<in> set (stretches d'). s_job s = j \<and> s_closed s = None \<and> s_line_wait s = w \<and> s_seq s = q"
proof (cases "current_stretch j d")
  case None
  with step show ?thesis by (auto simp: open_or_bump_stretch_def Let_def)
next
  case (Some row)
  let ?f = "\<lambda>s. s\<lparr>s_count := s_count s + 1, s_line_wait := w\<rparr>"
  from Some have "row \<in> set (stretches d)" "s_job row = j" "s_closed row = None"
    using current_stretchD by blast+
  with Some step have "?f row \<in> set (stretches d')" "q = s_seq row"
    by (auto simp: open_or_bump_stretch_def in_update_where)
  with \<open>s_job row = j\<close> \<open>s_closed row = None\<close> show ?thesis
    by (intro bexI [where x = "?f row"]) auto
qed

lemma close_stretchD:
  assumes "close_stretch j why d = Inr (e, d')"
  shows "jobs d' = jobs d" "threads d' = threads d" "caps d' = caps d" "creds d' = creds d"
    "now_us d' = now_us d" "next_job d' = next_job d" "events d' = events d" "views d' = views d"
    "closes d' = closes d" "next_thread d' = next_thread d"
  using assms
  by (auto simp: close_stretch_def Let_def split: option.splits sum.splits if_splits
      dest: write_outboxD)

end
