(* ===== verification/Threads.thy ===== *)
theory Threads
  imports Defer
begin

text \<open>
  \<open>threads.py\<close>: the thread of a job, the line of turns it belongs to, which turn must wait, and
  the session a turn continues. SHA-1 and the random key of a new thread are arguments
  (\<open>env\<close>).
\<close>

section \<open>Threads\<close>

record env =
  sha1_hex :: "string \<Rightarrow> string"
  token_hex :: "nat \<Rightarrow> string"

definition MAX_REF_LENGTH :: nat where "MAX_REF_LENGTH = 600"
definition LINE_DEFER_MS :: nat where "LINE_DEFER_MS = 1000"
definition LINE_DEFER_MAX_MS :: nat where "LINE_DEFER_MAX_MS = 5000"

text \<open>\<open>LINE_DEFER_MS << n\<close> is a product with a power of two.\<close>

definition line_defer_ms :: "nat \<Rightarrow> nat" where
  "line_defer_ms defer_count =
     min (LINE_DEFER_MS * 2 ^ min (max (defer_count - 1) 0) 8) LINE_DEFER_MAX_MS"

definition default_ref :: "string \<Rightarrow> string option \<Rightarrow> nat \<Rightarrow> string" where
  "default_ref source reference_id job_id =
     (if truthy reference_id then source @ '':'' @ the reference_id else ''job:'' @ str_nat job_id)"

datatype thread_error = RefTooLong | NoView | WrongThread nat

definition find_thread :: "nat \<Rightarrow> string \<Rightarrow> db \<Rightarrow> thread_row option" where
  "find_thread view h d = find (\<lambda>t. t_view t = Some view \<and> t_hash t = h) (threads d)"

definition thread_by_id :: "nat \<Rightarrow> db \<Rightarrow> thread_row option" where
  "thread_by_id i d = find (\<lambda>t. t_id t = i) (threads d)"

text \<open>
  The SELECT first; the upsert creates a row when there is none. With no view the unique key
  does not apply, so every call makes a thread.
\<close>

definition ensure_thread :: "env \<Rightarrow> nat option \<Rightarrow> string \<Rightarrow> db \<Rightarrow> thread_error + (nat \<times> db)" where
  "ensure_thread env view ref d =
     (if MAX_REF_LENGTH < length ref then Inl RefTooLong
      else case (case view of None \<Rightarrow> None | Some v \<Rightarrow> find_thread v (sha1_hex env ref) d) of
             Some row \<Rightarrow> Inr (t_id row, d)
           | None \<Rightarrow> Inr (next_thread d,
               d\<lparr>threads := threads d @ [\<lparr>t_id = next_thread d, t_view = view, t_ref = ref,
                   t_hash = sha1_hex env ref, t_key = token_hex env (next_thread d)\<rparr>],
                 next_thread := next_thread d + 1\<rparr>))"

text \<open>The lock is the transaction; what is left is the check. \<open>None\<close>: it raises nothing.\<close>

definition join_thread :: "nat \<Rightarrow> nat option \<Rightarrow> nat \<Rightarrow> db \<Rightarrow> thread_error option" where
  "join_thread thread_id view depth d =
     (if depth = 0 \<and> view = None then Some NoView
      else case thread_by_id thread_id d of
             None \<Rightarrow> Some (WrongThread thread_id)
           | Some row \<Rightarrow> if depth = 0 \<and> t_view row \<noteq> view then Some (WrongThread thread_id) else None)"

definition lock_thread :: "nat option \<Rightarrow> db \<Rightarrow> string option" where
  "lock_thread thread_id d = Option.bind thread_id (\<lambda>i. map_option t_key (thread_by_id i d))"

section \<open>Lines\<close>

text \<open>The id that names a deeper job's line; \<open>None\<close> for the thread's depth-0 line.\<close>

definition line_key :: "('a job_row_scheme) \<Rightarrow> nat option" where
  "line_key job = (if j_depth job = 0 then None
                   else Some (case j_line job of Some l \<Rightarrow> l | None \<Rightarrow> j_id job))"

text \<open>\<open>=\<close> of two nullable columns: false when either is NULL.\<close>

definition sql_eq :: "'a option \<Rightarrow> 'a option \<Rightarrow> bool" where
  "sql_eq a b \<longleftrightarrow> a \<noteq> None \<and> a = b"

definition line_where :: "('a job_row_scheme) \<Rightarrow> job_row \<Rightarrow> bool" where
  "line_where job r =
     (case line_key job of
        None \<Rightarrow> sql_eq (j_thread r) (j_thread job) \<and> j_depth r = 0
      | Some key \<Rightarrow> (j_id r = key \<or> j_line r = Some key) \<and> sql_eq (j_thread r) (j_thread job))"

text \<open>
  The claim's thread. A row with none gets its default thread; a detach moves the job there and
  clears its session.
\<close>

definition place_claim :: "env \<Rightarrow> job \<Rightarrow> bool \<Rightarrow> db \<Rightarrow> thread_error + (job \<times> db)" where
  "place_claim env job detach d =
     (if j_thread job \<noteq> None \<and> \<not> detach then Inr (job, d)
      else let ref = default_ref (j_source job) (j_ref job) (j_id job) in
        if j_thread job \<noteq> None \<and> j_view job = None
           \<and> map_option t_ref (thread_by_id (the (j_thread job)) d) = Some ref
        then Inr (job, d)
        else case ensure_thread env (j_view job) ref d of
               Inl e \<Rightarrow> Inl e
             | Inr (own, d') \<Rightarrow>
                 if j_thread job = Some own then Inr (job, d')
                 else if detach \<and> j_thread job \<noteq> None
                 then Inr (job\<lparr>j_session := None, j_detached := True, j_thread := Some own\<rparr>,
                        update_jobs (\<lambda>r. j_id r = j_id job)
                          (\<lambda>r. r\<lparr>j_thread := Some own, j_session := None\<rparr>) d')
                 else Inr (job\<lparr>j_thread := Some own\<rparr>,
                        update_jobs (\<lambda>r. j_id r = j_id job) (\<lambda>r. r\<lparr>j_thread := Some own\<rparr>) d'))"

definition waits_on_line :: "db \<Rightarrow> nat \<Rightarrow> bool" where
  "waits_on_line d i \<longleftrightarrow> (\<exists>s \<in> set (stretches d). open_stretch i s \<and> s_line_wait s)"

definition line_blocked :: "('a job_row_scheme) \<Rightarrow> db \<Rightarrow> bool" where
  "line_blocked job d \<longleftrightarrow>
     (\<exists>r \<in> set (jobs d). line_where job r \<and> j_id r \<noteq> j_id job \<and> j_status r \<in> set OPEN_STATUSES
        \<and> (j_status r = RUNNING
           \<or> (j_status r = PAUSED \<and> j_session r \<noteq> None)
           \<or> (j_status r = TODO \<and>
               (if j_started job \<noteq> None then j_started r \<noteq> None \<and> j_id r < j_id job
                else j_started r \<noteq> None
                  \<or> (j_id r < j_id job \<and> (j_sched r \<le> now_s d \<or> waits_on_line d (j_id r)))))))"

text \<open>\<open>ORDER BY finished_at DESC, id DESC\<close>: a NULL comes last.\<close>

definition later_turn :: "job_row \<Rightarrow> job_row \<Rightarrow> bool" where
  "later_turn r q \<longleftrightarrow> (j_finished q, j_id q) < (j_finished r, j_id r)"

interpretation turn_order: row_order later_turn
  unfolding later_turn_def by unfold_locales auto

definition resumable_turn :: "('a job_row_scheme) \<Rightarrow> job_row \<Rightarrow> bool" where
  "resumable_turn job r \<longleftrightarrow> line_where job r \<and> j_id r \<noteq> j_id job
     \<and> j_status r \<in> set TERMINAL_STATUSES \<and> j_session r \<noteq> None"

definition resolve_resume :: "('a job_row_scheme) \<Rightarrow> db \<Rightarrow> nat option" where
  "resolve_resume job d = map_option j_id (best later_turn (filter (resumable_turn job) (jobs d)))"

section \<open>Facts\<close>

definition threads_ok :: "db \<Rightarrow> bool" where
  "threads_ok d \<longleftrightarrow> distinct (map t_id (threads d)) \<and> (\<forall>t \<in> set (threads d). t_id t < next_thread d)
     \<and> (\<forall>t \<in> set (threads d). \<forall>u \<in> set (threads d).
          t_view t = t_view u \<and> t_view t \<noteq> None \<and> t_hash t = t_hash u \<longrightarrow> t = u)"

lemma threads_ok_lt: "threads_ok d \<Longrightarrow> t \<in> set (threads d) \<Longrightarrow> t_id t < next_thread d"
  unfolding threads_ok_def by blast

lemma threads_ok_distinct: "threads_ok d \<Longrightarrow> distinct (map t_id (threads d))"
  unfolding threads_ok_def by blast

lemma line_defer_bounds: "1000 \<le> line_defer_ms n \<and> line_defer_ms n \<le> 5000"
proof -
  have "1 \<le> (2::nat) ^ min (max (n - 1) 0) 8" by simp
  then have "1000 \<le> LINE_DEFER_MS * 2 ^ min (max (n - 1) 0) 8"
    unfolding LINE_DEFER_MS_def by linarith
  then show ?thesis by (simp add: line_defer_ms_def LINE_DEFER_MAX_MS_def)
qed

lemma ensure_thread_tables:
  assumes "ensure_thread env view ref d = Inr (i, d')"
  shows "jobs d' = jobs d" "stretches d' = stretches d" "outbox d' = outbox d" "caps d' = caps d"
    "creds d' = creds d" "now_us d' = now_us d" "next_job d' = next_job d" "events d' = events d"
    "closes d' = closes d" "views d' = views d" "next_stretch d' = next_stretch d"
    "next_outbox d' = next_outbox d"
  using assms by (auto simp: ensure_thread_def split: if_splits option.splits)

lemma find_threadD:
  "find_thread v h d = Some t \<Longrightarrow> t \<in> set (threads d) \<and> t_view t = Some v \<and> t_hash t = h"
  unfolding find_thread_def by (drule find_SomeD) auto

lemma find_thread_None:
  "find_thread v h d = None \<Longrightarrow> t \<in> set (threads d) \<Longrightarrow> t_view t = Some v \<Longrightarrow> t_hash t \<noteq> h"
  unfolding find_thread_def by (auto simp: find_None_filter filter_empty_conv)

lemma ensure_thread_ok:
  assumes ok: "threads_ok d" and step: "ensure_thread env view ref d = Inr (i, d')"
  shows "threads_ok d'"
proof (cases "case view of None \<Rightarrow> None | Some v \<Rightarrow> find_thread v (sha1_hex env ref) d")
  case (Some row)
  with step have "d' = d" by (auto simp: ensure_thread_def split: if_splits)
  with ok show ?thesis by simp
next
  case None
  have new: "\<not> (t_view t = view \<and> view \<noteq> None \<and> t_hash t = sha1_hex env ref)"
    if "t \<in> set (threads d)" for t
    using None that by (auto split: option.splits dest: find_thread_None)
  define n where "n = \<lparr>t_id = next_thread d, t_view = view, t_ref = ref,
    t_hash = sha1_hex env ref, t_key = token_hex env (next_thread d)\<rparr>"
  have n: "t_id n = next_thread d" "t_view n = view" "t_hash n = sha1_hex env ref"
    by (simp_all add: n_def)
  have "d' = d\<lparr>threads := threads d @ [n], next_thread := next_thread d + 1\<rparr>"
    using step unfolding ensure_thread_def None n_def by (auto split: if_splits)
  then have d': "threads d' = threads d @ [n]" "next_thread d' = next_thread d + 1" by simp_all
  have fresh: "t_id n \<notin> t_id ` set (threads d)" using threads_ok_lt [OF ok] n by fastforce
  show ?thesis
    unfolding threads_ok_def d'
  proof (intro conjI ballI impI)
    show "distinct (map t_id (threads d @ [n]))" using threads_ok_distinct [OF ok] fresh by simp
  next
    fix t assume "t \<in> set (threads d @ [n])"
    then show "t_id t < next_thread d + 1"
      using threads_ok_lt [OF ok, of t] n by auto
  next
    fix t u
    assume t: "t \<in> set (threads d @ [n])" and u: "u \<in> set (threads d @ [n])"
      and same: "t_view t = t_view u \<and> t_view t \<noteq> None \<and> t_hash t = t_hash u"
    consider "t \<in> set (threads d)" "u \<in> set (threads d)" | "t = n" "u = n"
      | "t \<in> set (threads d)" "u = n" | "t = n" "u \<in> set (threads d)"
      using t u by auto
    then show "t = u"
    proof cases
      case 1
      then show ?thesis using ok same unfolding threads_ok_def by blast
    next
      case 3
      then show ?thesis using new [of t] same n by metis
    next
      case 4
      then show ?thesis using new [of u] same n by metis
    qed simp
  qed
qed

text \<open>The thread that was asked for is there, with its view and its hash.\<close>

lemma ensure_thread_found:
  assumes ok: "threads_ok d" and step: "ensure_thread env view ref d = Inr (i, d')"
  shows "\<exists>t. thread_by_id i d' = Some t \<and> t_view t = view \<and> t_hash t = sha1_hex env ref"
proof -
  have ok': "threads_ok d'" using ok step by (rule ensure_thread_ok)
  have "\<exists>t \<in> set (threads d'). t_id t = i \<and> t_view t = view \<and> t_hash t = sha1_hex env ref"
    using step
    by (auto simp: ensure_thread_def split: if_splits option.splits dest!: find_threadD)
  then obtain t where t: "t \<in> set (threads d')" "t_id t = i" "t_view t = view" "t_hash t = sha1_hex env ref"
    by blast
  have "find (\<lambda>q. t_id q = t_id t) (threads d') = Some t"
    using threads_ok_distinct [OF ok'] t(1) by (rule find_unique)
  with t show ?thesis by (auto simp: thread_by_id_def)
qed

text \<open>Asking again for the same reference of the same view gives the same thread.\<close>

lemma ensure_thread_again:
  assumes ok: "threads_ok d" and step: "ensure_thread env (Some v) ref d = Inr (i, d')"
  shows "ensure_thread env (Some v) ref d' = Inr (i, d')"
proof -
  have ok': "threads_ok d'" using ok step by (rule ensure_thread_ok)
  obtain t where t: "thread_by_id i d' = Some t" "t_view t = Some v" "t_hash t = sha1_hex env ref"
    using ensure_thread_found [OF ok step] by blast
  then have ti: "t \<in> set (threads d')" "t_id t = i"
    unfolding thread_by_id_def by (auto dest: find_SomeD)
  obtain u where u: "find_thread v (sha1_hex env ref) d' = Some u"
    using t ti find_thread_None by (cases "find_thread v (sha1_hex env ref) d'") blast+
  have uu: "u \<in> set (threads d')" "t_view u = t_view t" "t_hash u = t_hash t"
    using find_threadD [OF u] t by auto
  have "u = t"
    using ok' uu ti(1) t(2) unfolding threads_ok_def by (metis option.distinct(1))
  with u ti step show ?thesis by (auto simp: ensure_thread_def split: if_splits)
qed

text \<open>The four ways a claim is placed.\<close>

lemma place_claim_cases:
  assumes step: "place_claim env job detach d = Inr (job', d')"
  obtains (kept) "job' = job" "d' = d" "j_thread job \<noteq> None"
  | (same) own ref where "ensure_thread env (j_view job) ref d = Inr (own, d')" "job' = job"
      "j_thread job = Some own"
  | (moved) own ref d1 where "ensure_thread env (j_view job) ref d = Inr (own, d1)" "detach"
      "job' = job\<lparr>j_session := None, j_detached := True, j_thread := Some own\<rparr>"
      "d' = update_jobs (\<lambda>r. j_id r = j_id job)
              (\<lambda>r. r\<lparr>j_thread := Some own, j_session := None\<rparr>) d1"
  | (placed) own ref d1 where "ensure_thread env (j_view job) ref d = Inr (own, d1)"
      "j_thread job = None" "job' = job\<lparr>j_thread := Some own\<rparr>"
      "d' = update_jobs (\<lambda>r. j_id r = j_id job) (\<lambda>r. r\<lparr>j_thread := Some own\<rparr>) d1"
proof (cases "j_thread job \<noteq> None \<and> \<not> detach")
  case True
  with step kept show ?thesis by (auto simp: place_claim_def)
next
  case out: False
  let ?ref = "default_ref (j_source job) (j_ref job) (j_id job)"
  show ?thesis
  proof (cases "j_thread job \<noteq> None \<and> j_view job = None
      \<and> map_option t_ref (thread_by_id (the (j_thread job)) d) = Some ?ref")
    case True
    then have "place_claim env job detach d = Inr (job, d)"
      using out by (simp add: place_claim_def Let_def)
    with step True kept show ?thesis by simp
  next
    case False
    note eq = place_claim_def Let_def if_not_P [OF out] if_not_P [OF False]
    obtain own d1 where e: "ensure_thread env (j_view job) ?ref d = Inr (own, d1)"
      using step unfolding eq by (cases "ensure_thread env (j_view job) ?ref d") auto
    consider (a) "j_thread job = Some own" | (b) "j_thread job \<noteq> Some own" "detach \<and> j_thread job \<noteq> None"
      | (c) "j_thread job = None" using out by blast
    then show ?thesis
    proof cases
      case a
      have "place_claim env job detach d = Inr (job, d1)" unfolding eq e using a by simp
      then have "job' = job" "d1 = d'" using step by simp_all
      with a e same show ?thesis by blast
    next
      case b
      have "place_claim env job detach d =
          Inr (job\<lparr>j_session := None, j_detached := True, j_thread := Some own\<rparr>,
            update_jobs (\<lambda>r. j_id r = j_id job)
              (\<lambda>r. r\<lparr>j_thread := Some own, j_session := None\<rparr>) d1)"
        unfolding eq e using b by simp
      then have "job' = job\<lparr>j_session := None, j_detached := True, j_thread := Some own\<rparr>"
        "d' = update_jobs (\<lambda>r. j_id r = j_id job)
              (\<lambda>r. r\<lparr>j_thread := Some own, j_session := None\<rparr>) d1"
        using step by simp_all
      with b moved [OF e] show ?thesis by blast
    next
      case c
      have "place_claim env job detach d = Inr (job\<lparr>j_thread := Some own\<rparr>,
            update_jobs (\<lambda>r. j_id r = j_id job) (\<lambda>r. r\<lparr>j_thread := Some own\<rparr>) d1)"
        unfolding eq e using c by simp
      then have "job' = job\<lparr>j_thread := Some own\<rparr>"
        "d' = update_jobs (\<lambda>r. j_id r = j_id job) (\<lambda>r. r\<lparr>j_thread := Some own\<rparr>) d1"
        using step by simp_all
      with c placed [OF e] show ?thesis by blast
    qed
  qed
qed

lemma place_claim_tables:
  assumes "place_claim env job detach d = Inr (job', d')"
  shows "stretches d' = stretches d \<and> outbox d' = outbox d \<and> caps d' = caps d \<and> creds d' = creds d
    \<and> now_us d' = now_us d \<and> next_job d' = next_job d \<and> events d' = events d
    \<and> closes d' = closes d \<and> views d' = views d \<and> next_stretch d' = next_stretch d
    \<and> next_outbox d' = next_outbox d"
  using assms by (cases rule: place_claim_cases) (simp_all add: ensure_thread_tables)

lemma threads_ok_cong:
  "threads d' = threads d \<Longrightarrow> next_thread d' = next_thread d \<Longrightarrow> threads_ok d' = threads_ok d"
  by (simp only: threads_ok_def)

lemma threads_ok_update_jobs [simp]: "threads_ok (update_jobs p f d) = threads_ok d"
  by (rule threads_ok_cong) simp_all

lemma place_claim_threads_ok:
  assumes "threads_ok d" and "place_claim env job detach d = Inr (job', d')"
  shows "threads_ok d'"
  using assms(2) assms(1) by (cases rule: place_claim_cases) (simp_all add: ensure_thread_ok)

text \<open>
  Placing changes at most the thread and the session of the claimed row, and leaves the row
  and the job that was read from it on the same thread.
\<close>

lemma place_claim_jobs:
  assumes step: "place_claim env job detach d = Inr (job', d')"
  shows "\<exists>f. jobs d' = update_where (\<lambda>r. j_id r = j_id job) f (jobs d)
     \<and> (\<forall>r. f r = r\<lparr>j_thread := j_thread (f r), j_session := j_session (f r)\<rparr>)
     \<and> (\<forall>r. j_thread r = j_thread job \<longrightarrow> j_thread (f r) = j_thread job')
     \<and> (\<forall>r. j_session r = j_session job \<longrightarrow> j_session (f r) = j_session job')"
  using step
proof (cases rule: place_claim_cases)
  case kept
  then show ?thesis by (intro exI [where x = "\<lambda>r. r"]) simp
next
  case (same own ref)
  with ensure_thread_tables(1) [OF same(1)] show ?thesis
    by (intro exI [where x = "\<lambda>r. r"]) simp
next
  case (moved own ref d1)
  with ensure_thread_tables(1) [OF moved(1)] show ?thesis
    by (intro exI [where x = "\<lambda>r. r\<lparr>j_thread := Some own, j_session := None\<rparr>"]) simp
next
  case (placed own ref d1)
  with ensure_thread_tables(1) [OF placed(1)] show ?thesis
    by (intro exI [where x = "\<lambda>r. r\<lparr>j_thread := Some own\<rparr>"]) simp
qed

text \<open>The job that is placed stays the job it was, on a thread.\<close>

lemma place_claim_job:
  assumes "place_claim env job detach d = Inr (job', d')"
  shows "job' = job\<lparr>j_session := j_session job', j_detached := j_detached job', j_thread := j_thread job'\<rparr>
     \<and> j_thread job' \<noteq> None \<and> (j_session job' = j_session job \<or> j_session job' = None)"
  using assms by (cases rule: place_claim_cases) auto

end
