(* ===== verification/Publisher.thy ===== *)
theory Publisher
  imports Threads
begin

text \<open>
  \<open>publisher.py\<close> and \<open>publish_service.py\<close>: how a job row is born. \<open>insert_job\<close> is the one INSERT;
  \<open>publish\<close> and \<open>publish_job\<close> are its two entry points. An \<open>IntegrityError\<close> is a foreign key
  that names no row, or an idempotency key that is taken.
\<close>

section \<open>Inserting\<close>

text \<open>The keyword arguments of the two entry points.\<close>

record publication =
  p_type :: job_type
  p_source :: string
  p_view :: "nat option"
  p_priority :: nat
  p_ref :: "string option"
  p_key :: string
  p_max :: nat
  p_requester :: "job_requester option"
  p_prompt :: "string option"
  p_context :: "string option"
  p_harness :: "string option"
  p_model :: "string option"
  p_thread :: "string option"
  p_thread_id :: "nat option"
  p_parent :: "nat option"
  p_depth :: nat
  p_line :: "nat option"
  p_test :: "pyval option"

datatype publish_error = ThreadErr thread_error | IntegrityError | OutboxErr outbox_error

definition existing_job_id :: "string \<Rightarrow> db \<Rightarrow> nat option" where
  "existing_job_id key d = map_option j_id (find (\<lambda>r. j_key r = key) (jobs d))"

definition known :: "nat option \<Rightarrow> nat list \<Rightarrow> bool" where
  "known i ids \<longleftrightarrow> (case i of None \<Rightarrow> True | Some n \<Rightarrow> n \<in> set ids)"

text \<open>The row the INSERT writes; the columns it does not name take their defaults.\<close>

definition new_job_row :: "publication \<Rightarrow> nat option \<Rightarrow> db \<Rightarrow> job_row" where
  "new_job_row p th d =
     \<lparr>j_id = next_job d, j_schedule_id = None, j_type = type_value (p_type p),
      j_source = p_source p, j_view = p_view p, j_priority = p_priority p, j_ref = p_ref p,
      j_agent_type = p_harness p, j_provider = None, j_model = p_model p,
      j_input_tokens = None, j_output_tokens = None, j_prompt = p_prompt p, j_output = None,
      j_context = p_context p, j_key = p_key p, j_status = TODO, j_attempt = 0, j_max = p_max p,
      j_sched = now_s d, j_started = None, j_finished = None, j_summary = None,
      j_error_msg = None, j_error_class = None, j_pid = None, j_runner = None, j_session = None,
      j_created = now_s d, j_updated = now_s d,
      j_rq_key = map_option rq_key (p_requester p),
      j_rq_email = Option.bind (p_requester p) rq_email,
      j_rq_trust = (case p_requester p of Some q \<Rightarrow> trust_value (rq_trust q) | None \<Rightarrow> ''claimed''),
      j_rq_meta = Option.bind (p_requester p) rq_meta,
      j_parent = p_parent p, j_depth = p_depth p, j_test = p_test p, j_thread = th,
      j_resume = None, j_line = p_line p\<rparr>"

text \<open>The thread, when it is known before the job has an id.\<close>

definition thread_of_new :: "env \<Rightarrow> publication \<Rightarrow> db \<Rightarrow> thread_error + (nat option \<times> db)" where
  "thread_of_new env p d =
     (case p_thread_id p of
        Some i \<Rightarrow> (case join_thread i (p_view p) (p_depth p) d of
                    Some e \<Rightarrow> Inl e | None \<Rightarrow> Inr (Some i, d))
      | None \<Rightarrow>
          if p_thread p \<noteq> None \<or> truthy (p_ref p)
          then case ensure_thread env (p_view p)
                      (case p_thread p of Some t \<Rightarrow> t
                       | None \<Rightarrow> default_ref (p_source p) (p_ref p) 0) d of
                 Inl e \<Rightarrow> Inl e | Inr (i, d') \<Rightarrow> Inr (Some i, d')
          else Inr (None, d))"

definition insert_job :: "env \<Rightarrow> publication \<Rightarrow> db \<Rightarrow> publish_error + (nat \<times> db)" where
  "insert_job env p d =
     (case thread_of_new env p d of
        Inl e \<Rightarrow> Inl (ThreadErr e)
      | Inr (th, d1) \<Rightarrow>
          if \<not> known (p_view p) (map fst (views d)) \<or> \<not> known (p_parent p) (map j_id (jobs d))
             \<or> existing_job_id (p_key p) d \<noteq> None
          then Inl IntegrityError
          else let job_id = next_job d1;
                   d2 = d1\<lparr>jobs := jobs d1 @ [new_job_row p th d1], next_job := job_id + 1\<rparr>
               in if th \<noteq> None then Inr (job_id, d2)
                  else case ensure_thread env (p_view p)
                              (default_ref (p_source p) (p_ref p) job_id) d2 of
                         Inl e \<Rightarrow> Inl (ThreadErr e)
                       | Inr (i, d3) \<Rightarrow>
                           Inr (job_id, update_jobs (\<lambda>r. j_id r = job_id)
                             (\<lambda>r. r\<lparr>j_thread := Some i\<rparr>) d3))"

section \<open>The entry points\<close>

definition publish_event :: "publication \<Rightarrow> nat option \<Rightarrow> event" where
  "publish_event p job_id =
     JobPublishAfter (type_value (p_type p)) (p_source p) (p_ref p) (p_key p) (p_view p)
       (p_priority p) job_id"

text \<open>The \<open>skip_if_active\<close> query; \<open>agent_view_id <=>\<close> is equality that takes NULL as a value.\<close>

definition active_twin :: "publication \<Rightarrow> db \<Rightarrow> bool" where
  "active_twin p d \<longleftrightarrow> (\<exists>r \<in> set (jobs d). j_type r = type_value (p_type p)
     \<and> j_source r = p_source p \<and> j_view r = p_view p \<and> sql_eq (j_ref r) (p_ref p)
     \<and> j_status r \<in> set OPEN_STATUSES)"

text \<open>The entry point passes no prompt, context and test configuration on.\<close>

definition publish :: "env \<Rightarrow> bool \<Rightarrow> publication \<Rightarrow> db \<Rightarrow> publish_error + (bool \<times> db)" where
  "publish env skip_if_active p d =
     (if skip_if_active \<and> p_ref p \<noteq> None \<and> active_twin p d then Inr (False, d)
      else if existing_job_id (p_key p) d \<noteq> None then Inr (False, d)
      else case insert_job env (p\<lparr>p_prompt := None, p_context := None, p_test := None\<rparr>) d of
             Inl IntegrityError \<Rightarrow> Inr (False, d)
           | Inl e \<Rightarrow> Inl e
           | Inr (_, d') \<Rightarrow> Inr (True, dispatch (publish_event p None) d'))"

definition queued_payload :: "publication \<Rightarrow> pyval" where
  "queued_payload p =
     PyDict [(PyStr ''type'', PyStr (type_value (p_type p))), (PyStr ''source'', PyStr (p_source p)),
       (PyStr ''agent_view_id'', case p_view p of None \<Rightarrow> PyNone | Some v \<Rightarrow> PyInt (int v)),
       (PyStr ''priority'', PyInt (int (p_priority p)))]"

text \<open>The entry point passes no harness and no model on.\<close>

definition publish_job :: "env \<Rightarrow> publication \<Rightarrow> db \<Rightarrow> publish_error + (nat \<times> db)" where
  "publish_job env p d =
     (case existing_job_id (p_key p) d of
        Some i \<Rightarrow> Inr (i, d)
      | None \<Rightarrow>
          (case insert_job env (p\<lparr>p_harness := None, p_model := None\<rparr>) d of
             Inl IntegrityError \<Rightarrow>
               (case existing_job_id (p_key p) d of Some i \<Rightarrow> Inr (i, d) | None \<Rightarrow> Inl IntegrityError)
           | Inl e \<Rightarrow> Inl e
           | Inr (job_id, d') \<Rightarrow>
               (case write_outbox job_id ''job.queued'' (queued_payload p) None d' of
                  Inl e \<Rightarrow> Inl (OutboxErr e)
                | Inr (_, d'') \<Rightarrow> Inr (job_id, dispatch (publish_event p (Some job_id)) d''))))"

section \<open>Facts\<close>

text \<open>The idempotency key is unique, and every row is on a thread.\<close>

definition keys_ok :: "db \<Rightarrow> bool" where
  "keys_ok d \<longleftrightarrow> distinct (map j_key (jobs d))"

lemma existing_job_None: "existing_job_id k d = None \<longleftrightarrow> k \<notin> j_key ` set (jobs d)"
  by (auto simp: existing_job_id_def find_None_filter filter_empty_conv)

lemma existing_job_Some:
  "keys_ok d \<Longrightarrow> r \<in> set (jobs d) \<Longrightarrow> existing_job_id (j_key r) d = Some (j_id r)"
  using find_unique [of j_key "jobs d" r] by (simp add: existing_job_id_def keys_ok_def)

lemma new_job_row_fields [simp]:
  "j_id (new_job_row p th d) = next_job d" "j_key (new_job_row p th d) = p_key p"
  "j_status (new_job_row p th d) = TODO" "j_attempt (new_job_row p th d) = 0"
  "j_thread (new_job_row p th d) = th" "j_view (new_job_row p th d) = p_view p"
  "j_depth (new_job_row p th d) = p_depth p" "j_line (new_job_row p th d) = p_line p"
  "j_session (new_job_row p th d) = None" "j_started (new_job_row p th d) = None"
  "j_pid (new_job_row p th d) = None" "j_runner (new_job_row p th d) = None"
  "j_max (new_job_row p th d) = p_max p" "j_finished (new_job_row p th d) = None"
  "j_type (new_job_row p th d) = type_value (p_type p)"
  "j_sched (new_job_row p th d) = now_s d"
  by (simp_all add: new_job_row_def)

lemma thread_of_new_tables:
  assumes "thread_of_new env p d = Inr (th, d1)"
  shows "jobs d1 = jobs d \<and> next_job d1 = next_job d \<and> stretches d1 = stretches d \<and> caps d1 = caps d
    \<and> creds d1 = creds d \<and> now_us d1 = now_us d \<and> outbox d1 = outbox d \<and> views d1 = views d
    \<and> events d1 = events d \<and> closes d1 = closes d \<and> next_stretch d1 = next_stretch d"
  using assms
  by (auto simp: thread_of_new_def ensure_thread_tables split: option.splits if_splits sum.splits)

lemma thread_of_new_ok:
  assumes "threads_ok d" and "thread_of_new env p d = Inr (th, d1)"
  shows "threads_ok d1"
  using assms(2) assms(1)
  by (auto simp: thread_of_new_def split: option.splits if_splits sum.splits
      intro: ensure_thread_ok [of d])

text \<open>What an insert does: one new row at the end, on a thread, and nothing else changed.\<close>

lemma insert_jobD:
  assumes ids: "ids_ok d" and step: "insert_job env p d = Inr (i, d')"
  shows "\<exists>th. jobs d' = jobs d @ [new_job_row p (Some th) d] \<and> i = next_job d
    \<and> next_job d' = next_job d + 1 \<and> p_key p \<notin> j_key ` set (jobs d)
    \<and> stretches d' = stretches d \<and> caps d' = caps d \<and> creds d' = creds d \<and> now_us d' = now_us d
    \<and> outbox d' = outbox d \<and> views d' = views d \<and> events d' = events d \<and> closes d' = closes d
    \<and> next_stretch d' = next_stretch d"
proof -
  obtain th d1 where t: "thread_of_new env p d = Inr (th, d1)"
    using step unfolding insert_job_def by (cases "thread_of_new env p d") auto
  note t1 = thread_of_new_tables [OF t]
  let ?d2 = "d1\<lparr>jobs := jobs d1 @ [new_job_row p th d1], next_job := next_job d1 + 1\<rparr>"
  have same: "new_job_row p q d1 = new_job_row p q d" for q
    using t1 by (simp add: new_job_row_def)
  have free: "p_key p \<notin> j_key ` set (jobs d)"
    using step unfolding insert_job_def t existing_job_None [symmetric] by (auto split: if_splits)
  have old: "update_where (\<lambda>r. j_id r = next_job d) f (jobs d) = jobs d" for f
    by (rule update_where_none) (metis ids ids_ok_lt less_irrefl)
  show ?thesis
  proof (cases th)
    case (Some q)
    have "(i, d') = (next_job d1, ?d2)"
      using step unfolding insert_job_def t Some Let_def by (auto split: if_splits)
    then show ?thesis using t1 free same Some by (intro exI [where x = q]) simp
  next
    case None
    obtain q d3 where e: "ensure_thread env (p_view p)
          (default_ref (p_source p) (p_ref p) (next_job d1)) ?d2 = Inr (q, d3)"
      and "(i, d') = (next_job d1, update_jobs (\<lambda>r. j_id r = next_job d1)
              (\<lambda>r. r\<lparr>j_thread := Some q\<rparr>) d3)"
      using step unfolding insert_job_def t None Let_def
      by (auto split: if_splits sum.splits)
    then have i: "i = next_job d1"
      and d': "d' = update_jobs (\<lambda>r. j_id r = next_job d1) (\<lambda>r. r\<lparr>j_thread := Some q\<rparr>) d3"
      by simp_all
    note e1 = ensure_thread_tables [OF e]
    have row: "(new_job_row p None d)\<lparr>j_thread := Some q\<rparr> = new_job_row p (Some q) d"
      by (simp add: new_job_row_def)
    have "jobs d' = jobs d @ [new_job_row p (Some q) d]"
      using e1(1) t1 same row old None
      by (simp add: d' update_where_append update_where_Cons)
    then show ?thesis using t1 free i e1 by (intro exI [where x = q]) (simp add: d')
  qed
qed

lemma insert_job_ids_ok:
  assumes ids: "ids_ok d" and step: "insert_job env p d = Inr (i, d')"
  shows "ids_ok d'"
proof -
  obtain th where "jobs d' = jobs d @ [new_job_row p (Some th) d]" "next_job d' = next_job d + 1"
    using insert_jobD [OF ids step] by blast
  then show ?thesis using ids_ok_append [OF ids] new_job_row_fields(1) by blast
qed

lemma insert_job_keys_ok:
  "ids_ok d \<Longrightarrow> keys_ok d \<Longrightarrow> insert_job env p d = Inr (i, d') \<Longrightarrow> keys_ok d'"
  by (drule (1) insert_jobD) (auto simp: keys_ok_def)

lemma insert_job_threads_ok:
  assumes ok: "threads_ok d" and step: "insert_job env p d = Inr (i, d')"
  shows "threads_ok d'"
proof -
  obtain th d1 where t: "thread_of_new env p d = Inr (th, d1)"
    using step by (auto simp: insert_job_def split: sum.splits)
  have d1: "threads_ok d1" using ok t by (rule thread_of_new_ok)
  have d2: "threads_ok (d1\<lparr>jobs := js, next_job := n\<rparr>)" for js n
    using d1 by (subst threads_ok_cong) simp_all
  show ?thesis
  proof (cases "th = None")
    case True
    with step t obtain q d3 where "ensure_thread env (p_view p)
          (default_ref (p_source p) (p_ref p) (next_job d1))
          (d1\<lparr>jobs := jobs d1 @ [new_job_row p None d1], next_job := next_job d1 + 1\<rparr>) = Inr (q, d3)"
      and d': "d' = update_jobs (\<lambda>r. j_id r = next_job d1) (\<lambda>r. r\<lparr>j_thread := Some q\<rparr>) d3"
      by (auto simp: insert_job_def Let_def split: if_splits sum.splits)
    then have "threads_ok d3" using d2 ensure_thread_ok by blast
    then show ?thesis by (simp add: d')
  next
    case False
    with step t have "d' = d1\<lparr>jobs := jobs d1 @ [new_job_row p th d1], next_job := next_job d1 + 1\<rparr>"
      by (auto simp: insert_job_def Let_def split: if_splits)
    then show ?thesis using d2 by simp
  qed
qed

text \<open>What both entry points do to the queue: nothing, or one insert.\<close>

lemma publish_cases:
  assumes "publish env skip p d = Inr (b, d')"
  obtains (skipped) "\<not> b" "d' = d"
  | (inserted) p' i d1 where "b" "insert_job env p' d = Inr (i, d1)" "p_key p' = p_key p"
      "d' = dispatch (publish_event p None) d1"
  using assms
  by (auto simp: publish_def split: if_splits sum.splits publish_error.splits)

lemma publish_job_cases:
  assumes "publish_job env p d = Inr (i, d')"
  obtains (old) "existing_job_id (p_key p) d = Some i" "d' = d"
  | (new) p' d1 d2 r where "existing_job_id (p_key p) d = None"
      "insert_job env p' d = Inr (i, d1)" "p' = p\<lparr>p_harness := None, p_model := None\<rparr>"
      "write_outbox i ''job.queued'' (queued_payload p) None d1 = Inr (r, d2)"
      "d' = dispatch (publish_event p (Some i)) d2"
  using assms
  by (auto simp: publish_job_def split: option.splits sum.splits publish_error.splits)

text \<open>After \<open>publish_job\<close> the key names the job it returned, and no other.\<close>

lemma publish_job_key:
  assumes ids: "ids_ok d" and keys: "keys_ok d" and step: "publish_job env p d = Inr (i, d')"
  shows "existing_job_id (p_key p) d' = Some i"
  using step
proof (cases rule: publish_job_cases)
  case (new p' d1 d2 r)
  obtain th where i: "jobs d1 = jobs d @ [new_job_row p' (Some th) d]" "i = next_job d"
    using insert_jobD [OF ids new(2)] by blast
  have "keys_ok d1" by (rule insert_job_keys_ok [OF ids keys new(2)])
  moreover have "jobs d' = jobs d1" using new(5) write_outboxD(1) [OF new(4)] by simp
  ultimately have "keys_ok d'" "new_job_row p' (Some th) d \<in> set (jobs d')"
    by (simp_all add: keys_ok_def i(1))
  from existing_job_Some [OF this] show ?thesis using new(3) i(2) by simp
qed simp

lemma one_with_key:
  assumes "keys_ok d" and "existing_job_id k d = Some i"
  shows "length (filter (\<lambda>r. j_key r = k) (jobs d)) = 1"
proof -
  obtain r where r: "r \<in> set (jobs d)" "j_key r = k"
    using assms(2) find_SomeD by (fastforce simp: existing_job_id_def)
  have inj: "distinct (jobs d)" "inj_on j_key (set (jobs d))"
    using assms(1) by (simp_all add: keys_ok_def distinct_map)
  have "{q. j_key q = k} \<inter> set (jobs d) = {r}" using r inj(2) by (auto dest: inj_onD)
  then show ?thesis using distinct_length_filter [OF inj(1)] by simp
qed

end
