(* ===== verification/Consumer_Claim.thy ===== *)
theory Consumer_Claim
  imports Publisher
begin

text \<open>
  \<open>consumer.py\<close>, the claim: one transaction picks the first due job, lets the observers of
  \<open>job_claim_before\<close> and the line rules decide, and either defers the job or makes it RUNNING.
  The observers' answer is an argument. An exception rolls the transaction back.
\<close>

section \<open>Picking\<close>

text \<open>\<open>ORDER BY priority DESC, created_at ASC\<close>.\<close>

definition dequeued_before :: "job_row \<Rightarrow> job_row \<Rightarrow> bool" where
  "dequeued_before r q \<longleftrightarrow> (- int (j_priority r), j_created r) < (- int (j_priority q), j_created q)"

interpretation dequeue_order: row_order dequeued_before
  unfolding dequeued_before_def by (rule key_row_order)

definition dequeuable :: "type_registry \<Rightarrow> db \<Rightarrow> job_row \<Rightarrow> bool" where
  "dequeuable reg d r \<longleftrightarrow> j_status r = TODO \<and> j_sched r \<le> now_s d
     \<and> j_type r \<in> set (registered_job_types reg)"

definition dequeue_row :: "type_registry \<Rightarrow> nat option \<Rightarrow> db \<Rightarrow> job_row option" where
  "dequeue_row reg only d =
     (case only of
        None \<Rightarrow> best dequeued_before (filter (dequeuable reg d) (jobs d))
      | Some i \<Rightarrow> find (\<lambda>r. j_id r = i \<and> j_status r = TODO) (jobs d))"

section \<open>Deciding\<close>

text \<open>
  What the observers left in \<open>JobClaimBeforeEvent\<close>; \<open>ca_completed\<close> is the result of
  \<open>dispatch_with_result\<close>.
\<close>

record claim_answer =
  ca_completed :: bool
  ca_defer :: bool
  ca_delay :: pyval
  ca_detach :: bool
  ca_fresh :: bool

definition claim_defers :: "claim_answer \<Rightarrow> bool" where
  "claim_defers a \<longleftrightarrow> ca_defer a \<or> \<not> ca_completed a"

datatype claim_error = RowErr row_error | ClaimThreadErr thread_error | ClaimOutboxErr outbox_error

datatype claim_result = NoClaim | ClaimDeferred nat | Claimed job

definition defer_job :: "job \<Rightarrow> claim_answer \<Rightarrow> db \<Rightarrow> claim_result \<times> db" where
  "defer_job job a d =
     (let ((_, defer_count), d') = open_or_bump_stretch (j_id job) (\<not> claim_defers a) d;
          delay_ms = (if claim_defers a then ca_delay a
                      else PyInt (int (line_defer_ms defer_count)))
      in (ClaimDeferred (j_id job),
          update_jobs (\<lambda>r. j_id r = j_id job)
            (\<lambda>r. r\<lparr>j_sched := now_s d + nat (defer_seconds delay_ms)\<rparr>) d'))"

definition claimed_payload :: "job \<Rightarrow> pyval" where
  "claimed_payload job =
     PyDict [(PyStr ''job_id'', PyInt (int (j_id job))),
             (PyStr ''attempt'', PyInt (int (j_attempt job + 1)))]"

text \<open>\<open>CLAIM_SQL\<close>.\<close>

definition run_row :: "nat \<Rightarrow> nat option \<Rightarrow> job_row \<Rightarrow> job_row" where
  "run_row now resume r =
     r\<lparr>j_status := RUNNING, j_started := Some now, j_attempt := j_attempt r + 1,
       j_resume := resume\<rparr>"

definition start_job :: "job \<Rightarrow> claim_answer \<Rightarrow> db \<Rightarrow> claim_error + (claim_result \<times> db)" where
  "start_job job a d =
     (let resume = (if ca_fresh a then None else resolve_resume job d);
          d1 = update_jobs (\<lambda>r. j_id r = j_id job \<and> j_status r = TODO) (run_row (now_s d) resume) d
      in case write_outbox (j_id job) ''job.claimed'' (claimed_payload job) None d1 of
           Inl e \<Rightarrow> Inl (ClaimOutboxErr e)
         | Inr (_, d2) \<Rightarrow>
             (case close_stretch (j_id job) ''claimed'' d2 of
                Inl e \<Rightarrow> Inl (ClaimOutboxErr e)
              | Inr (defer_after, d3) \<Rightarrow>
                  Inr (Claimed (job\<lparr>j_fresh := ca_fresh a, j_resume := resume, j_status := RUNNING,
                                    j_attempt := j_attempt job + 1\<rparr>),
                       dispatch_all
                         ((case defer_after of None \<Rightarrow> [] | Some e \<Rightarrow> [e])
                          @ [JobClaimAfter (j_id job) (j_attempt job + 1)]) d3)))"

definition claim_tx ::
    "type_registry \<Rightarrow> env \<Rightarrow> (nat \<Rightarrow> claim_answer) \<Rightarrow> job_row \<Rightarrow> db
      \<Rightarrow> claim_error + (claim_result \<times> db)" where
  "claim_tx reg env answer row d =
     (case job_from_row reg row of
        Inl e \<Rightarrow> Inl (RowErr e)
      | Inr job0 \<Rightarrow>
          (let a = answer (j_id job0) in
           case place_claim env job0 (ca_detach a) d of
             Inl e \<Rightarrow> Inl (ClaimThreadErr e)
           | Inr (job1, d1) \<Rightarrow>
               (let job = job1\<lparr>j_thread_key := lock_thread (j_thread job1) d1\<rparr> in
                if claim_defers a \<or> line_blocked job d1 then Inr (defer_job job a d1)
                else start_job job a d1)))"

definition try_dequeue ::
    "type_registry \<Rightarrow> env \<Rightarrow> (nat \<Rightarrow> claim_answer) \<Rightarrow> nat option \<Rightarrow> db \<Rightarrow> claim_result \<times> db" where
  "try_dequeue reg env answer only d =
     (case dequeue_row reg only d of
        None \<Rightarrow> (NoClaim, d)
      | Some row \<Rightarrow>
          (case claim_tx reg env answer row d of
             Inl e \<Rightarrow> (NoClaim, d)
           | Inr result \<Rightarrow> result))"

section \<open>The run's session\<close>

definition should_resume :: "nat \<Rightarrow> string option \<Rightarrow> bool \<Rightarrow> bool \<Rightarrow> bool \<Rightarrow> bool" where
  "should_resume attempt session_id pid_alive can_resume session_present \<longleftrightarrow>
     1 < attempt \<and> session_id \<noteq> None \<and> \<not> pid_alive \<and> can_resume \<and> session_present"

text \<open>\<open>seam\<close> is the deprecated \<open>resume_session_resolver\<close>, \<open>None\<close> when none is registered.\<close>

definition resume_session ::
    "(nat \<Rightarrow> nat \<Rightarrow> string option) option \<Rightarrow> job \<Rightarrow> string option \<Rightarrow> db \<Rightarrow> string option" where
  "resume_session seam job harness d =
     (case j_resume job of
        None \<Rightarrow>
          if j_detached job \<or> j_fresh job then None
          else (case seam of None \<Rightarrow> None | Some f \<Rightarrow> f (j_id job) (j_attempt job))
      | Some target \<Rightarrow>
          if 1 < j_attempt job \<and> j_session job \<noteq> None then None
          else (case find_job d target of
                  None \<Rightarrow> None
                | Some row \<Rightarrow> if j_agent_type row \<noteq> harness then None else j_session row))"

section \<open>Small writes of a run\<close>

definition save_pid :: "nat \<Rightarrow> nat \<Rightarrow> string option \<Rightarrow> db \<Rightarrow> db" where
  "save_pid job_id pid runner_ref d =
     update_jobs (\<lambda>r. j_id r = job_id) (\<lambda>r. r\<lparr>j_pid := Some pid, j_runner := runner_ref\<rparr>) d"

definition save_session_id :: "nat \<Rightarrow> string \<Rightarrow> db \<Rightarrow> db" where
  "save_session_id job_id session_id d =
     update_jobs (\<lambda>r. j_id r = job_id) (\<lambda>r. r\<lparr>j_session := Some session_id\<rparr>) d"

definition update_job_reference_id :: "nat \<Rightarrow> string \<Rightarrow> db \<Rightarrow> db" where
  "update_job_reference_id job_id reference_id d =
     update_jobs (\<lambda>r. j_id r = job_id) (\<lambda>r. r\<lparr>j_ref := Some reference_id\<rparr>) d"

definition still_running :: "nat \<Rightarrow> db \<Rightarrow> bool" where
  "still_running job_id d \<longleftrightarrow> map_option j_status (find_job d job_id) = Some RUNNING"

section \<open>Facts\<close>

lemma dequeue_row_in:
  assumes "dequeue_row reg only d = Some r"
  shows "r \<in> set (jobs d) \<and> j_status r = TODO"
  using assms
  by (auto simp: dequeue_row_def dequeuable_def split: option.splits dest: best_filterD find_SomeD)

lemma claimed_payload_plain: "check_plain (claimed_payload job)"
  by (simp add: claimed_payload_def) code_simp

lemma update_where_twice:
  "(\<And>r. p (f r) = p r) \<Longrightarrow> update_where p g (update_where p f rs) = update_where p (\<lambda>r. g (f r)) rs"
  by (simp add: update_where_def)

lemma update_where_guarded:
  "(\<And>r. p (f r) = p r) \<Longrightarrow>
    update_where (\<lambda>r. p r \<and> q r) g (update_where p f rs)
      = update_where p (\<lambda>r. if q (f r) then g (f r) else f r) rs"
  by (simp add: update_where_def)

lemma start_job_result:
  assumes "start_job job a d = Inr (res, d')"
  shows "res = Claimed (job\<lparr>j_fresh := ca_fresh a,
             j_resume := (if ca_fresh a then None else resolve_resume job d), j_status := RUNNING,
             j_attempt := j_attempt job + 1\<rparr>)
    \<and> jobs d' = update_where (\<lambda>r. j_id r = j_id job \<and> j_status r = TODO)
        (run_row (now_s d) (if ca_fresh a then None else resolve_resume job d)) (jobs d)
    \<and> threads d' = threads d \<and> caps d' = caps d \<and> creds d' = creds d \<and> now_us d' = now_us d
    \<and> next_job d' = next_job d \<and> closes d' = closes d \<and> views d' = views d
    \<and> next_thread d' = next_thread d"
proof -
  let ?d1 = "update_jobs (\<lambda>r. j_id r = j_id job \<and> j_status r = TODO)
    (run_row (now_s d) (if ca_fresh a then None else resolve_resume job d)) d"
  obtain i d2 where w: "write_outbox (j_id job) ''job.claimed'' (claimed_payload job) None ?d1 = Inr (i, d2)"
    using assms unfolding start_job_def Let_def
    by (cases "write_outbox (j_id job) ''job.claimed'' (claimed_payload job) None ?d1") auto
  obtain e d3 where c: "close_stretch (j_id job) ''claimed'' d2 = Inr (e, d3)"
    using assms unfolding start_job_def Let_def w
    by (cases "close_stretch (j_id job) ''claimed'' d2") auto
  show ?thesis
    using assms write_outboxD [OF w] close_stretchD [OF c]
    unfolding start_job_def Let_def w by (simp add: c) (elim conjE, hypsubst, simp)
qed

text \<open>One \<open>job.claimed\<close> row; a closed stretch adds its \<open>job.deferred\<close> row after it.\<close>

lemma close_stretch_outbox:
  assumes "close_stretch j why d = Inr (e, d')"
  shows "\<exists>rows. outbox d' = outbox d @ rows \<and> (\<forall>o' \<in> set rows. o_kind o' = ''job.deferred'')"
  using assms
  by (auto simp: close_stretch_def Let_def split: option.splits sum.splits if_splits
      dest: write_outboxD)

lemma start_job_outbox:
  assumes "start_job job a d = Inr (res, d')"
  shows "\<exists>rows. filter (\<lambda>o'. o_kind o' = ''job.claimed'') (outbox d')
      = filter (\<lambda>o'. o_kind o' = ''job.claimed'') (outbox d)
        @ [\<lparr>o_id = next_outbox d, o_job = j_id job, o_execution = None, o_kind = ''job.claimed'',
            o_payload = claimed_payload job, o_created = now_s d\<rparr>]
    \<and> outbox d' = outbox d @ rows"
proof -
  let ?d1 = "update_jobs (\<lambda>r. j_id r = j_id job \<and> j_status r = TODO)
    (run_row (now_s d) (if ca_fresh a then None else resolve_resume job d)) d"
  obtain i d2 where w: "write_outbox (j_id job) ''job.claimed'' (claimed_payload job) None ?d1 = Inr (i, d2)"
    using assms unfolding start_job_def Let_def
    by (cases "write_outbox (j_id job) ''job.claimed'' (claimed_payload job) None ?d1") auto
  obtain e d3 where c: "close_stretch (j_id job) ''claimed'' d2 = Inr (e, d3)"
    using assms unfolding start_job_def Let_def w
    by (cases "close_stretch (j_id job) ''claimed'' d2") auto
  have out: "outbox d' = outbox d3"
    using assms unfolding start_job_def Let_def w by (simp add: c) (elim conjE, hypsubst, simp)
  obtain rows where rows: "outbox d3 = outbox d2 @ rows" "\<forall>o' \<in> set rows. o_kind o' = ''job.deferred''"
    using close_stretch_outbox [OF c] by blast
  then have "filter (\<lambda>o'. o_kind o' = ''job.claimed'') rows = []"
    by (auto simp: filter_empty_conv)
  then show ?thesis using write_outboxD(13) [OF w] by (simp add: out rows(1))
qed

text \<open>The claim cannot fail once the job is placed and the line is free.\<close>

lemma start_job_total: "\<exists>r. start_job job a d = Inr r"
proof -
  have k: "KIND_GRAMMAR ''job.claimed''" "KIND_GRAMMAR ''job.deferred''" by code_simp+
  have words: "forbidden_value ''claimed'' = False" by code_simp
  have keys: "forbidden_key ''stretch_seq'' = False" "forbidden_key ''defer_count'' = False"
    "forbidden_key ''reason'' = False" by code_simp+
  let ?d1 = "update_jobs (\<lambda>r. j_id r = j_id job \<and> j_status r = TODO)
    (run_row (now_s d) (if ca_fresh a then None else resolve_resume job d)) d"
  obtain i d2 where w: "write_outbox (j_id job) ''job.claimed'' (claimed_payload job) None ?d1 = Inr (i, d2)"
    using k(1) claimed_payload_plain [of job] by (auto simp: write_outbox_def claimed_payload_def)
  have "\<exists>r. close_stretch (j_id job) ''claimed'' d2 = Inr r"
    using k(2) words keys
    by (auto simp: close_stretch_def Let_def write_outbox_def split: option.splits sum.splits)
  then show ?thesis unfolding start_job_def Let_def w by auto
qed

text \<open>What placing the claimed row leaves of a row.\<close>

definition placed_row :: "(job_row \<Rightarrow> job_row) \<Rightarrow> bool" where
  "placed_row f \<longleftrightarrow> (\<forall>r. f r = r\<lparr>j_thread := j_thread (f r), j_session := j_session (f r)\<rparr>)"

lemma placed_row_fields:
  assumes "placed_row f"
  shows "j_id (f r) = j_id r" "j_status (f r) = j_status r" "j_attempt (f r) = j_attempt r"
    "j_depth (f r) = j_depth r" "j_line (f r) = j_line r" "j_started (f r) = j_started r"
    "j_max (f r) = j_max r" "j_key (f r) = j_key r"
proof -
  have eq: "f r = r\<lparr>j_thread := j_thread (f r), j_session := j_session (f r)\<rparr>"
    using assms unfolding placed_row_def by blast
  show "j_id (f r) = j_id r" "j_status (f r) = j_status r" "j_attempt (f r) = j_attempt r"
    "j_depth (f r) = j_depth r" "j_line (f r) = j_line r" "j_started (f r) = j_started r"
    "j_max (f r) = j_max r" "j_key (f r) = j_key r"
    by (subst eq, simp)+
qed

text \<open>
  The three outcomes of a claim transaction. A deferral moves \<open>scheduled_after\<close> and nothing
  else of the row but its place; a claim makes the row RUNNING, and nothing else of the table.
\<close>

lemma claim_tx_cases:
  assumes ids: "ids_ok d" and row: "row \<in> set (jobs d)" "j_status row = TODO"
    and step: "claim_tx reg env answer row d = Inr (res, d')"
  obtains (deferred) f g where "res = ClaimDeferred (j_id row)" "placed_row f"
      "jobs d' = update_where (\<lambda>r. j_id r = j_id row) (\<lambda>r. (f r)\<lparr>j_sched := g\<rparr>) (jobs d)"
      "now_s d + 1 \<le> g" "g \<le> now_s d + 30" "outbox d' = outbox d" "caps d' = caps d"
      "events d' = events d" "next_job d' = next_job d" "now_us d' = now_us d"
      "creds d' = creds d" "closes d' = closes d" "views d' = views d"
  | (claimed) f job a d1 where "res = Claimed (job\<lparr>j_fresh := ca_fresh a,
             j_resume := (if ca_fresh a then None else resolve_resume job d1), j_status := RUNNING,
             j_attempt := j_attempt job + 1\<rparr>)" "placed_row f" "a = answer (j_id row)"
      "jobs d' = update_where (\<lambda>r. j_id r = j_id row) (\<lambda>r. if j_status r = TODO
         then run_row (now_s d) (if ca_fresh a then None else resolve_resume job d1) (f r)
         else f r) (jobs d)"
      "jobs d1 = update_where (\<lambda>r. j_id r = j_id row) f (jobs d)"
      "\<not> claim_defers a" "\<not> line_blocked job d1" "start_job job a d1 = Inr (res, d')"
      "j_id job = j_id row" "j_thread job = j_thread (f row)" "j_thread job \<noteq> None"
      "j_depth job = j_depth row" "j_line job = j_line row" "j_attempt job = j_attempt row"
      "j_session job = j_session (f row)" "j_started job = j_started row"
      "outbox d1 = outbox d" "caps d' = caps d" "next_job d' = next_job d" "now_us d' = now_us d"
      "creds d' = creds d" "closes d' = closes d" "views d' = views d" "next_outbox d1 = next_outbox d"
      "now_us d1 = now_us d"
proof -
  obtain job0 where j0: "job_from_row reg row = Inr job0"
    using step by (cases "job_from_row reg row") (auto simp: claim_tx_def)
  note read = job_from_row_fields [OF j0]
  define a where "a = answer (j_id row)"
  obtain job1 d1 where p: "place_claim env job0 (ca_detach a) d = Inr (job1, d1)"
    using step j0 read(1) by (cases "place_claim env job0 (ca_detach a) d")
      (auto simp: claim_tx_def Let_def a_def)
  note tabs = place_claim_tables [OF p]
  obtain f where f: "jobs d1 = update_where (\<lambda>r. j_id r = j_id job0) f (jobs d)"
      "placed_row f" "\<forall>r. j_thread r = j_thread job0 \<longrightarrow> j_thread (f r) = j_thread job1"
      "\<forall>r. j_session r = j_session job0 \<longrightarrow> j_session (f r) = j_session job1"
    using place_claim_jobs [OF p] unfolding placed_row_def by blast
  note same = place_claim_job [OF p]
  have placed: "j_id job1 = j_id job0" "j_depth job1 = j_depth job0" "j_line job1 = j_line job0"
      "j_attempt job1 = j_attempt job0" "j_started job1 = j_started job0"
    by (subst conjunct1 [OF same], simp)+
  define job where "job = job1\<lparr>j_thread_key := lock_thread (j_thread job1) d1\<rparr>"
  have fields: "j_id job = j_id row" "j_depth job = j_depth row" "j_line job = j_line row"
      "j_attempt job = j_attempt row" "j_started job = j_started row"
    unfolding job_def using placed read by simp_all
  have thread: "j_thread job = j_thread (f row)" "j_session job = j_session (f row)"
    unfolding job_def using f(3,4) read by simp_all
  have th: "j_thread job \<noteq> None" unfolding job_def using conjunct2 [OF same] by simp
  note ff = placed_row_fields [OF f(2)]
  have jobs1: "jobs d1 = update_where (\<lambda>r. j_id r = j_id row) f (jobs d)"
    using f(1) read(1) by simp
  have run: "(if claim_defers a \<or> line_blocked job d1 then Inr (defer_job job a d1)
              else start_job job a d1) = Inr (res, d')"
    using step p by (auto simp: claim_tx_def j0 Let_def job_def a_def read(1) split: if_splits)
  show ?thesis
  proof (cases "claim_defers a \<or> line_blocked job d1")
    case True
    obtain q c d2 where o2: "open_or_bump_stretch (j_id job) (\<not> claim_defers a) d1 = ((q, c), d2)"
      by (metis surj_pair)
    let ?g = "now_s d1 + nat (defer_seconds (if claim_defers a then ca_delay a
                      else PyInt (int (line_defer_ms c))))"
    have dj: "defer_job job a d1 = (ClaimDeferred (j_id job),
        update_jobs (\<lambda>r. j_id r = j_id job) (\<lambda>r. r\<lparr>j_sched := ?g\<rparr>) d2)"
      by (simp add: defer_job_def o2 Let_def)
    have "defer_job job a d1 = (res, d')" using run True by simp
    then have res: "res = ClaimDeferred (j_id row)"
      and d': "d' = update_jobs (\<lambda>r. j_id r = j_id job) (\<lambda>r. r\<lparr>j_sched := ?g\<rparr>) d2"
      unfolding dj using fields(1) by simp_all
    have "jobs d' = update_where (\<lambda>r. j_id r = j_id row) (\<lambda>r. (f r)\<lparr>j_sched := ?g\<rparr>) (jobs d)"
      unfolding d' using open_or_bump_other_tables [OF o2] jobs1 fields(1) ff(1)
      by (simp add: update_where_twice)
    moreover have "now_s d + 1 \<le> ?g" "?g \<le> now_s d + 30"
      using defer_seconds_bounds [of "if claim_defers a then ca_delay a
                      else PyInt (int (line_defer_ms c))"] tabs by auto
    ultimately show ?thesis
      using res open_or_bump_other_tables [OF o2] tabs f(2) fields(1)
      by (intro deferred [of f ?g]) (simp_all add: d')
  next
    case False
    then have s: "start_job job a d1 = Inr (res, d')" using run by simp
    note r = start_job_result [OF s]
    have "jobs d' = update_where (\<lambda>r. j_id r = j_id row) (\<lambda>r. if j_status r = TODO
         then run_row (now_s d) (if ca_fresh a then None else resolve_resume job d1) (f r)
         else f r) (jobs d)"
      using r tabs jobs1 fields(1) ff(1,2) by (simp add: update_where_guarded)
    then show ?thesis
      using r tabs f(2) jobs1 fields thread th False s
      by (intro claimed [of job a d1 f]) (simp_all add: a_def)
  qed
qed

end
