(* ===== verification/Credential_Store.thy ===== *)
theory Credential_Store
  imports Threads
begin

text \<open>
  \<open>agent_manager/credential_store.py\<close>: the table of credentials. Every function is one
  transaction; a result that is a row count is PyMySQL's, which counts the rows an UPDATE really
  changed. \<open>expires_at\<close> of a payload is parsed as the code does, with ISO-8601 text left to the
  argument \<open>fromiso\<close> (\<open>datetime.fromisoformat\<close>, in epoch seconds).
\<close>

section \<open>Values\<close>

definition CLAIM_LEASE_TTL_SECONDS :: nat where "CLAIM_LEASE_TTL_SECONDS = 120"

definition lease_owner_for_job :: "nat \<Rightarrow> nat \<Rightarrow> string" where
  "lease_owner_for_job job_id attempt = ''job-'' @ str_nat job_id @ ''-attempt-'' @ str_nat attempt"

text \<open>\<open>datetime.fromtimestamp\<close> in UTC: \<open>None\<close> outside the years 1 to 9999.\<close>

definition from_timestamp :: "int \<Rightarrow> int option" where
  "from_timestamp n = (if -62135596800 \<le> n \<and> n \<le> 253402300799 then Some n else None)"

definition superscript :: "char \<Rightarrow> bool" where
  "superscript c \<longleftrightarrow> c = CHR 0xB2 \<or> c = CHR 0xB3 \<or> c = CHR 0xB9"

text \<open>
  A float is rounded to the microsecond, half to even, and the column rounds to the second.
  \<open>str.isdigit\<close> also holds of superscript digits, which \<open>int\<close> refuses.
\<close>

definition round_even :: "rat \<Rightarrow> int" where
  "round_even q = (let f = \<lfloor>q\<rfloor>; r = q - of_int f in
     if r < 1/2 then f else if 1/2 < r then f + 1 else if even f then f else f + 1)"

fun coerce_expires_at :: "(string \<Rightarrow> int option) \<Rightarrow> pyval \<Rightarrow> int option" where
  "coerce_expires_at fromiso (PyInt n) = from_timestamp n"
| "coerce_expires_at fromiso (PyBool b) = from_timestamp (if b then 1 else 0)"
| "coerce_expires_at fromiso (PyFloat q) =
     from_timestamp ((round_even (q * 1000000) + 500000) div 1000000)"
| "coerce_expires_at fromiso (PyStr s) =
     (if s = [] then None
      else if (\<forall>c \<in> set s. is_digit c \<or> superscript c)
      then (if (\<forall>c \<in> set s. is_digit c) then from_timestamp (int (nat_of_str s)) else None)
      else fromiso s)"
| "coerce_expires_at fromiso _ = None"

section \<open>Rows\<close>

definition touch :: "db \<Rightarrow> cred_row \<Rightarrow> cred_row" where
  "touch d k = k\<lparr>k_updated := now_s d\<rparr>"

definition update_creds :: "(cred_row \<Rightarrow> bool) \<Rightarrow> (cred_row \<Rightarrow> cred_row) \<Rightarrow> db \<Rightarrow> db" where
  "update_creds p f d = d\<lparr>creds := update_where p f (creds d)\<rparr>"

text \<open>An UPDATE that does not name \<open>updated_at\<close>: MySQL sets it when the row changes.\<close>

definition auto_touch :: "(cred_row \<Rightarrow> cred_row) \<Rightarrow> db \<Rightarrow> cred_row \<Rightarrow> cred_row" where
  "auto_touch f d k = (if f k = k then k else touch d (f k))"

definition find_cred :: "nat \<Rightarrow> db \<Rightarrow> cred_row option" where
  "find_cred i d = find (\<lambda>k. k_id k = i) (creds d)"

text \<open>The three clauses of a pool query.\<close>

definition usable :: "db \<Rightarrow> cred_row \<Rightarrow> bool" where
  "usable d k \<longleftrightarrow> k_enabled k \<and> k_status k = CredOk
     \<and> (case k_expires k of None \<Rightarrow> True | Some e \<Rightarrow> int (now_s d) < e)"

definition unthrottled :: "db \<Rightarrow> cred_row \<Rightarrow> bool" where
  "unthrottled d k \<longleftrightarrow> (case k_throttled k of None \<Rightarrow> True | Some t \<Rightarrow> t \<le> now_s d)"

definition lease_active :: "db \<Rightarrow> cred_row \<Rightarrow> bool" where
  "lease_active d k \<longleftrightarrow> (case k_leased k of None \<Rightarrow> False | Some u \<Rightarrow> now_s d < u)"

section \<open>Operations\<close>

datatype cred_error = CredentialLeased string "string option" "nat option"

definition registered_row :: "string \<Rightarrow> pyval \<Rightarrow> int option \<Rightarrow> cred_row \<Rightarrow> cred_row" where
  "registered_row type credentials expires k =
     k\<lparr>k_type := type, k_payload := Some credentials, k_enabled := True,
       k_status := CredOk, k_error_msg := None, k_error_source := None,
       k_lease_owner := None, k_leased := None, k_expires := expires\<rparr>"

definition register_credential ::
    "(string \<Rightarrow> int option) \<Rightarrow> string \<Rightarrow> string \<Rightarrow> pyval \<Rightarrow> nat \<Rightarrow> string \<Rightarrow> db
      \<Rightarrow> cred_error + (cred_row \<times> db)" where
  "register_credential fromiso scope label credentials token_limit type d =
     (let expires = coerce_expires_at fromiso (py_get credentials ''expires_at'') in
      case find (\<lambda>k. k_scope k = scope \<and> k_label k = label) (creds d) of
        Some k \<Rightarrow>
          if lease_active d k then Inl (CredentialLeased label (k_lease_owner k) (k_leased k))
          else let f = (\<lambda>r. touch d (registered_row type credentials expires r))
               in Inr (f k, update_creds (\<lambda>r. k_id r = k_id k) f d)
      | None \<Rightarrow>
          (let k = \<lparr>k_id = next_cred d, k_scope = scope, k_type = type, k_label = label,
                 k_payload = Some credentials, k_limit = token_limit, k_enabled = True,
                 k_status = CredOk, k_priority = 0, k_error_msg = None, k_error_source = None,
                 k_expires = expires, k_throttled = None, k_lease_owner = None, k_leased = None,
                 k_used = None, k_updated = now_s d\<rparr>
           in Inr (k, d\<lparr>creds := creds d @ [k], next_cred := next_cred d + 1\<rparr>)))"

definition register_credential_and_dispatch ::
    "(string \<Rightarrow> int option) \<Rightarrow> string \<Rightarrow> string \<Rightarrow> pyval \<Rightarrow> nat \<Rightarrow> string \<Rightarrow> db
      \<Rightarrow> cred_error + (cred_row \<times> db)" where
  "register_credential_and_dispatch fromiso scope label credentials token_limit type d =
     (case register_credential fromiso scope label credentials token_limit type d of
        Inl e \<Rightarrow> Inl e
      | Inr (k, d') \<Rightarrow> Inr (k, dispatch (CredentialRegisterAfter scope (k_id k)) d'))"

definition refreshed_row :: "pyval \<Rightarrow> int option \<Rightarrow> cred_row \<Rightarrow> cred_row" where
  "refreshed_row credentials e k = k\<lparr>k_payload := Some credentials, k_expires := e\<rparr>"

definition update_refreshed_credentials ::
    "(string \<Rightarrow> int option) \<Rightarrow> nat \<Rightarrow> pyval \<Rightarrow> db \<Rightarrow> db" where
  "update_refreshed_credentials fromiso i credentials d =
     update_creds (\<lambda>k. k_id k = i)
       (\<lambda>k. touch d (refreshed_row credentials
              (coerce_expires_at fromiso (py_get credentials ''expires_at'')) k)) d"

text \<open>The shape of the functions that update one row and report whether it changed.\<close>

definition set_cred :: "(cred_row \<Rightarrow> bool) \<Rightarrow> (cred_row \<Rightarrow> cred_row) \<Rightarrow> db \<Rightarrow> bool \<times> db" where
  "set_cred p f d =
     (let g = (\<lambda>k. touch d (f k)) in (0 < changed p g (creds d), update_creds p g d))"

definition disabled_row :: "cred_row \<Rightarrow> cred_row" where
  "disabled_row k = k\<lparr>k_enabled := False\<rparr>"

definition deregister_credential :: "nat \<Rightarrow> db \<Rightarrow> bool \<times> db" where
  "deregister_credential i = set_cred (\<lambda>k. k_id k = i) disabled_row"

definition error_row :: "string option \<Rightarrow> error_source \<Rightarrow> cred_row \<Rightarrow> cred_row" where
  "error_row message source k = k\<lparr>k_status := CredError,
     k_error_msg := Some (take 1000 (case message of None \<Rightarrow> [] | Some m \<Rightarrow> m)),
     k_error_source := Some source\<rparr>"

definition mark_credential_error :: "nat \<Rightarrow> string option \<Rightarrow> error_source \<Rightarrow> db \<Rightarrow> bool \<times> db" where
  "mark_credential_error i message source = set_cred (\<lambda>k. k_id k = i) (error_row message source)"

definition throttled_row :: "nat \<Rightarrow> cred_row \<Rightarrow> cred_row" where
  "throttled_row until k = k\<lparr>k_throttled := Some (stored_ts until)\<rparr>"

definition throttle_credential :: "nat \<Rightarrow> nat \<Rightarrow> db \<Rightarrow> bool \<times> db" where
  "throttle_credential i until = set_cred (\<lambda>k. k_id k = i) (throttled_row until)"

definition cleared_row :: "cred_row \<Rightarrow> cred_row" where
  "cleared_row k =
     k\<lparr>k_status := CredOk, k_error_msg := None, k_error_source := None, k_throttled := None\<rparr>"

definition clear_credential_error :: "nat \<Rightarrow> db \<Rightarrow> bool \<times> db" where
  "clear_credential_error i = set_cred (\<lambda>k. k_id k = i) cleared_row"

definition clear_auto_credential_error :: "nat \<Rightarrow> db \<Rightarrow> bool \<times> db" where
  "clear_auto_credential_error i =
     set_cred (\<lambda>k. k_id k = i \<and> k_error_source k = Some Auto) cleared_row"

definition priority_row :: "int \<Rightarrow> cred_row \<Rightarrow> cred_row" where
  "priority_row p k = k\<lparr>k_priority := p\<rparr>"

definition set_credential_priority :: "nat \<Rightarrow> int \<Rightarrow> db \<Rightarrow> bool \<times> db" where
  "set_credential_priority i p = set_cred (\<lambda>k. k_id k = i) (priority_row p)"

definition list_credentials :: "string option \<Rightarrow> bool \<Rightarrow> db \<Rightarrow> cred_row list" where
  "list_credentials scope enabled_only d =
     filter (\<lambda>k. (case scope of None \<Rightarrow> True | Some s \<Rightarrow> k_scope k = s)
                 \<and> (enabled_only \<longrightarrow> k_enabled k)) (creds d)"

section \<open>Claiming a credential\<close>

record refresh_lease =
  l_owner :: string
  l_ttl :: nat
  l_should :: "cred_row \<Rightarrow> bool"

definition candidate :: "string \<Rightarrow> nat option \<Rightarrow> db \<Rightarrow> cred_row \<Rightarrow> bool" where
  "candidate scope cid d k \<longleftrightarrow> k_scope k = scope \<and> usable d k \<and> unthrottled d k
     \<and> \<not> lease_active d k \<and> (case cid of None \<Rightarrow> True | Some i \<Rightarrow> k_id k = i)"

text \<open>\<open>ORDER BY priority ASC, used_at IS NULL DESC, used_at ASC, id ASC\<close>.\<close>

definition pool_before :: "cred_row \<Rightarrow> cred_row \<Rightarrow> bool" where
  "pool_before k q \<longleftrightarrow> (k_priority k, k_used k, k_id k) < (k_priority q, k_used q, k_id q)"

interpretation pool_order: row_order pool_before
  unfolding pool_before_def by (rule key_row_order)

definition lease_taken :: "refresh_lease option \<Rightarrow> cred_row \<Rightarrow> (string \<times> nat) option" where
  "lease_taken lease k =
     (case lease of Some l \<Rightarrow> if l_should l k then Some (l_owner l, l_ttl l) else None
      | None \<Rightarrow> None)"

definition claimed_row :: "(string \<times> nat) option \<Rightarrow> db \<Rightarrow> cred_row \<Rightarrow> cred_row" where
  "claimed_row taken d k =
     (case taken of
        Some (owner, ttl) \<Rightarrow> k\<lparr>k_used := Some (now_us d), k_lease_owner := Some owner,
                               k_leased := Some (now_s d + ttl)\<rparr>
      | None \<Rightarrow> k\<lparr>k_used := Some (now_us d), k_lease_owner := None, k_leased := None\<rparr>)"

definition select_credential ::
    "string \<Rightarrow> refresh_lease option \<Rightarrow> nat option \<Rightarrow> db \<Rightarrow> cred_row option \<times> db" where
  "select_credential scope lease cid d =
     (case best pool_before (filter (candidate scope cid d) (creds d)) of
        None \<Rightarrow> (None, d)
      | Some k \<Rightarrow>
          (let f = auto_touch (claimed_row (lease_taken lease k) d) d
           in (Some (f k), update_creds (\<lambda>r. k_id r = k_id k) f d)))"

text \<open>A release that freed a lease also wakes the jobs that wait for a busy pool.\<close>

definition waits_for_busy_pool :: "db \<Rightarrow> job_row \<Rightarrow> bool" where
  "waits_for_busy_pool d r \<longleftrightarrow> j_status r = TODO
     \<and> j_error_class r = Some ''CredentialsBusyError'' \<and> now_s d < j_sched r"

definition unleased_row :: "cred_row \<Rightarrow> cred_row" where
  "unleased_row k = k\<lparr>k_lease_owner := None, k_leased := None\<rparr>"

definition release_credential_lease :: "nat \<Rightarrow> string \<Rightarrow> db \<Rightarrow> bool \<times> db" where
  "release_credential_lease i owner d =
     (let (released, d') =
            set_cred (\<lambda>k. k_id k = i \<and> k_lease_owner k = Some owner) unleased_row d
      in (released,
          if released
          then update_jobs (waits_for_busy_pool d) (\<lambda>r. r\<lparr>j_sched := now_s d\<rparr>) d'
          else d'))"

definition claim_credential_lease :: "nat \<Rightarrow> string \<Rightarrow> nat \<Rightarrow> db \<Rightarrow> bool \<times> db" where
  "claim_credential_lease i owner ttl d =
     (let p = (\<lambda>k. k_id k = i \<and> k_enabled k \<and> k_status k = CredOk \<and> \<not> lease_active d k);
          f = (\<lambda>k. k\<lparr>k_lease_owner := Some owner, k_leased := Some (now_s d + ttl)\<rparr>)
      in (0 < changed p f (creds d), update_creds p (auto_touch f d) d))"

definition renew_credential_leases :: "string list \<Rightarrow> nat \<Rightarrow> db \<Rightarrow> nat \<times> db" where
  "renew_credential_leases owners ttl d =
     (if owners = [] then (0, d)
      else let p = (\<lambda>k. case k_lease_owner k of None \<Rightarrow> False | Some w \<Rightarrow> w \<in> set owners);
               f = (\<lambda>k. k\<lparr>k_leased := Some (now_s d + ttl)\<rparr>)
           in (changed p f (creds d), update_creds p (auto_touch f d) d))"

section \<open>Reading the pool\<close>

definition count_credentials_for_scope :: "string \<Rightarrow> db \<Rightarrow> nat \<times> nat" where
  "count_credentials_for_scope scope d =
     (length (filter (\<lambda>k. k_scope k = scope \<and> k_enabled k) (creds d)),
      length (filter (\<lambda>k. k_scope k = scope \<and> usable d k \<and> unthrottled d k) (creds d)))"

fun min_opt :: "nat list \<Rightarrow> nat option" where
  "min_opt [] = None"
| "min_opt (x # xs) = Some (fold min xs x)"

definition earliest_throttle_reset_for_scope :: "string \<Rightarrow> db \<Rightarrow> nat option" where
  "earliest_throttle_reset_for_scope scope d =
     min_opt (map (\<lambda>k. the (k_throttled k))
       (filter (\<lambda>k. k_scope k = scope \<and> usable d k \<and> \<not> unthrottled d k) (creds d)))"

definition earliest_lease_expiry_for_scope :: "string \<Rightarrow> db \<Rightarrow> nat option" where
  "earliest_lease_expiry_for_scope scope d =
     min_opt (map (\<lambda>k. the (k_leased k))
       (filter (\<lambda>k. k_scope k = scope \<and> usable d k \<and> lease_active d k) (creds d)))"

section \<open>Facts about rows\<close>

text \<open>Ids and (scope, label) pairs are unique keys.\<close>

definition creds_ok :: "db \<Rightarrow> bool" where
  "creds_ok d \<longleftrightarrow> (distinct (map k_id (creds d)) \<and> (\<forall>k \<in> set (creds d). k_id k < next_cred d))
     \<and> distinct (map (\<lambda>k. (k_scope k, k_label k)) (creds d))"

definition lease_of :: "nat \<Rightarrow> db \<Rightarrow> (string option \<times> nat option) option" where
  "lease_of i d = map_option (\<lambda>k. (k_lease_owner k, k_leased k)) (find_cred i d)"

lemma update_creds_fields [simp]:
  "now_us (update_creds p f d) = now_us d" "jobs (update_creds p f d) = jobs d"
  "threads (update_creds p f d) = threads d" "stretches (update_creds p f d) = stretches d"
  "outbox (update_creds p f d) = outbox d" "caps (update_creds p f d) = caps d"
  "next_cred (update_creds p f d) = next_cred d" "next_job (update_creds p f d) = next_job d"
  "next_thread (update_creds p f d) = next_thread d" "events (update_creds p f d) = events d"
  "closes (update_creds p f d) = closes d" "views (update_creds p f d) = views d"
  "next_stretch (update_creds p f d) = next_stretch d"
  "creds (update_creds p f d) = update_where p f (creds d)"
  by (simp_all add: update_creds_def)

lemma touch_fields [simp]:
  "k_id (touch d k) = k_id k" "k_scope (touch d k) = k_scope k" "k_label (touch d k) = k_label k"
  "k_lease_owner (touch d k) = k_lease_owner k" "k_leased (touch d k) = k_leased k"
  "k_status (touch d k) = k_status k" "k_error_source (touch d k) = k_error_source k"
  "k_enabled (touch d k) = k_enabled k" "k_used (touch d k) = k_used k"
  "k_priority (touch d k) = k_priority k" "k_throttled (touch d k) = k_throttled k"
  "k_expires (touch d k) = k_expires k" "k_error_msg (touch d k) = k_error_msg k"
  by (simp_all add: touch_def)

text \<open>
  The contracts of the functions a statement applies to a row. Every one keeps the row's
  identity; most of them also keep its lease, which is what makes a lease exclusive.
\<close>

locale keeps_identity =
  fixes f :: "cred_row \<Rightarrow> cred_row"
  assumes same_id: "k_id (f k) = k_id k"
    and same_scope: "k_scope (f k) = k_scope k"
    and same_label: "k_label (f k) = k_label k"
begin

lemma creds_ok_update: "creds_ok (update_creds p f d) = creds_ok d"
proof -
  have ids: "map k_id (update_where p f (creds d)) = map k_id (creds d)"
    by (rule map_update_where) (rule same_id)
  have names: "map (\<lambda>k. (k_scope k, k_label k)) (update_where p f (creds d))
      = map (\<lambda>k. (k_scope k, k_label k)) (creds d)"
    by (rule map_update_where) (simp add: same_scope same_label)
  have "k_id ` set (update_where p f (creds d)) = k_id ` set (creds d)"
    using ids by (metis set_map)
  then have "(\<forall>k \<in> set (update_where p f (creds d)). k_id k < n)
      = (\<forall>k \<in> set (creds d). k_id k < n)" for n
    by (metis (mono_tags, lifting) image_iff)
  then show ?thesis by (simp add: creds_ok_def ids names)
qed

lemma find_cred_update:
  "find_cred i (update_creds p f d) = map_option (\<lambda>k. if p k then f k else k) (find_cred i d)"
  unfolding find_cred_def update_creds_fields by (rule find_update_where) (simp add: same_id)

end

locale keeps_lease = keeps_identity +
  assumes same_owner: "k_lease_owner (f k) = k_lease_owner k"
    and same_until: "k_leased (f k) = k_leased k"
begin

lemma lease_of_update: "lease_of i (update_creds p f d) = lease_of i d"
  by (cases "find_cred i d") (simp_all add: lease_of_def find_cred_update same_owner same_until)

end

interpretation refreshed: keeps_lease "\<lambda>k. touch d (refreshed_row c e k)" for d c e
  by unfold_locales (simp_all add: refreshed_row_def)

interpretation disabled: keeps_lease "\<lambda>k. touch d (disabled_row k)" for d
  by unfold_locales (simp_all add: disabled_row_def)

interpretation errored: keeps_lease "\<lambda>k. touch d (error_row m s k)" for d m s
  by unfold_locales (simp_all add: error_row_def)

interpretation throttled: keeps_lease "\<lambda>k. touch d (throttled_row u k)" for d u
  by unfold_locales (simp_all add: throttled_row_def)

interpretation cleared: keeps_lease "\<lambda>k. touch d (cleared_row k)" for d
  by unfold_locales (simp_all add: cleared_row_def)

interpretation reprioritized: keeps_lease "\<lambda>k. touch d (priority_row n k)" for d n
  by unfold_locales (simp_all add: priority_row_def)

interpretation registered: keeps_identity "\<lambda>k. touch d (registered_row ty c e k)" for d ty c e
  by unfold_locales (simp_all add: registered_row_def)

interpretation claimed: keeps_identity "auto_touch (claimed_row taken d) d" for taken d
  by unfold_locales (simp_all add: auto_touch_def claimed_row_def split: option.splits)

interpretation unleased: keeps_identity "\<lambda>k. touch d (unleased_row k)" for d
  by unfold_locales (simp_all add: unleased_row_def)

interpretation leased: keeps_identity
    "auto_touch (\<lambda>k. k\<lparr>k_lease_owner := ow, k_leased := u\<rparr>) d" for ow u d
  by unfold_locales (simp_all add: auto_touch_def)

interpretation renewed: keeps_identity "auto_touch (\<lambda>k. k\<lparr>k_leased := u\<rparr>) d" for u d
  by unfold_locales (simp_all add: auto_touch_def)

lemma snd_set_cred [simp]: "snd (set_cred p f d) = update_creds p (\<lambda>k. touch d (f k)) d"
  by (simp add: set_cred_def Let_def)


section \<open>Claims\<close>

lemma candidate_cong: "candidate s c (update_creds p f d) k = candidate s c d k"
  unfolding candidate_def usable_def unthrottled_def lease_active_def update_creds_fields ..

lemma select_None:
  "fst (select_credential s l c d) = None \<longleftrightarrow> (\<forall>k \<in> set (creds d). \<not> candidate s c d k)"
  by (auto simp: select_credential_def Let_def filter_empty_conv split: option.splits
      dest: best_filterD)

text \<open>The claimed row is a candidate, and no candidate goes before it.\<close>

lemma select_Some:
  assumes step: "select_credential s l c d = (Some k', d')"
  shows "\<exists>k \<in> set (creds d). candidate s c d k
     \<and> (\<forall>q \<in> set (creds d). candidate s c d q \<longrightarrow> \<not> pool_before q k)
     \<and> k' = auto_touch (claimed_row (lease_taken l k) d) d k
     \<and> d' = update_creds (\<lambda>r. k_id r = k_id k) (auto_touch (claimed_row (lease_taken l k) d) d) d"
proof -
  obtain k where b: "best pool_before (filter (candidate s c d) (creds d)) = Some k"
    using step by (cases "best pool_before (filter (candidate s c d) (creds d))")
      (simp_all add: select_credential_def)
  have k: "k \<in> set (creds d)" "candidate s c d k" using best_filterD [OF b] by auto
  have first: "\<not> pool_before q k" if "q \<in> set (creds d)" "candidate s c d q" for q
    using pool_order.picked_first [OF b that] .
  have "k' = auto_touch (claimed_row (lease_taken l k) d) d k"
    "d' = update_creds (\<lambda>r. k_id r = k_id k) (auto_touch (claimed_row (lease_taken l k) d) d) d"
    using step by (simp_all add: select_credential_def b Let_def)
  with k first show ?thesis by blast
qed

lemma auto_touch_fields [simp]:
  "k_id (auto_touch f d k) = k_id (f k)" "k_priority (auto_touch f d k) = k_priority (f k)"
  "k_used (auto_touch f d k) = k_used (f k)"
  "k_lease_owner (auto_touch f d k) = k_lease_owner (f k)"
  "k_leased (auto_touch f d k) = k_leased (f k)" "k_scope (auto_touch f d k) = k_scope (f k)"
  by (simp_all add: auto_touch_def)

lemma claimed_row_fields [simp]:
  "k_id (claimed_row t d k) = k_id k" "k_priority (claimed_row t d k) = k_priority k"
  "k_used (claimed_row t d k) = Some (now_us d)"
  "k_lease_owner (claimed_row t d k) = map_option fst t"
  "k_leased (claimed_row t d k) = map_option (\<lambda>(ow, ttl). now_s d + ttl) t"
  "k_scope (claimed_row t d k) = k_scope k"
  by (auto simp: claimed_row_def split: option.splits)

lemma select_creds_ok:
  assumes "creds_ok d" and "select_credential s l c d = (k, d')"
  shows "creds_ok d'"
proof (cases k)
  case None
  with assms show ?thesis by (auto simp: select_credential_def Let_def split: option.splits)
next
  case (Some k')
  with select_Some assms obtain q where
    "d' = update_creds (\<lambda>r. k_id r = k_id q) (auto_touch (claimed_row (lease_taken l q) d) d) d"
    by blast
  with assms show ?thesis by (simp add: claimed.creds_ok_update)
qed

lemma find_cred_in: "find_cred i d = Some k \<Longrightarrow> k \<in> set (creds d) \<and> k_id k = i"
  unfolding find_cred_def by (drule find_SomeD) auto

lemma find_cred_unique: "creds_ok d \<Longrightarrow> k \<in> set (creds d) \<Longrightarrow> find_cred (k_id k) d = Some k"
  unfolding find_cred_def creds_ok_def by (rule find_unique) auto

section \<open>Leases\<close>

text \<open>
  The operations of the store as one alphabet, so that an interleaving of workers, operators
  and passing time is a list.
\<close>

datatype cred_op =
    RegisterOp string string pyval nat string
  | RefreshedOp nat pyval
  | DeregisterOp nat
  | ErrorOp nat "string option" error_source
  | ThrottleOp nat nat
  | ClearOp nat
  | ClearAutoOp nat
  | PriorityOp nat int
  | SelectOp string "refresh_lease option" "nat option"
  | ReleaseOp nat string
  | ClaimOp nat string nat
  | RenewOp "string list" nat
  | TickOp nat

fun cred_step :: "(string \<Rightarrow> int option) \<Rightarrow> cred_op \<Rightarrow> db \<Rightarrow> db" where
  "cred_step fromiso (RegisterOp s l p n ty) d =
     (case register_credential fromiso s l p n ty d of Inl e \<Rightarrow> d | Inr (k, d') \<Rightarrow> d')"
| "cred_step fromiso (RefreshedOp i p) d = update_refreshed_credentials fromiso i p d"
| "cred_step fromiso (DeregisterOp i) d = snd (deregister_credential i d)"
| "cred_step fromiso (ErrorOp i m s) d = snd (mark_credential_error i m s d)"
| "cred_step fromiso (ThrottleOp i u) d = snd (throttle_credential i u d)"
| "cred_step fromiso (ClearOp i) d = snd (clear_credential_error i d)"
| "cred_step fromiso (ClearAutoOp i) d = snd (clear_auto_credential_error i d)"
| "cred_step fromiso (PriorityOp i n) d = snd (set_credential_priority i n d)"
| "cred_step fromiso (SelectOp s l c) d = snd (select_credential s l c d)"
| "cred_step fromiso (ReleaseOp i w) d = snd (release_credential_lease i w d)"
| "cred_step fromiso (ClaimOp i w n) d = snd (claim_credential_lease i w n d)"
| "cred_step fromiso (RenewOp ws n) d = snd (renew_credential_leases ws n d)"
| "cred_step fromiso (TickOp us) d = d\<lparr>now_us := now_us d + us\<rparr>"

definition cred_run :: "(string \<Rightarrow> int option) \<Rightarrow> cred_op list \<Rightarrow> db \<Rightarrow> db" where
  "cred_run fromiso ops d = fold (cred_step fromiso) ops d"

lemma creds_ok_cong: "creds d' = creds d \<Longrightarrow> next_cred d' = next_cred d \<Longrightarrow> creds_ok d' = creds_ok d"
  by (simp only: creds_ok_def)

lemma lease_of_cong: "creds d' = creds d \<Longrightarrow> lease_of i d' = lease_of i d"
  by (simp add: lease_of_def find_cred_def)

lemma release_snd:
  "creds (snd (release_credential_lease i w d))
     = creds (update_creds (\<lambda>k. k_id k = i \<and> k_lease_owner k = Some w)
         (\<lambda>k. touch d (unleased_row k)) d)
   \<and> next_cred (snd (release_credential_lease i w d)) = next_cred d
   \<and> now_us (snd (release_credential_lease i w d)) = now_us d"
  by (simp add: release_credential_lease_def set_cred_def Let_def)

lemma register_creds_ok:
  assumes ok: "creds_ok d" and step: "register_credential fromiso s l p n ty d = Inr (k, d')"
  shows "creds_ok d'"
proof (cases "find (\<lambda>k. k_scope k = s \<and> k_label k = l) (creds d)")
  case None
  then have free: "(s, l) \<notin> (\<lambda>k. (k_scope k, k_label k)) ` set (creds d)"
    by (auto simp: find_None_filter filter_empty_conv)
  obtain r where d': "creds d' = creds d @ [r]" "next_cred d' = next_cred d + 1"
    and r: "k_id r = next_cred d" "k_scope r = s" "k_label r = l"
    using step None that by (simp add: register_credential_def Let_def) force
  show ?thesis
    unfolding creds_ok_def d'
    using fresh_append [of k_id "creds d" "next_cred d" r] ok free r
    by (simp add: creds_ok_def)
next
  case (Some q)
  with step show ?thesis
    using ok by (auto simp: register_credential_def Let_def registered.creds_ok_update
        split: if_splits)
qed

text \<open>The operations that update one row through a function of the lease-keeping kind.\<close>

lemmas cred_op_defs = update_refreshed_credentials_def deregister_credential_def
  mark_credential_error_def throttle_credential_def clear_credential_error_def
  clear_auto_credential_error_def set_credential_priority_def

lemmas keeps_lease_updates = refreshed.lease_of_update disabled.lease_of_update
  errored.lease_of_update throttled.lease_of_update cleared.lease_of_update
  reprioritized.lease_of_update

lemmas creds_ok_updates = refreshed.creds_ok_update disabled.creds_ok_update
  errored.creds_ok_update throttled.creds_ok_update cleared.creds_ok_update
  reprioritized.creds_ok_update unleased.creds_ok_update leased.creds_ok_update
  renewed.creds_ok_update

lemma cred_step_ok: "creds_ok d \<Longrightarrow> creds_ok (cred_step fromiso op d)"
proof (cases op)
  case (RegisterOp s l p n ty)
  assume "creds_ok d"
  then show ?thesis using RegisterOp register_creds_ok by (auto split: sum.splits)
next
  case (SelectOp s l c)
  assume "creds_ok d"
  then show ?thesis
    using SelectOp select_creds_ok [of d s l c] by (cases "select_credential s l c d") simp
next
  case (ReleaseOp i w)
  assume "creds_ok d"
  then have "creds_ok (update_creds (\<lambda>k. k_id k = i \<and> k_lease_owner k = Some w)
      (\<lambda>k. touch d (unleased_row k)) d)" by (simp add: unleased.creds_ok_update)
  then show ?thesis using ReleaseOp release_snd [of i w d] by (simp add: creds_ok_def)
next
  case (TickOp us)
  assume "creds_ok d"
  then show ?thesis using TickOp by (simp add: creds_ok_def)
qed (simp_all add: cred_op_defs creds_ok_updates claim_credential_lease_def
      renew_credential_leases_def Let_def)

lemma cred_step_clock:
  "now_us (cred_step fromiso op d) = now_us d + (case op of TickOp us \<Rightarrow> us | _ \<Rightarrow> 0)"
  by (cases op) (auto simp: cred_op_defs claim_credential_lease_def renew_credential_leases_def
      Let_def register_credential_def select_credential_def release_snd
      split: sum.splits option.splits if_splits)

text \<open>
  A lease that is live survives every operation but a release by its owner and a renewal, and
  a renewal that names its owner only moves its deadline.
\<close>

definition leased_to :: "nat \<Rightarrow> string \<Rightarrow> nat \<Rightarrow> db \<Rightarrow> bool" where
  "leased_to i w u d \<longleftrightarrow> (\<exists>v. lease_of i d = Some (Some w, Some v) \<and> u \<le> v)"

definition ends_lease :: "nat \<Rightarrow> string \<Rightarrow> nat \<Rightarrow> db \<Rightarrow> cred_op \<Rightarrow> bool" where
  "ends_lease i w u d op \<longleftrightarrow>
     (case op of ReleaseOp j v \<Rightarrow> j = i \<and> v = w
      | RenewOp ws n \<Rightarrow> w \<in> set ws \<and> now_s d + n < u
      | _ \<Rightarrow> False)"

lemma leased_toD:
  assumes "leased_to i w u d" and "now_s d < u"
  shows "\<exists>k \<in> set (creds d). find_cred i d = Some k \<and> k_id k = i \<and> k_lease_owner k = Some w
    \<and> lease_active d k"
proof -
  obtain k v where k: "find_cred i d = Some k" "k_lease_owner k = Some w" "k_leased k = Some v" "u \<le> v"
    using assms(1) by (auto simp: leased_to_def lease_of_def)
  with assms(2) find_cred_in [OF k(1)] show ?thesis by (auto simp: lease_active_def)
qed

lemma not_candidate:
  assumes "creds_ok d" and "leased_to i w u d" and "now_s d < u" and "k \<in> set (creds d)"
    and "k_id k = i"
  shows "\<not> candidate s c d k"
  using leased_toD [OF assms(2,3)] find_cred_unique [OF assms(1,4)] assms(5)
  by (auto simp: candidate_def)

lemma select_never_leased:
  assumes ok: "creds_ok d" and live: "leased_to i w u d" "now_s d < u"
  shows "\<forall>k. fst (select_credential s l c d) = Some k \<longrightarrow> k_id k \<noteq> i"
proof (intro allI impI)
  fix k assume "fst (select_credential s l c d) = Some k"
  then obtain d' where "select_credential s l c d = (Some k, d')"
    by (cases "select_credential s l c d") auto
  then obtain q where "q \<in> set (creds d)" "candidate s c d q" "k_id k = k_id q"
    using select_Some by fastforce
  with not_candidate [OF ok live] show "k_id k \<noteq> i" by auto
qed

lemma lease_of_other:
  assumes "\<And>k. k \<in> set (creds d) \<Longrightarrow> k_id k = i \<Longrightarrow> \<not> p k" and "\<And>k. k_id (f k) = k_id k"
  shows "lease_of i (update_creds p f d) = lease_of i d"
proof (cases "find_cred i d")
  case (Some k)
  then have "\<not> p k" using assms(1) find_cred_in by blast
  moreover have "find_cred i (update_creds p f d) = map_option (\<lambda>k. if p k then f k else k) (find_cred i d)"
    unfolding find_cred_def update_creds_fields by (rule find_update_where) (simp add: assms(2))
  ultimately show ?thesis using Some by (simp add: lease_of_def)
next
  case None
  moreover have "find_cred i (update_creds p f d) = map_option (\<lambda>k. if p k then f k else k) (find_cred i d)"
    unfolding find_cred_def update_creds_fields by (rule find_update_where) (simp add: assms(2))
  ultimately show ?thesis by (simp add: lease_of_def)
qed

lemma cred_step_lease:
  assumes ok: "creds_ok d" and held: "leased_to i w u d" and live: "now_s d < u"
    and keeps: "\<not> ends_lease i w u d op"
  shows "leased_to i w u (cred_step fromiso op d)"
proof -
  obtain k where k: "k \<in> set (creds d)" "find_cred i d = Some k" "k_id k = i"
      "k_lease_owner k = Some w" "lease_active d k"
    using leased_toD [OF held live] by blast
  have only: "q = k" if "q \<in> set (creds d)" "k_id q = i" for q
    using find_cred_unique [OF ok that(1)] k(2) that(2) by simp
  have same: "leased_to i w u d'" if "lease_of i d' = lease_of i d" for d'
    using held that by (simp add: leased_to_def)
  show ?thesis
  proof (cases op)
    case (RegisterOp s l p n ty)
    show ?thesis
    proof (cases "find (\<lambda>k. k_scope k = s \<and> k_label k = l) (creds d)")
      case None
      have "find_cred i (d\<lparr>creds := creds d @ [r], next_cred := m\<rparr>) = find_cred i d" for r m
        using k(2) by (simp add: find_cred_def find_append)
      then show ?thesis using RegisterOp None
        by (intro same) (simp add: register_credential_def Let_def lease_of_def)
    next
      case (Some q)
      show ?thesis
      proof (cases "lease_active d q")
        case True
        then show ?thesis using RegisterOp Some held by (simp add: register_credential_def)
      next
        case False
        with k only have "k_id q \<noteq> i" using find_SomeD [OF Some] by blast
        then have "lease_of i (update_creds (\<lambda>r. k_id r = k_id q)
            (\<lambda>r. touch d (registered_row ty p e r)) d) = lease_of i d" for e
          by (intro lease_of_other) (auto simp: registered_row_def)
        then show ?thesis using RegisterOp Some False
          by (intro same) (simp add: register_credential_def Let_def)
      qed
    qed
  next
    case (SelectOp s l c)
    show ?thesis
    proof (cases "select_credential s l c d")
      case (Pair r d')
      show ?thesis
      proof (cases r)
        case None
        with Pair have "d' = d" by (auto simp: select_credential_def Let_def split: option.splits)
        with Pair SelectOp held show ?thesis by simp
      next
        case (Some k')
        with Pair select_Some obtain q where q: "q \<in> set (creds d)" "candidate s c d q"
          and d': "d' = update_creds (\<lambda>r. k_id r = k_id q)
                (auto_touch (claimed_row (lease_taken l q) d) d) d" by blast
        have "k_id q \<noteq> i" using not_candidate [OF ok held live q(1)] q(2) by blast
        then have "lease_of i d' = lease_of i d" unfolding d' by (intro lease_of_other) auto
        with Pair SelectOp same show ?thesis by simp
      qed
    qed
  next
    case (ReleaseOp j v)
    with keeps have no: "\<not> (j = i \<and> v = w)" by (simp add: ends_lease_def)
    have "lease_of i (update_creds (\<lambda>k. k_id k = j \<and> k_lease_owner k = Some v)
        (\<lambda>k. touch d (unleased_row k)) d) = lease_of i d"
      using no only k(4) by (intro lease_of_other) (auto simp: unleased_row_def)
    moreover have "lease_of i (snd (release_credential_lease j v d))
        = lease_of i (update_creds (\<lambda>k. k_id k = j \<and> k_lease_owner k = Some v)
            (\<lambda>k. touch d (unleased_row k)) d)"
      using release_snd [of j v d] by (intro lease_of_cong) simp
    ultimately show ?thesis using ReleaseOp by (intro same) simp
  next
    case (ClaimOp j v n)
    have "lease_of i (snd (claim_credential_lease j v n d)) = lease_of i d"
      unfolding claim_credential_lease_def Let_def snd_conv
      using only k(5) by (intro lease_of_other) (auto simp: leased.same_id)
    then show ?thesis using ClaimOp by (intro same) simp
  next
    case (RenewOp ws n)
    show ?thesis
    proof (cases "w \<in> set ws")
      case True
      with RenewOp keeps have "u \<le> now_s d + n" by (simp add: ends_lease_def)
      with True RenewOp k show ?thesis
        by (auto simp: renew_credential_leases_def Let_def leased_to_def lease_of_def
            renewed.find_cred_update)
    next
      case False
      then have "lease_of i (snd (renew_credential_leases ws n d)) = lease_of i d"
        unfolding renew_credential_leases_def Let_def
        using only k(4) by (auto intro!: lease_of_other simp: renewed.same_id split: option.splits)
      then show ?thesis using RenewOp by (intro same) simp
    qed
  next
    case (TickOp us)
    then show ?thesis by (intro same) (simp add: lease_of_def find_cred_def)
  qed (auto intro!: same simp: cred_op_defs keeps_lease_updates)
qed

lemma ends_lease_later:
  assumes "now_us d \<le> now_us d'" and "ends_lease i w u d' op"
  shows "ends_lease i w u d op"
proof -
  have "now_s d \<le> now_s d'" unfolding sql_now_def using assms(1) by (rule div_le_mono)
  with assms(2) show ?thesis by (cases op) (auto simp: ends_lease_def)
qed

lemma cred_run_clock: "now_us d \<le> now_us (cred_run fromiso ops d)"
proof (induction ops arbitrary: d)
  case (Cons op ops)
  have "now_us d \<le> now_us (cred_step fromiso op d)" by (simp add: cred_step_clock)
  also have "\<dots> \<le> now_us (cred_run fromiso ops (cred_step fromiso op d))" by (rule Cons.IH)
  finally show ?case by (simp add: cred_run_def)
qed (simp add: cred_run_def)

text \<open>
  The trace form. \<open>w\<close> holds a live lease until \<open>u\<close>; as long as the clock is before \<open>u\<close>, no
  interleaving of other operations frees the credential or hands it to another run.
\<close>

lemma cred_run_lease:
  assumes "creds_ok d" and "leased_to i w u d" and "now_s (cred_run fromiso ops d) < u"
    and "\<forall>op \<in> set ops. \<not> ends_lease i w u d op"
  shows "creds_ok (cred_run fromiso ops d) \<and> leased_to i w u (cred_run fromiso ops d)"
  using assms
proof (induction ops arbitrary: d)
  case (Cons op ops)
  let ?d1 = "cred_step fromiso op d"
  have run: "cred_run fromiso (op # ops) d = cred_run fromiso ops ?d1" by (simp add: cred_run_def)
  have before: "now_us d \<le> now_us ?d1" "now_us ?d1 \<le> now_us (cred_run fromiso (op # ops) d)"
    using cred_run_clock [of ?d1 fromiso ops] by (simp_all add: cred_step_clock run)
  then have live: "now_s d < u"
    using Cons.prems(3) div_le_mono [of "now_us d" _ 1000000] unfolding sql_now_def
    by (meson le_less_trans order_trans)
  have "leased_to i w u ?d1"
    using cred_step_lease [OF Cons.prems(1,2) live] Cons.prems(4) by simp
  moreover have "creds_ok ?d1" using Cons.prems(1) by (rule cred_step_ok)
  moreover have "\<not> ends_lease i w u ?d1 q" if "q \<in> set ops" for q
    using Cons.prems(4) that ends_lease_later [OF before(1)] by auto
  ultimately show ?case using Cons.IH [of ?d1] Cons.prems(3) run by simp
qed (simp add: cred_run_def)

text \<open>
  Least recently used: the next claim of the scope is not the row that was just claimed while
  another candidate of no lower precedence is there.
\<close>

lemma select_rotates:
  assumes ok: "creds_ok d" and step: "select_credential s l None d = (Some c, d')"
    and q: "q \<in> set (creds d)" "candidate s None d q" "k_id q \<noteq> k_id c"
    and older: "k_priority q \<le> k_priority c" "k_used q < Some (now_us d)"
    and again: "select_credential s l' None d' = (Some c', d'')"
  shows "k_id c' \<noteq> k_id c"
proof
  assume same: "k_id c' = k_id c"
  obtain k where k: "k \<in> set (creds d)"
    and c: "c = auto_touch (claimed_row (lease_taken l k) d) d k"
    and d': "d' = update_creds (\<lambda>r. k_id r = k_id k) (auto_touch (claimed_row (lease_taken l k) d) d) d"
    using select_Some [OF step] by blast
  have ok': "creds_ok d'" using ok step by (rule select_creds_ok)
  obtain k2 where k2: "k2 \<in> set (creds d')" "k_id k2 = k_id c"
      and first: "\<forall>r \<in> set (creds d'). candidate s None d' r \<longrightarrow> \<not> pool_before r k2"
    using select_Some [OF again] same by fastforce
  have "c \<in> set (creds d')" using k c by (auto simp: d' in_update_where)
  then have "k2 = c" using find_cred_unique [OF ok'] k2 by (metis option.inject)
  have "q \<in> set (creds d')" using q c by (auto simp: d' in_update_where)
  moreover have "candidate s None d' q" using q(2) by (simp add: d' candidate_cong)
  moreover have "pool_before q c"
    using older by (auto simp: pool_before_def c less_prod_def less_prod_def')
  ultimately show False using first \<open>k2 = c\<close> by blast
qed

end
