(* ===== verification/Auth_Context.thy ===== *)
theory Auth_Context
  imports Credential_Store
begin

text \<open>
  \<open>auth_context.py\<close>: the claims a capability row gives its bearer at an endpoint of the toolbox,
  and the configured bounds on lifetimes. A row and its source are dicts whose values the code
  checks at run time, so they are \<open>pyval\<close>s here.
\<close>

section \<open>Checks on values\<close>

text \<open>\<open>==\<close> of two scalars: a bool and a float are numbers.\<close>

fun py_num :: "pyval \<Rightarrow> rat option" where
  "py_num (PyInt n) = Some (of_int n)"
| "py_num (PyBool b) = Some (if b then 1 else 0)"
| "py_num (PyFloat q) = Some q"
| "py_num _ = None"

definition py_eq :: "pyval \<Rightarrow> pyval \<Rightarrow> bool" where
  "py_eq v w \<longleftrightarrow> (case (py_num v, py_num w) of (Some a, Some b) \<Rightarrow> a = b | _ \<Rightarrow> v = w)"

fun is_int :: "pyval \<Rightarrow> bool" where
  "is_int (PyInt n) = True"
| "is_int _ = False"

fun is_positive_int :: "pyval \<Rightarrow> bool" where
  "is_positive_int (PyInt n) = (0 < n)"
| "is_positive_int _ = False"

fun is_text :: "pyval \<Rightarrow> bool" where
  "is_text (PyStr s) = (s \<noteq> [])"
| "is_text _ = False"

fun is_version_id :: "pyval \<Rightarrow> bool" where
  "is_version_id (PyStr s) = (s \<noteq> [] \<and> length s \<le> 64)"
| "is_version_id _ = False"

definition positive_decimal :: "string \<Rightarrow> bool" where
  "positive_decimal s \<longleftrightarrow> s \<noteq> [] \<and> is_digit (hd s) \<and> hd s \<noteq> CHR ''0'' \<and> (\<forall>c \<in> set (tl s). is_digit c)"

text \<open>\<open>re.match\<close> with \<open>$\<close> also accepts one newline at the end.\<close>

fun is_decimal_id :: "pyval \<Rightarrow> bool" where
  "is_decimal_id (PyStr s) = re_match_dollar positive_decimal s"
| "is_decimal_id _ = False"

fun is_string_list :: "pyval \<Rightarrow> bool" where
  "is_string_list (PyList xs) = (\<forall>x \<in> set xs. is_text x)"
| "is_string_list _ = False"

fun int_of :: "pyval \<Rightarrow> int" where
  "int_of (PyInt n) = n"
| "int_of _ = 0"

fun items_of :: "pyval \<Rightarrow> pyval list" where
  "items_of (PyList xs) = xs"
| "items_of _ = []"

definition lifetime_within :: "pyval \<Rightarrow> pyval \<Rightarrow> pyval \<Rightarrow> bool" where
  "lifetime_within created_at expires_at cap \<longleftrightarrow>
     is_int created_at \<and> is_int expires_at \<and> is_positive_int cap
     \<and> 0 < int_of expires_at - int_of created_at
     \<and> int_of expires_at - int_of created_at \<le> int_of cap"

fun transports_valid :: "pyval \<Rightarrow> bool" where
  "transports_valid (PyList xs) =
     (xs \<noteq> [] \<and> (\<forall>t \<in> set xs. t = PyStr ''http'' \<or> t = PyStr ''sse'') \<and> distinct xs)"
| "transports_valid _ = False"

fun subject_of :: "pyval \<Rightarrow> pyval" where
  "subject_of (PyInt n) = (if 0 < n then PyStr (str_nat (nat n)) else PyNone)"
| "subject_of (PyStr s) = (if s \<noteq> [] then PyStr s else PyNone)"
| "subject_of _ = PyNone"

section \<open>Profiles\<close>

record kind_profile =
  pr_actor :: string
  pr_endpoints :: "string list"
  pr_source :: "string option"
  pr_ttl :: string

definition ENDPOINT_TRANSPORT :: "string \<Rightarrow> string option" where
  "ENDPOINT_TRANSPORT = map_of
     [(''sse'', ''sse''), (''messages'', ''sse''), (''mcp'', ''http''), (''invoke'', ''http''),
      (''api'', ''http''), (''config_test'', ''http''), (''admin'', ''http''), (''health'', ''http'')]"

definition MCP_ENDPOINTS :: "string list" where
  "MCP_ENDPOINTS = [''sse'', ''messages'', ''mcp'', ''invoke'']"

definition KINDS :: "(string \<times> kind_profile) list" where
  "KINDS =
     [(''mcp_job'', \<lparr>pr_actor = ''agent'', pr_endpoints = MCP_ENDPOINTS, pr_source = None, pr_ttl = ''''\<rparr>),
      (''mcp_interactive'',
         \<lparr>pr_actor = ''agent'', pr_endpoints = MCP_ENDPOINTS, pr_source = None, pr_ttl = ''''\<rparr>),
      (''internal_rest'', \<lparr>pr_actor = ''service'', pr_endpoints = [''api'', ''config_test'', ''health''],
         pr_source = None, pr_ttl = ''''\<rparr>),
      (''user_session'', \<lparr>pr_actor = ''user'', pr_endpoints = [''invoke''], pr_source = Some ''session'',
         pr_ttl = ''session_max_ttl''\<rparr>),
      (''miniapp'', \<lparr>pr_actor = ''user'', pr_endpoints = [''invoke''], pr_source = Some ''launch'',
         pr_ttl = ''launch_max_ttl''\<rparr>)]"

fun profile_of :: "pyval \<Rightarrow> kind_profile option" where
  "profile_of (PyStr k) = map_of KINDS k"
| "profile_of _ = None"

definition SINGLE_USE_KINDS :: "pyval list" where
  "SINGLE_USE_KINDS = [PyStr ''user_session'', PyStr ''miniapp'']"

section \<open>The derivation\<close>

definition check_source :: "pyval \<Rightarrow> pyval \<Rightarrow> kind_profile \<Rightarrow> pyval \<Rightarrow> bool" where
  "check_source row source profile ttl_caps \<longleftrightarrow>
     (let want = (case pr_source profile of Some s \<Rightarrow> PyStr s | None \<Rightarrow> PyNone);
          subject = subject_of (py_get source ''user_id'') in
      is_py_dict source
      \<and> py_get row ''source_kind'' = want \<and> is_text (py_get row ''source_id'')
      \<and> py_get source ''kind'' = want
      \<and> subject_of (py_get source ''id'') = py_get row ''source_id''
      \<and> subject \<noteq> PyNone \<and> py_get row ''subject_id'' = subject
      \<and> py_eq (py_get source ''workspace_id'') (py_get row ''workspace_id'')
      \<and> py_eq (py_get source ''agent_view_id'') (py_get row ''agent_view_id'')
      \<and> is_string_list (py_get source ''permitted_tools'')
      \<and> lifetime_within (py_get source ''created_at'') (py_get source ''expires_at'')
          (py_get ttl_caps (pr_ttl profile))
      \<and> lifetime_within (py_get row ''created_at'') (py_get row ''expires_at'')
          (py_get ttl_caps ''capability_ttl'')
      \<and> int_of (py_get row ''expires_at'') \<le> int_of (py_get source ''expires_at''))"

record auth_context =
  a_actor :: string
  a_subject :: pyval
  a_view :: pyval
  a_workspace :: pyval
  a_job :: pyval
  a_execution :: pyval
  a_app :: "(pyval \<times> pyval \<times> pyval) option"
  a_ceiling :: pyval
  a_transports :: pyval
  a_kind :: pyval
  a_expires :: int
  a_capability :: "pyval"
  a_single_use :: bool
  a_permitted :: "pyval list option"

text \<open>The rules per kind, after the common ones.\<close>

definition agent_only_nulls :: "pyval \<Rightarrow> bool" where
  "agent_only_nulls row \<longleftrightarrow>
     py_get row ''app_artifact_code'' = PyNone \<and> py_get row ''app_version_id'' = PyNone
     \<and> py_get row ''app_launch_id'' = PyNone \<and> py_get row ''tool_ceiling'' = PyNone
     \<and> py_get row ''source_kind'' = PyNone \<and> py_get row ''source_id'' = PyNone"

definition has_app :: "pyval \<Rightarrow> bool" where
  "has_app row \<longleftrightarrow>
     \<not> (py_get row ''app_artifact_code'' = PyNone \<and> py_get row ''app_version_id'' = PyNone
        \<and> py_get row ''app_launch_id'' = PyNone)"

definition service_subject :: "pyval \<Rightarrow> bool" where
  "service_subject v \<longleftrightarrow> (case v of PyStr s \<Rightarrow> starts_with ''service:'' s \<and> 8 < length s | _ \<Rightarrow> False)"

definition kind_rules :: "pyval \<Rightarrow> pyval \<Rightarrow> kind_profile \<Rightarrow> pyval \<Rightarrow> bool" where
  "kind_rules row source profile ttl_caps \<longleftrightarrow>
     (let kind = py_get row ''kind''; view = py_get row ''agent_view_id'';
          job = py_get row ''job_id''; execution = py_get row ''execution_id'';
          subject = py_get row ''subject_id''; workspace = py_get row ''workspace_id'';
          ceiling = py_get row ''tool_ceiling''; code = py_get row ''app_artifact_code'';
          version = py_get row ''app_version_id''; launch = py_get row ''app_launch_id'' in
      if kind = PyStr ''mcp_job''
      then view \<noteq> PyNone \<and> is_decimal_id job \<and> agent_only_nulls row
           \<and> subject = PyStr (str_nat (nat (int_of view)))
      else if kind = PyStr ''mcp_interactive''
      then view \<noteq> PyNone \<and> job = PyNone \<and> execution = PyNone \<and> agent_only_nulls row
           \<and> subject = PyStr (str_nat (nat (int_of view)))
      else if kind = PyStr ''internal_rest''
      then agent_only_nulls row \<and> execution = PyNone \<and> service_subject subject
           \<and> (view = PyNone \<longrightarrow> workspace = PyNone \<and> job = PyNone)
      else is_positive_int workspace \<and> job = PyNone \<and> execution = PyNone
           \<and> (if kind = PyStr ''user_session'' then \<not> has_app row \<and> ceiling = PyNone
              else is_text code \<and> is_version_id version \<and> is_text launch \<and> is_string_list ceiling
                   \<and> py_get source ''launch_id'' = launch
                   \<and> py_get source ''artifact_code'' = code \<and> py_get source ''version_id'' = version)
           \<and> check_source row source profile ttl_caps)"

definition allowed_endpoints :: "pyval \<Rightarrow> kind_profile \<Rightarrow> string list" where
  "allowed_endpoints row profile =
     (if py_get row ''kind'' = PyStr ''internal_rest'' \<and> py_get row ''agent_view_id'' = PyNone
      then [''config_test'', ''admin''] else pr_endpoints profile)"

definition common_rules :: "pyval \<Rightarrow> pyval \<Rightarrow> string \<Rightarrow> kind_profile \<Rightarrow> bool" where
  "common_rules row view_workspace endpoint profile \<longleftrightarrow>
     (let view = py_get row ''agent_view_id''; workspace = py_get row ''workspace_id'' in
      transports_valid (py_get row ''allowed_transports'')
      \<and> (\<exists>t \<in> set (items_of (py_get row ''allowed_transports'')).
            ENDPOINT_TRANSPORT endpoint \<noteq> None \<and> t = PyStr (the (ENDPOINT_TRANSPORT endpoint)))
      \<and> endpoint \<in> set (allowed_endpoints row profile)
      \<and> py_get row ''actor'' = PyStr (pr_actor profile)
      \<and> py_get row ''on_behalf_of'' = PyNone
      \<and> (view \<noteq> PyNone \<longrightarrow> is_positive_int view)
      \<and> (workspace \<noteq> PyNone \<longrightarrow> is_positive_int workspace)
      \<and> (view \<noteq> PyNone \<longrightarrow> workspace \<noteq> PyNone \<and> py_eq workspace view_workspace)
      \<and> (py_get row ''job_id'' \<noteq> PyNone \<longrightarrow> is_decimal_id (py_get row ''job_id''))
      \<and> (py_get row ''execution_id'' \<noteq> PyNone \<longrightarrow> is_text (py_get row ''execution_id''))
      \<and> is_int (py_get row ''expires_at''))"

definition derive_auth_context ::
    "pyval \<Rightarrow> pyval \<Rightarrow> pyval \<Rightarrow> string \<Rightarrow> pyval \<Rightarrow> auth_context option" where
  "derive_auth_context row view_workspace source endpoint ttl_caps =
     (if \<not> is_py_dict row then None
      else case profile_of (py_get row ''kind'') of
        None \<Rightarrow> None
      | Some profile \<Rightarrow>
          if ENDPOINT_TRANSPORT endpoint = None then None
          else if \<not> common_rules row view_workspace endpoint profile then None
          else if \<not> kind_rules row source profile ttl_caps then None
          else Some
            \<lparr>a_actor = pr_actor profile, a_subject = py_get row ''subject_id'',
             a_view = py_get row ''agent_view_id'', a_workspace = py_get row ''workspace_id'',
             a_job = py_get row ''job_id'', a_execution = py_get row ''execution_id'',
             a_app = (if has_app row
                      then Some (py_get row ''app_artifact_code'', py_get row ''app_version_id'',
                                 py_get row ''app_launch_id'') else None),
             a_ceiling = py_get row ''tool_ceiling'',
             a_transports = py_get row ''allowed_transports'', a_kind = py_get row ''kind'',
             a_expires = int_of (py_get row ''expires_at''), a_capability = py_get row ''id'',
             a_single_use = py_get row ''kind'' \<in> set SINGLE_USE_KINDS,
             a_permitted = (if pr_source profile = None then None
                            else Some (items_of (py_get source ''permitted_tools'')))\<rparr>)"

section \<open>Configured lifetimes\<close>

definition AUTH_TTL_KEYS :: "string list" where
  "AUTH_TTL_KEYS = [''session_max_ttl'', ''launch_max_ttl'', ''capability_ttl'']"

fun ttl_ceiling :: "string \<Rightarrow> nat" where
  "ttl_ceiling k = (if k = ''session_max_ttl'' then 86400 else if k = ''launch_max_ttl'' then 43200
                    else 300)"

fun ttl_default :: "string \<Rightarrow> nat" where
  "ttl_default k = (if k = ''session_max_ttl'' then 43200 else if k = ''launch_max_ttl'' then 3600
                    else 30)"

definition auth_ttl_path :: "string \<Rightarrow> string" where
  "auth_ttl_path key = ''core/auth/'' @ key"

definition to_upper :: "char \<Rightarrow> char" where
  "to_upper c = (if is_lower c then char_of (of_char c - 32 :: nat) else c)"

definition auth_ttl_env_key :: "string \<Rightarrow> string" where
  "auth_ttl_env_key key = ''CONFIG__CORE__AUTH__'' @ map to_upper key"

text \<open>\<open>str(raw).strip()\<close>, the empty text for a value whose text is no decimal number.\<close>

fun ttl_text :: "pyval \<Rightarrow> string" where
  "ttl_text (PyStr s) = strip s"
| "ttl_text (PyInt n) = (if 0 \<le> n then str_nat (nat n) else [])"
| "ttl_text _ = []"

type_synonym ttl_source = "string \<Rightarrow> string option"

definition raw_ttl ::
    "ttl_source \<Rightarrow> ttl_source \<Rightarrow> ttl_source \<Rightarrow> (string \<Rightarrow> pyval option) \<Rightarrow> string \<Rightarrow> pyval" where
  "raw_ttl env default_overrides workspace_overrides config_defaults key =
     (case env (auth_ttl_env_key key) of Some s \<Rightarrow> PyStr s
      | None \<Rightarrow> (case workspace_overrides (auth_ttl_path key) of Some s \<Rightarrow> PyStr s
        | None \<Rightarrow> (case default_overrides (auth_ttl_path key) of Some s \<Rightarrow> PyStr s
          | None \<Rightarrow> (case config_defaults (''auth/'' @ key) of Some v \<Rightarrow> v
            | None \<Rightarrow> PyInt (int (ttl_default key))))))"

text \<open>\<open>None\<close> is \<open>AuthConfigError\<close>.\<close>

definition ttl_value :: "pyval \<Rightarrow> string \<Rightarrow> nat option" where
  "ttl_value raw key = (let text = ttl_text raw in
     if \<not> re_match_dollar positive_decimal text then None
     else Some (min (nat_of_str text) (ttl_ceiling key)))"

fun collect_caps :: "(string \<Rightarrow> nat option) \<Rightarrow> string list \<Rightarrow> (pyval \<times> pyval) list option" where
  "collect_caps f [] = Some []"
| "collect_caps f (k # ks) =
     (case f k of None \<Rightarrow> None
      | Some v \<Rightarrow> map_option ((#) (PyStr k, PyInt (int v))) (collect_caps f ks))"

definition compute_auth_ttls ::
    "ttl_source \<Rightarrow> ttl_source \<Rightarrow> ttl_source \<Rightarrow> (string \<Rightarrow> pyval option) \<Rightarrow> pyval option" where
  "compute_auth_ttls env default_overrides workspace_overrides config_defaults =
     map_option PyDict (collect_caps
       (\<lambda>key. ttl_value (raw_ttl env default_overrides workspace_overrides config_defaults key) key)
       AUTH_TTL_KEYS)"

text \<open>
  The rows of one scope: path to value and encrypted flag. An encrypted \<open>core/auth/*\<close> row is an
  error.
\<close>

type_synonym scope_rows = "(string \<times> string option \<times> bool) list"

definition plain_rows :: "scope_rows \<Rightarrow> ttl_source option" where
  "plain_rows rows =
     (if \<exists>(path, value, encrypted) \<in> set rows. starts_with ''core/auth/'' path \<and> encrypted then None
      else Some (\<lambda>p. case map_of rows p of None \<Rightarrow> None
                     | Some (value, encrypted) \<Rightarrow> if starts_with ''core/auth/'' p then value else None))"

record auth_config =
  ac_env :: ttl_source
  ac_default :: scope_rows
  ac_workspace :: "nat \<Rightarrow> scope_rows"
  ac_defaults :: "string \<Rightarrow> pyval option"

definition resolve_auth_ttls :: "auth_config \<Rightarrow> nat option \<Rightarrow> pyval option" where
  "resolve_auth_ttls cfg workspace_id =
     (case plain_rows (ac_default cfg) of None \<Rightarrow> None
      | Some d \<Rightarrow>
          (case (case workspace_id of None \<Rightarrow> Some (\<lambda>_. None)
                 | Some w \<Rightarrow> plain_rows (ac_workspace cfg w)) of
             None \<Rightarrow> None
           | Some w \<Rightarrow> compute_auth_ttls (ac_env cfg) d w (ac_defaults cfg)))"

section \<open>Facts\<close>

lemma ttl_value_bounds: "ttl_value raw key = Some v \<Longrightarrow> 0 < ttl_ceiling key \<and> v \<le> ttl_ceiling key"
  by (auto simp: ttl_value_def Let_def split: if_splits)

lemma collect_caps_get:
  "collect_caps f ks = Some kvs \<Longrightarrow> k \<in> set ks
    \<Longrightarrow> \<exists>v. f k = Some v \<and> map_of kvs (PyStr k) = Some (PyInt (int v))"
  by (induction ks arbitrary: kvs) (auto split: option.splits)

lemma compute_auth_ttls_get:
  assumes "compute_auth_ttls e d w c = Some ttls" and "k \<in> set AUTH_TTL_KEYS"
  shows "\<exists>v. py_get ttls k = PyInt (int v) \<and> v \<le> ttl_ceiling k"
proof -
  obtain kvs where kvs: "collect_caps (\<lambda>key. ttl_value (raw_ttl e d w c key) key) AUTH_TTL_KEYS = Some kvs"
    and ttls: "ttls = PyDict kvs"
    using assms(1) unfolding compute_auth_ttls_def by blast
  obtain v where v: "ttl_value (raw_ttl e d w c k) k = Some v"
      "map_of kvs (PyStr k) = Some (PyInt (int v))"
    using collect_caps_get [OF kvs assms(2)] by blast
  have "v \<le> ttl_ceiling k" using ttl_value_bounds [OF v(1)] by blast
  with v(2) ttls show ?thesis by simp
qed

text \<open>What a derived context guarantees.\<close>

lemma derive_cases:
  assumes "derive_auth_context row vw source ep ttls = Some ctx"
  obtains profile where "profile_of (py_get row ''kind'') = Some profile"
    "common_rules row vw ep profile" "kind_rules row source profile ttls"
    "a_actor ctx = pr_actor profile" "a_kind ctx = py_get row ''kind''"
    "a_view ctx = py_get row ''agent_view_id''" "a_expires ctx = int_of (py_get row ''expires_at'')"
    "a_single_use ctx = (py_get row ''kind'' \<in> set SINGLE_USE_KINDS)"
    "a_permitted ctx = (if pr_source profile = None then None
                        else Some (items_of (py_get source ''permitted_tools'')))"
    "a_job ctx = py_get row ''job_id''" "a_subject ctx = py_get row ''subject_id''"
  using assms by (auto simp: derive_auth_context_def split: if_splits option.splits)

lemma profile_cases:
  assumes "profile_of k = Some p"
  obtains "k = PyStr ''mcp_job''" "pr_actor p = ''agent''" "pr_source p = None"
  | "k = PyStr ''mcp_interactive''" "pr_actor p = ''agent''" "pr_source p = None"
  | "k = PyStr ''internal_rest''" "pr_actor p = ''service''" "pr_source p = None"
  | "k = PyStr ''user_session''" "pr_actor p = ''user''" "pr_source p = Some ''session''"
      "pr_ttl p = ''session_max_ttl''"
  | "k = PyStr ''miniapp''" "pr_actor p = ''user''" "pr_source p = Some ''launch''"
      "pr_ttl p = ''launch_max_ttl''"
  using assms by (cases k) (auto simp: KINDS_def split: if_splits)

end
