(* ===== verification/Capability.thy ===== *)
theory Capability
  imports Auth_Context Publisher
begin

text \<open>
  \<open>toolbox_capability.py\<close>: the table of capability tokens. Only a hash of a token is stored, so
  the hash (\<open>sha256\<close>) and the random token are arguments. \<open>test_mode\<close> is what
  \<open>test_run.require_test_mode\<close> finds.
\<close>

section \<open>Constants\<close>

definition CAP_KINDS :: "string list" where
  "CAP_KINDS = [''mcp_job'', ''mcp_interactive'', ''internal_rest'', ''user_session'', ''miniapp'']"

definition USER_KINDS :: "string list" where
  "USER_KINDS = [''user_session'', ''miniapp'']"

definition cap_actor :: "string \<Rightarrow> string" where
  "cap_actor kind = (if kind = ''mcp_job'' \<or> kind = ''mcp_interactive'' then ''agent''
     else if kind = ''internal_rest'' then ''service'' else ''user'')"

definition cap_source_kind :: "string \<Rightarrow> string option" where
  "cap_source_kind kind = (if kind = ''user_session'' then Some ''session''
     else if kind = ''miniapp'' then Some ''launch'' else None)"

definition issue_endpoint :: "string \<Rightarrow> pyval \<Rightarrow> pyval \<Rightarrow> string option" where
  "issue_endpoint kind view transport =
     (if kind = ''mcp_job'' \<or> kind = ''mcp_interactive''
      then (if transport = PyStr ''http'' then Some ''mcp''
            else if transport = PyStr ''sse'' then Some ''sse'' else None)
      else if transport \<noteq> PyStr ''http'' then None
      else if kind = ''internal_rest''
      then Some (if view = PyNone then ''config_test'' else ''api'')
      else Some ''invoke'')"

definition LEGACY_REST_SUBJECT :: string where
  "LEGACY_REST_SUBJECT = ''service:legacy-internal-rest''"

definition MCP_CAPABILITY_TTL_SECONDS :: int where "MCP_CAPABILITY_TTL_SECONDS = 86400"
definition REST_CAPABILITY_TTL_SECONDS :: int where "REST_CAPABILITY_TTL_SECONDS = 120"
definition SSE_CAPABILITY_TTL_SECONDS :: int where "SSE_CAPABILITY_TTL_SECONDS = 14400"

section \<open>Issuing\<close>

record issue =
  i_kind :: string
  i_view :: pyval
  i_job :: pyval
  i_ttl :: int
  i_transports :: pyval
  i_subject :: "string option"
  i_workspace :: pyval
  i_execution :: "string option"
  i_app :: pyval
  i_ceiling :: "string list option"
  i_source_id :: "string option"
  i_test :: "pyval option"

datatype issue_error =
    UnknownKind
  | TtlNotPositive
  | ViewlessKind
  | BadViewId
  | BadJobId
  | NotAnAgentRun
  | NotTestMode
  | NoTransport
  | NoSubject
  | ViewNotFound
  | WorkspaceDisagrees
  | AuthConfigError
  | WouldFailVerification

definition py_opt :: "string option \<Rightarrow> pyval" where
  "py_opt v = (case v of None \<Rightarrow> PyNone | Some s \<Rightarrow> PyStr s)"

fun opt_str :: "pyval \<Rightarrow> string option" where
  "opt_str (PyStr s) = Some s"
| "opt_str _ = None"

fun opt_nat :: "pyval \<Rightarrow> nat option" where
  "opt_nat (PyInt n) = Some (nat n)"
| "opt_nat _ = None"

text \<open>The row the verifier would see, with the clock at the issue.\<close>

definition issue_row :: "issue \<Rightarrow> int \<Rightarrow> string \<Rightarrow> pyval \<Rightarrow> pyval" where
  "issue_row i ttl subject workspace = PyDict
     [(PyStr ''id'', PyNone), (PyStr ''kind'', PyStr (i_kind i)),
      (PyStr ''actor'', PyStr (cap_actor (i_kind i))), (PyStr ''subject_id'', PyStr subject),
      (PyStr ''on_behalf_of'', PyNone), (PyStr ''agent_view_id'', i_view i),
      (PyStr ''workspace_id'', workspace),
      (PyStr ''job_id'', if i_job i = PyNone then PyNone else PyStr (str_nat (nat (int_of (i_job i))))),
      (PyStr ''execution_id'', py_opt (i_execution i)),
      (PyStr ''app_artifact_code'', py_get (i_app i) ''artifact_code''),
      (PyStr ''app_version_id'', py_get (i_app i) ''version_id''),
      (PyStr ''app_launch_id'', py_get (i_app i) ''launch_id''),
      (PyStr ''tool_ceiling'', case i_ceiling i of None \<Rightarrow> PyNone | Some ts \<Rightarrow> PyList (map PyStr ts)),
      (PyStr ''allowed_transports'', i_transports i),
      (PyStr ''source_kind'', py_opt (cap_source_kind (i_kind i))),
      (PyStr ''source_id'', py_opt (i_source_id i)),
      (PyStr ''created_at'', PyInt 0), (PyStr ''expires_at'', PyInt ttl)]"

definition synthetic_source :: "pyval \<Rightarrow> pyval" where
  "synthetic_source row = PyDict
     [(PyStr ''kind'', py_get row ''source_kind''), (PyStr ''id'', py_get row ''source_id''),
      (PyStr ''user_id'', py_get row ''subject_id''),
      (PyStr ''workspace_id'', py_get row ''workspace_id''),
      (PyStr ''agent_view_id'', py_get row ''agent_view_id''),
      (PyStr ''launch_id'', py_get row ''app_launch_id''),
      (PyStr ''artifact_code'', py_get row ''app_artifact_code''),
      (PyStr ''version_id'', py_get row ''app_version_id''),
      (PyStr ''permitted_tools'', PyList []), (PyStr ''created_at'', PyInt 0),
      (PyStr ''expires_at'', py_get row ''expires_at'')]"

definition validate_issuable ::
    "auth_config \<Rightarrow> string \<Rightarrow> pyval \<Rightarrow> pyval \<Rightarrow> issue_error option" where
  "validate_issuable cfg kind row view_workspace =
     (let user = kind \<in> set USER_KINDS;
          ttls = (if user then resolve_auth_ttls cfg (opt_nat (py_get row ''workspace_id''))
                  else Some PyNone);
          source = (if user then synthetic_source row else PyNone) in
      case ttls of
        None \<Rightarrow> Some AuthConfigError
      | Some ttl_caps \<Rightarrow>
          if \<forall>t \<in> set (items_of (py_get row ''allowed_transports'')).
               (case issue_endpoint kind (py_get row ''agent_view_id'') t of
                  None \<Rightarrow> False
                | Some ep \<Rightarrow> derive_auth_context row view_workspace source ep ttl_caps \<noteq> None)
          then None else Some WouldFailVerification)"

text \<open>The checks on the arguments, before the database is read.\<close>

definition issue_guard :: "bool \<Rightarrow> issue \<Rightarrow> issue_error option" where
  "issue_guard test_mode i =
     (let kind = i_kind i; agent = (kind = ''mcp_job'' \<or> kind = ''mcp_interactive'') in
      if kind \<notin> set CAP_KINDS then Some UnknownKind
      else if i_ttl i \<le> 0 then Some TtlNotPositive
      else if i_view i = PyNone \<and> kind \<notin> set USER_KINDS
              \<and> (kind \<noteq> ''internal_rest'' \<or> i_job i \<noteq> PyNone) then Some ViewlessKind
      else if i_view i \<noteq> PyNone \<and> \<not> is_positive_int (i_view i) then Some BadViewId
      else if kind = ''mcp_job'' \<and> \<not> is_positive_int (i_job i) then Some BadJobId
      else if kind = ''mcp_interactive'' \<and> i_job i \<noteq> PyNone then Some BadJobId
      else if kind = ''internal_rest'' \<and> i_job i \<noteq> PyNone \<and> \<not> is_positive_int (i_job i)
      then Some BadJobId
      else if i_test i \<noteq> None \<and> \<not> agent then Some NotAnAgentRun
      else if i_test i \<noteq> None \<and> \<not> test_mode then Some NotTestMode
      else if items_of (i_transports i) = [] then Some NoTransport
      else if \<not> agent \<and> (\<not> truthy (i_subject i) \<or> i_subject i = Some LEGACY_REST_SUBJECT)
      then Some NoSubject
      else None)"

definition issue_ttl :: "issue \<Rightarrow> int" where
  "issue_ttl i = (if PyStr ''sse'' \<in> set (items_of (i_transports i))
                  then min (i_ttl i) SSE_CAPABILITY_TTL_SECONDS else i_ttl i)"

definition issue_subject :: "issue \<Rightarrow> string" where
  "issue_subject i = (case i_subject i of Some s \<Rightarrow> s | None \<Rightarrow> str_nat (nat (int_of (i_view i))))"

text \<open>The workspace: the view's own, or the one that was given.\<close>

definition issue_workspace :: "issue \<Rightarrow> db \<Rightarrow> issue_error + (pyval \<times> pyval)" where
  "issue_workspace i d =
     (if i_view i = PyNone then Inr (PyNone, i_workspace i)
      else case map_of (views d) (nat (int_of (i_view i))) of
             None \<Rightarrow> Inl ViewNotFound
           | Some w \<Rightarrow>
               if i_workspace i \<noteq> PyNone \<and> \<not> py_eq (i_workspace i) (PyInt (int w))
               then Inl WorkspaceDisagrees
               else Inr (PyInt (int w), PyInt (int w)))"

definition cap_of_issue :: "(string \<Rightarrow> string) \<Rightarrow> string \<Rightarrow> issue \<Rightarrow> pyval \<Rightarrow> db \<Rightarrow> cap_row" where
  "cap_of_issue sha256 token i workspace d =
     \<lparr>c_hash = sha256 token, c_kind = i_kind i, c_view = opt_nat (i_view i),
      c_job = opt_nat (i_job i), c_expires = now_s d + nat (issue_ttl i), c_revoked = None,
      c_created = now_s d, c_actor = cap_actor (i_kind i), c_subject = issue_subject i,
      c_workspace = opt_nat workspace, c_execution = i_execution i,
      c_app = (case (opt_str (py_get (i_app i) ''artifact_code''),
                     opt_str (py_get (i_app i) ''version_id''),
                     opt_str (py_get (i_app i) ''launch_id'')) of
                 (Some a, Some v, Some l) \<Rightarrow> Some (a, v, l) | _ \<Rightarrow> None),
      c_ceiling = i_ceiling i,
      c_transports = map (\<lambda>t. case t of PyStr s \<Rightarrow> s | _ \<Rightarrow> '''') (items_of (i_transports i)),
      c_source_kind = cap_source_kind (i_kind i), c_source_id = i_source_id i, c_test = i_test i\<rparr>"

definition issue_capability ::
    "auth_config \<Rightarrow> bool \<Rightarrow> (string \<Rightarrow> string) \<Rightarrow> string \<Rightarrow> issue \<Rightarrow> db \<Rightarrow> issue_error + db" where
  "issue_capability cfg test_mode sha256 token i d =
     (case issue_guard test_mode i of
        Some e \<Rightarrow> Inl e
      | None \<Rightarrow>
          (case issue_workspace i d of
             Inl e \<Rightarrow> Inl e
           | Inr (view_workspace, workspace) \<Rightarrow>
               (case validate_issuable cfg (i_kind i)
                       (issue_row i (issue_ttl i) (issue_subject i) workspace) view_workspace of
                  Some e \<Rightarrow> Inl e
                | None \<Rightarrow> Inr (d\<lparr>caps := caps d @ [cap_of_issue sha256 token i workspace d]\<rparr>))))"

section \<open>Revoking and purging\<close>

definition revoke_job_capabilities :: "nat \<Rightarrow> db \<Rightarrow> nat \<times> db" where
  "revoke_job_capabilities job_id d =
     (let p = (\<lambda>c. c_job c = Some job_id \<and> c_revoked c = None);
          f = (\<lambda>c. c\<lparr>c_revoked := Some (now_s d)\<rparr>)
      in (changed p f (caps d), d\<lparr>caps := update_where p f (caps d)\<rparr>))"

definition revoke_capability :: "(string \<Rightarrow> string) \<Rightarrow> string \<Rightarrow> db \<Rightarrow> bool \<times> db" where
  "revoke_capability sha256 token d =
     (let p = (\<lambda>c. c_hash c = sha256 token \<and> c_revoked c = None);
          f = (\<lambda>c. c\<lparr>c_revoked := Some (now_s d)\<rparr>)
      in (0 < changed p f (caps d), d\<lparr>caps := update_where p f (caps d)\<rparr>))"

definition purge_expired_capabilities :: "nat \<Rightarrow> db \<Rightarrow> nat \<times> db" where
  "purge_expired_capabilities older_than_seconds d =
     (let old = (\<lambda>c. c_expires c + older_than_seconds < now_s d)
      in (length (filter old (caps d)), d\<lparr>caps := filter (\<lambda>c. \<not> old c) (caps d)\<rparr>))"

text \<open>
  \<open>rest_capability\<close> around a block. The block may raise; \<open>revoke_fails\<close> says that the revoke's own
  connection failed.
\<close>

datatype 'e scoped_error = BlockRaised 'e | RevokeFailed | IssueFailed issue_error

definition rest_issue :: "pyval \<Rightarrow> string \<Rightarrow> int \<Rightarrow> issue" where
  "rest_issue view subject ttl =
     \<lparr>i_kind = ''internal_rest'', i_view = view, i_job = PyNone, i_ttl = ttl,
      i_transports = PyList [PyStr ''http''], i_subject = Some subject, i_workspace = PyNone,
      i_execution = None, i_app = PyNone, i_ceiling = None, i_source_id = None, i_test = None\<rparr>"

definition rest_capability ::
    "auth_config \<Rightarrow> (string \<Rightarrow> string) \<Rightarrow> string \<Rightarrow> pyval \<Rightarrow> string \<Rightarrow> int
      \<Rightarrow> (string \<Rightarrow> db \<Rightarrow> ('e + 'a) \<times> db) \<Rightarrow> bool \<Rightarrow> db \<Rightarrow> ('e scoped_error + 'a) \<times> db" where
  "rest_capability cfg sha256 token view subject ttl block revoke_fails d =
     (case issue_capability cfg False sha256 token (rest_issue view subject ttl) d of
        Inl e \<Rightarrow> (Inl (IssueFailed e), d)
      | Inr d1 \<Rightarrow>
          (let (result, d2) = block token d1;
               d3 = (if revoke_fails then d2 else snd (revoke_capability sha256 token d2))
           in (case result of
                 Inl e \<Rightarrow> Inl (BlockRaised e)
               | Inr a \<Rightarrow> if revoke_fails then Inl RevokeFailed else Inr a, d3)))"

section \<open>Facts\<close>

definition cap_live :: "db \<Rightarrow> cap_row \<Rightarrow> bool" where
  "cap_live d c \<longleftrightarrow> c_revoked c = None \<and> now_s d < c_expires c"

lemma revoke_tables [simp]:
  "jobs (snd (revoke_job_capabilities j d)) = jobs d"
  "threads (snd (revoke_job_capabilities j d)) = threads d"
  "stretches (snd (revoke_job_capabilities j d)) = stretches d"
  "outbox (snd (revoke_job_capabilities j d)) = outbox d"
  "creds (snd (revoke_job_capabilities j d)) = creds d"
  "now_us (snd (revoke_job_capabilities j d)) = now_us d"
  "next_job (snd (revoke_job_capabilities j d)) = next_job d"
  "next_thread (snd (revoke_job_capabilities j d)) = next_thread d"
  "next_stretch (snd (revoke_job_capabilities j d)) = next_stretch d"
  "next_outbox (snd (revoke_job_capabilities j d)) = next_outbox d"
  "events (snd (revoke_job_capabilities j d)) = events d"
  "closes (snd (revoke_job_capabilities j d)) = closes d"
  "views (snd (revoke_job_capabilities j d)) = views d"
  by (simp_all add: revoke_job_capabilities_def Let_def)

lemma revoke_job_caps:
  "c \<in> set (caps (snd (revoke_job_capabilities j d))) \<longleftrightarrow>
     (\<exists>c0 \<in> set (caps d). c = (if c_job c0 = Some j \<and> c_revoked c0 = None
                              then c0\<lparr>c_revoked := Some (now_s d)\<rparr> else c0))"
  by (simp add: revoke_job_capabilities_def Let_def in_update_where)

lemma revoke_job_none_live:
  "c \<in> set (caps (snd (revoke_job_capabilities j d))) \<Longrightarrow> c_job c = Some j \<Longrightarrow> c_revoked c \<noteq> None"
proof -
  assume c: "c \<in> set (caps (snd (revoke_job_capabilities j d)))" "c_job c = Some j"
  obtain c0 where "c = (if c_job c0 = Some j \<and> c_revoked c0 = None
      then c0\<lparr>c_revoked := Some (now_s d)\<rparr> else c0)"
    using c(1) unfolding revoke_job_caps by blast
  with c(2) show "c_revoked c \<noteq> None"
    by (cases "c_job c0 = Some j \<and> c_revoked c0 = None") auto
qed

lemma revoke_none_live:
  "c \<in> set (caps (snd (revoke_capability sha token d))) \<Longrightarrow> c_hash c = sha token
    \<Longrightarrow> c_revoked c \<noteq> None"
proof -
  assume c: "c \<in> set (caps (snd (revoke_capability sha token d)))" "c_hash c = sha token"
  obtain c0 where "c = (if c_hash c0 = sha token \<and> c_revoked c0 = None
      then c0\<lparr>c_revoked := Some (now_s d)\<rparr> else c0)"
    using c(1) by (auto simp: revoke_capability_def Let_def in_update_where)
  with c(2) show "c_revoked c \<noteq> None"
    by (cases "c_hash c0 = sha token \<and> c_revoked c0 = None") auto
qed

lemma issue_capabilityD:
  assumes "issue_capability cfg tm sha token i d = Inr d'"
  obtains ws vw where "issue_guard tm i = None" "issue_workspace i d = Inr (vw, ws)"
    "validate_issuable cfg (i_kind i) (issue_row i (issue_ttl i) (issue_subject i) ws) vw = None"
    "d' = d\<lparr>caps := caps d @ [cap_of_issue sha token i ws d]\<rparr>"
  using assms by (auto simp: issue_capability_def split: option.splits sum.splits)

text \<open>The row of a run: the issue the consumer makes for a claimed job always succeeds.\<close>

definition run_issue :: "nat \<Rightarrow> nat \<Rightarrow> string option \<Rightarrow> pyval option \<Rightarrow> issue" where
  "run_issue view job execution test =
     \<lparr>i_kind = ''mcp_job'', i_view = PyInt (int view), i_job = PyInt (int job),
      i_ttl = MCP_CAPABILITY_TTL_SECONDS, i_transports = PyList [PyStr ''http''], i_subject = None,
      i_workspace = PyNone, i_execution = execution, i_app = PyNone, i_ceiling = None,
      i_source_id = None, i_test = test\<rparr>"

lemma str_nat_decimal: "0 < n \<Longrightarrow> positive_decimal (str_nat n)"
proof -
  have head: "hd (str_nat n) \<noteq> CHR ''0''" if "0 < n" for n
    using that
  proof (induction n rule: str_nat.induct)
    case (1 n)
    show ?case
    proof (cases "n < 10")
      case True
      with 1(2) less_10_cases [OF True] show ?thesis
        by (auto simp: digit_char_def str_nat.simps [of n])
    next
      case False
      then show ?thesis using 1 by (simp add: hd_append str_nat.simps [of n])
    qed
  qed
  assume "0 < n"
  moreover have "\<forall>c \<in> set (str_nat n). is_digit c" using str_nat_digits by blast
  moreover have "hd (str_nat n) \<in> set (str_nat n)" "set (tl (str_nat n)) \<subseteq> set (str_nat n)"
    by (auto simp: list.set_sel(2) intro!: list.set_sel(1))
  ultimately show ?thesis using head by (auto simp: positive_decimal_def)
qed

lemma run_issue_ok:
  assumes ids: "0 < job" "0 < view" "map_of (views d) view = Some w" "0 < w"
    and ex: "execution \<noteq> Some ''''" and test: "test \<noteq> None \<longrightarrow> tm"
  shows "issue_capability cfg tm sha token (run_issue view job execution test) d
    = Inr (d\<lparr>caps := caps d @ [cap_of_issue sha token (run_issue view job execution test)
             (PyInt (int w)) d]\<rparr>)"
proof -
  let ?i = "run_issue view job execution test"
  have guard: "issue_guard tm ?i = None"
    using ids test by (auto simp: issue_guard_def run_issue_def CAP_KINDS_def Let_def
        MCP_CAPABILITY_TTL_SECONDS_def)
  have ws: "issue_workspace ?i d = Inr (PyInt (int w), PyInt (int w))"
    using ids by (simp add: issue_workspace_def run_issue_def)
  have dec: "re_match_dollar positive_decimal (str_nat job)"
    using str_nat_decimal [OF ids(1)] by (simp add: re_match_dollar_def)
  have valid: "validate_issuable cfg (i_kind ?i)
      (issue_row ?i (issue_ttl ?i) (issue_subject ?i) (PyInt (int w))) (PyInt (int w)) = None"
    using ids ex dec
    by (cases execution) (simp_all add: validate_issuable_def Let_def run_issue_def USER_KINDS_def
        issue_row_def
        issue_endpoint_def derive_auth_context_def KINDS_def ENDPOINT_TRANSPORT_def common_rules_def
        allowed_endpoints_def MCP_ENDPOINTS_def kind_rules_def agent_only_nulls_def py_eq_def
        issue_subject_def cap_actor_def cap_source_kind_def py_opt_def)
  show ?thesis by (simp add: issue_capability_def guard ws valid)
qed

end
