(* ===== verification/Credential_Resolver.thy ===== *)
theory Credential_Resolver
  imports Credential_Store
begin

text \<open>
  \<open>agent_manager/credential_resolver.py\<close>, the errors it raises (\<open>agent_manager/errors.py\<close>) and
  the observer that wakes the jobs that wait for a credential (\<open>modules/core/src/observers.py\<close>).
  The waits between two rounds of \<open>resolve\<close> are a list: what the other workers did to the
  database during each sleep. It ends where the deadline has passed.
\<close>

section \<open>Policy\<close>

definition DEFAULT_REFRESH_HORIZON_SECONDS :: int where
  "DEFAULT_REFRESH_HORIZON_SECONDS = 2100"

definition DEFAULT_LEASE_TTL_SECONDS :: nat where "DEFAULT_LEASE_TTL_SECONDS = 300"

definition AUTH_WAIT_RETRY :: nat where "AUTH_WAIT_RETRY = 15 * 60"

text \<open>
  \<open>ttl_of\<close> is the lifetime the harness's adapter reports; \<open>None\<close> when there is no adapter, the
  hook raises, or it does not know.
\<close>

definition refresh_imminent :: "(cred_row \<Rightarrow> int option) \<Rightarrow> int \<Rightarrow> cred_row \<Rightarrow> bool" where
  "refresh_imminent ttl_of horizon k =
     (if \<not> py_truth (py_get (case k_payload k of None \<Rightarrow> PyDict [] | Some p \<Rightarrow> p) ''refresh_token'')
      then False
      else case ttl_of k of None \<Rightarrow> True | Some ttl \<Rightarrow> ttl \<le> horizon)"

text \<open>In microseconds, as a Python \<open>datetime\<close>.\<close>

definition auth_wait_retry_at :: "db \<Rightarrow> nat" where
  "auth_wait_retry_at d = now_us d + usec AUTH_WAIT_RETRY"

section \<open>Resolving\<close>

datatype resolve_error =
    PinnedNotUsable nat
  | CredentialsUnavailable nat
  | CredentialsBusy "nat option"

text \<open>The exception a job ends with; its text, which nothing reads, is shortened.\<close>

fun resolve_exn :: "resolve_error \<Rightarrow> exn" where
  "resolve_exn (PinnedNotUsable i) =
     plain_exn ''RuntimeError'' (''Credential id='' @ str_nat i @ '' is not usable'')"
| "resolve_exn (CredentialsUnavailable t) =
     (plain_exn ''CredentialsUnavailableError'' ''no usable credential'')\<lparr>x_pool_retry_at := Some t\<rparr>"
| "resolve_exn (CredentialsBusy t) =
     (plain_exn ''CredentialsBusyError'' ''pool busy'')\<lparr>x_pool_retry_at := t\<rparr>"

definition resolve_lease ::
    "(cred_row \<Rightarrow> int option) \<Rightarrow> int \<Rightarrow> nat \<Rightarrow> string option \<Rightarrow> refresh_lease option" where
  "resolve_lease ttl_of horizon ttl lease_owner =
     (if truthy lease_owner
      then Some \<lparr>l_owner = the lease_owner, l_ttl = ttl, l_should = refresh_imminent ttl_of horizon\<rparr>
      else None)"

text \<open>What is raised after the last round, from the counts that round saw.\<close>

definition resolve_failure :: "string \<Rightarrow> db \<Rightarrow> resolve_error" where
  "resolve_failure scope d =
     (let (total, healthy) = count_credentials_for_scope scope d in
      if total = 0 then CredentialsUnavailable (auth_wait_retry_at d)
      else if 0 < healthy
      then CredentialsBusy (map_option usec (earliest_lease_expiry_for_scope scope d))
      else CredentialsUnavailable (auth_wait_retry_at d))"

fun resolve_rounds ::
    "string \<Rightarrow> refresh_lease option \<Rightarrow> nat option \<Rightarrow> (db \<Rightarrow> db) list \<Rightarrow> db
      \<Rightarrow> (resolve_error + cred_row) \<times> db" where
  "resolve_rounds scope lease cid sleeps d =
     (case select_credential scope lease cid d of
        (Some k, d') \<Rightarrow> (Inr k, d')
      | (None, d') \<Rightarrow>
          (case cid of
             Some i \<Rightarrow> (Inl (PinnedNotUsable i), d')
           | None \<Rightarrow>
               (let (total, healthy) = count_credentials_for_scope scope d' in
                if total = 0 \<or> healthy = 0 then (Inl (resolve_failure scope d'), d')
                else case sleeps of
                       [] \<Rightarrow> (Inl (resolve_failure scope d'), d')
                     | others # rest \<Rightarrow> resolve_rounds scope lease cid rest (others d'))))"

declare resolve_rounds.simps [simp del]

definition resolve ::
    "(cred_row \<Rightarrow> int option) \<Rightarrow> int \<Rightarrow> nat \<Rightarrow> string \<Rightarrow> string option \<Rightarrow> nat option
      \<Rightarrow> (db \<Rightarrow> db) list \<Rightarrow> db \<Rightarrow> (resolve_error + cred_row) \<times> db" where
  "resolve ttl_of horizon ttl scope lease_owner cid sleeps d =
     resolve_rounds scope (resolve_lease ttl_of horizon ttl lease_owner) cid sleeps d"

section \<open>Waking the jobs that wait\<close>

definition WAKE_BATCH :: nat where "WAKE_BATCH = 200"

definition auth_waiting :: "job_row \<Rightarrow> bool" where
  "auth_waiting r \<longleftrightarrow> j_status r = TODO \<and> j_error_class r = Some ''CredentialsUnavailableError''"

definition auth_waiting_ids :: "db \<Rightarrow> nat list" where
  "auth_waiting_ids d = take WAKE_BATCH (sort (map j_id (filter auth_waiting (jobs d))))"

definition wake_auth_waiting_jobs :: "db \<Rightarrow> nat \<times> db" where
  "wake_auth_waiting_jobs d =
     (let ids = auth_waiting_ids d in
      (length ids,
       if ids = [] then d
       else update_jobs (\<lambda>r. j_id r \<in> set ids \<and> auth_waiting r)
              (\<lambda>r. r\<lparr>j_sched := min (j_sched r) (now_s d)\<rparr>) d))"

section \<open>Facts\<close>

lemma resolve_pinned:
  "fst (resolve_rounds scope lease (Some i) sleeps d) = Inl e \<Longrightarrow> e = PinnedNotUsable i"
  by (subst (asm) resolve_rounds.simps) (auto split: prod.splits option.splits)

text \<open>Every result that is a credential is one that a claim handed out.\<close>

lemma resolve_rounds_Inr:
  assumes "resolve_rounds scope lease cid sleeps d = (Inr k, d')"
  shows "\<exists>d0. select_credential scope lease cid d0 = (Some k, d')"
  using assms
proof (induction sleeps arbitrary: d)
  case Nil
  then show ?case
    unfolding resolve_rounds.simps [of scope lease cid "[]" d]
    by (auto simp: Let_def split: prod.splits option.splits if_splits)
next
  case (Cons f sleeps)
  then show ?case
    unfolding resolve_rounds.simps [of scope lease cid "f # sleeps" d]
    by (auto simp: Let_def split: prod.splits option.splits if_splits)
qed

lemma fold_min_le: "x \<in> set xs \<or> x = a \<Longrightarrow> fold min xs a \<le> (x :: nat)"
proof (induction xs arbitrary: a x)
  case (Cons y xs)
  show ?case
  proof (cases "x \<in> set xs")
    case True
    then show ?thesis using Cons.IH by simp
  next
    case False
    with Cons.prems have "min y a \<le> x" by auto
    moreover have "fold min xs (min y a) \<le> min y a" using Cons.IH by blast
    ultimately have "fold min xs (min y a) \<le> x" by (meson order_trans)
    then show ?thesis by simp
  qed
qed simp

lemma fold_min_in: "fold min xs a \<in> insert (a :: nat) (set xs)"
proof (induction xs arbitrary: a)
  case (Cons y xs)
  have "fold min xs (min y a) \<in> insert (min y a) (set xs)" by (rule Cons.IH)
  moreover have "min y a = y \<or> min y a = a" by (simp add: min_def)
  ultimately show ?case by auto
qed simp

lemma min_opt_Some: "min_opt xs = Some m \<longleftrightarrow> m \<in> set xs \<and> (\<forall>x \<in> set xs. m \<le> x)"
proof (cases xs)
  case (Cons y ys)
  have "fold min ys y \<in> set xs" using fold_min_in [of ys y] Cons by simp
  moreover have "fold min ys y \<le> x" if "x \<in> set xs" for x
    using fold_min_le [of x ys y] that Cons by auto
  ultimately show ?thesis using Cons by (auto intro: order_antisym)
qed simp

lemma min_opt_None [simp]: "min_opt xs = None \<longleftrightarrow> xs = []"
  by (cases xs) simp_all

text \<open>A busy pool has a leased row, so it always gives a time to come back at.\<close>

lemma busy_has_time:
  assumes "fst (select_credential scope lease None d) = None"
    and "0 < snd (count_credentials_for_scope scope d)"
  shows "\<exists>u. earliest_lease_expiry_for_scope scope d = Some u \<and> now_s d < u"
proof -
  obtain k where k: "k \<in> set (creds d)" "k_scope k = scope" "usable d k" "unthrottled d k"
    using assms(2) by (auto simp: count_credentials_for_scope_def filter_empty_conv)
  then have "lease_active d k" using assms(1) by (auto simp: select_None candidate_def)
  with k have "earliest_lease_expiry_for_scope scope d \<noteq> None"
    by (auto simp: earliest_lease_expiry_for_scope_def filter_empty_conv)
  then obtain u where u: "earliest_lease_expiry_for_scope scope d = Some u" by blast
  then have "u \<in> (\<lambda>k. the (k_leased k)) ` {k \<in> set (creds d). lease_active d k}"
    unfolding earliest_lease_expiry_for_scope_def min_opt_Some by auto
  then have "now_s d < u" by (auto simp: lease_active_def split: option.splits)
  with u show ?thesis by blast
qed

end
