(* ===== verification/Runner_Client.thy ===== *)
theory Runner_Client
  imports Store
begin

text \<open>
  \<open>runner/client.py\<close>: what the framework learns about a run from the runner that owns it. The
  answer over the socket (\<open>_ask\<close>) is an argument: the runner's boot id with the state of the run,
  or none.
\<close>

datatype run_state = RunAlive | RunDead | RunUnknown

text \<open>\<open>ref.partition(":")[2]\<close>.\<close>

definition boot_of :: "string \<Rightarrow> string" where
  "boot_of ref = drop 1 (dropWhile (\<lambda>c. c \<noteq> CHR '':'') ref)"

type_synonym runner_ask = "string \<Rightarrow> string \<Rightarrow> (string \<times> run_state) option"

definition run_alive :: "runner_ask \<Rightarrow> string option \<Rightarrow> string \<Rightarrow> run_state" where
  "run_alive ask ref tag =
     (if \<not> truthy ref then RunDead
      else case ask (the ref) tag of
             None \<Rightarrow> RunUnknown
           | Some (boot, state) \<Rightarrow> if boot = boot_of (the ref) then state else RunDead)"

definition job_tag :: "nat \<Rightarrow> string" where
  "job_tag i = ''job:'' @ str_nat i"

text \<open>Silence never counts as death.\<close>

lemma silence_blocks: "truthy ref \<Longrightarrow> ask (the ref) tag = None \<Longrightarrow> run_alive ask ref tag = RunUnknown"
  by (simp add: run_alive_def)

lemma dead_means:
  "run_alive ask ref tag = RunDead \<longleftrightarrow>
     \<not> truthy ref \<or> (\<exists>boot state. ask (the ref) tag = Some (boot, state)
       \<and> (boot \<noteq> boot_of (the ref) \<or> state = RunDead))"
  by (auto simp: run_alive_def split: option.splits)

end
