(* ===== verification/Consumer_Finalize.thy ===== *)
theory Consumer_Finalize
  imports Consumer_Claim Capability Credential_Resolver Runner_Client
begin

text \<open>
  \<open>consumer.py\<close>, the end of an attempt: \<open>_transition\<close>, \<open>_finalize_job\<close>, \<open>_recover_stale_jobs\<close> and
  the capabilities of a run. What the other sessions commit between the status read and the
  UPDATE of a finalize, a failing connection or commit, the observers' verdict and the random
  jitter are arguments.
\<close>

section \<open>The coarse kind of a failure\<close>

definition CREDENTIAL_ERRORS :: "string list" where
  "CREDENTIAL_ERRORS =
     [''AuthenticationError'', ''TransientAuthError'', ''UsageLimitError'',
      ''CredentialsBusyError'', ''CredentialLeasedError'', ''CredentialsUnavailableError'']"

definition HARNESS_ERRORS :: "string list" where
  "HARNESS_ERRORS = [''CalledProcessError'', ''JobVerificationFailed'', ''StaleJobRecovery'']"

definition failure_kind :: "string option \<Rightarrow> string" where
  "failure_kind error_class =
     (case error_class of
        None \<Rightarrow> ''internal''
      | Some c \<Rightarrow> if c \<noteq> [] \<and> contains_str ''Timeout'' c then ''timeout''
                  else if c \<in> set CREDENTIAL_ERRORS then ''credential_error''
                  else if c \<in> set HARNESS_ERRORS then ''harness_error''
                  else ''internal'')"

section \<open>Leaving RUNNING\<close>

record how =
  h_status :: job_status
  h_msg :: string
  h_class :: string
  h_output :: "string option"
  h_session :: "string option"
  h_sched :: "nat option"
  h_refund :: bool
  h_revoke :: bool
  h_failed :: bool
  h_outcome :: outcome
  h_terminal :: bool
  h_after :: "event option"

text \<open>The finalizer's call, and the event to announce after the commit.\<close>

definition end_execution ::
    "nat \<Rightarrow> nat \<Rightarrow> string option \<Rightarrow> outcome \<Rightarrow> bool \<Rightarrow> db \<Rightarrow> event \<times> db" where
  "end_execution job_id attempt execution_id out job_terminal d =
     (if out = Abandoned then ExecutionAbandonAfter execution_id job_id attempt
      else ExecutionFinishAfter execution_id job_id attempt,
      d\<lparr>closes := closes d @ [\<lparr>f_job = job_id, f_attempt = attempt, f_execution = execution_id,
          f_outcome = out, f_terminal = job_terminal\<rparr>]\<rparr>)"

text \<open>\<open>GREATEST(attempt - 1, 0)\<close> is the subtraction of naturals.\<close>

definition left_row :: "how \<Rightarrow> nat \<Rightarrow> job_row \<Rightarrow> job_row" where
  "left_row h now r =
     r\<lparr>j_status := h_status h, j_finished := Some now,
       j_attempt := (if h_refund h then j_attempt r - 1 else j_attempt r),
       j_error_msg := Some (h_msg h), j_error_class := Some (h_class h),
       j_output := coalesce (h_output h) (j_output r),
       j_session := coalesce (h_session h) (j_session r),
       j_sched := (case h_sched h of Some s \<Rightarrow> s | None \<Rightarrow> j_sched r)\<rparr>"

definition failed_payload :: "nat \<Rightarrow> nat \<Rightarrow> string \<Rightarrow> string option \<Rightarrow> pyval" where
  "failed_payload job_id attempt error_class execution_id =
     PyDict [(PyStr ''job_id'', PyInt (int job_id)), (PyStr ''attempt'', PyInt (int attempt)),
             (PyStr ''kind'', PyStr (failure_kind (Some error_class))),
             (PyStr ''execution_id'', py_opt execution_id)]"

definition transition ::
    "nat \<Rightarrow> nat \<Rightarrow> string option \<Rightarrow> how \<Rightarrow> db \<Rightarrow> outbox_error + (event list \<times> db)" where
  "transition job_id attempt execution_id h d =
     (let d1 = update_jobs (\<lambda>r. j_id r = job_id \<and> j_status r = RUNNING) (left_row h (now_us d)) d;
          d2 = (if h_revoke h then snd (revoke_job_capabilities job_id d1) else d1);
          (announce, d3) = end_execution job_id attempt execution_id (h_outcome h) (h_terminal h) d2;
          events = announce # (case h_after h of None \<Rightarrow> [] | Some e \<Rightarrow> [e])
      in if h_failed h
         then (case write_outbox job_id ''job.failed''
                      (failed_payload job_id attempt (h_class h) execution_id) execution_id d3 of
                 Inl e \<Rightarrow> Inl e
               | Inr (_, d4) \<Rightarrow> Inr (events, d4))
         else Inr (events, d3))"

section \<open>Finalizing\<close>

record run_result =
  u_summary :: string
  u_agent_type :: "string option"
  u_model :: "string option"
  u_input :: "nat option"
  u_output_tokens :: "nat option"
  u_prompt :: "string option"
  u_output :: "string option"
  u_session :: "string option"

definition AUTH_WAIT_MAX :: nat where "AUTH_WAIT_MAX = 24 * 3600"

definition success_row :: "run_result option \<Rightarrow> nat \<Rightarrow> job_row \<Rightarrow> job_row" where
  "success_row res now r =
     r\<lparr>j_status := SUCCESS, j_finished := Some now,
       j_summary := map_option u_summary res,
       j_input_tokens := Option.bind res u_input, j_output_tokens := Option.bind res u_output_tokens,
       j_prompt := Option.bind res u_prompt, j_output := Option.bind res u_output\<rparr>"

definition error_fresh_start :: "exn \<Rightarrow> bool" where
  "error_fresh_start e \<longleftrightarrow> (case x_verdict e of Some v \<Rightarrow> v_fresh_start v | None \<Rightarrow> False)"

definition error_blocked :: "exn \<Rightarrow> bool" where
  "error_blocked e \<longleftrightarrow> (case x_verdict e of Some v \<Rightarrow> v_blocked v | None \<Rightarrow> False)"

text \<open>\<open>created_at < now - 24h\<close>, in microseconds.\<close>

definition auth_wait_expired :: "job \<Rightarrow> exn \<Rightarrow> nat \<Rightarrow> bool" where
  "auth_wait_expired job e now \<longleftrightarrow> x_class e = ''CredentialsUnavailableError''
     \<and> usec (j_created job) + usec AUTH_WAIT_MAX < now"

text \<open>Which way a failed attempt goes, with the row's next \<open>scheduled_after\<close> and its event.\<close>

definition failure_how :: "job \<Rightarrow> exn \<Rightarrow> run_result option \<Rightarrow> nat \<Rightarrow> nat \<Rightarrow> how" where
  "failure_how job e res jitter now =
     (let decision = evaluate (Some (x_class e)) (j_attempt job) (j_max job) (Some e);
          session = (case Option.bind res u_session of Some s \<Rightarrow> Some s | None \<Rightarrow> x_session e);
          expired = auth_wait_expired job e now;
          h = \<lparr>h_status = DEAD, h_msg = take 2000 (x_msg e), h_class = x_class e,
                h_output = x_agent_output e,
                h_session = (if error_fresh_start e then None else session), h_sched = None,
                h_refund = False, h_revoke = True, h_failed = True, h_outcome = Failed,
                h_terminal = True, h_after = Some (JobDeadAfter (j_id job))\<rparr>
      in if x_pool_retry_at e \<noteq> None \<and> \<not> expired
         then (let due = the (x_pool_retry_at e) + usec jitter in
               h\<lparr>h_status := TODO, h_sched := Some (stored_ts due), h_refund := True,
                 h_revoke := False, h_failed := False, h_outcome := Abandoned, h_terminal := False,
                 h_after := Some (JobRetryAfter (j_id job) ((due - now) div 1000000))\<rparr>)
         else if should_retry decision \<and> \<not> expired
         then h\<lparr>h_status := TODO, h_sched := Some (stored_ts (now + usec (delay_seconds decision))),
                h_terminal := False, h_after := Some (JobRetryAfter (j_id job) (delay_seconds decision))\<rparr>
         else if error_blocked e
         then h\<lparr>h_status := FAILED, h_revoke := False,
                h_after := Some (JobBlockedAfter (j_id job))\<rparr>
         else h)"

datatype db_fault = NoFault | CheckoutFails | CommitFails

record db_try =
  y_fault :: db_fault
  y_others :: "db \<Rightarrow> db"
  y_jitter :: nat

text \<open>
  The transaction of one try: the events it dispatches before the commit, and either a
  rollback or the events to announce, the database, and whether the row was ours to finalize.
\<close>

definition finalize_success :: "job \<Rightarrow> run_result option \<Rightarrow> db \<Rightarrow> event list \<times> db" where
  "finalize_success job res d =
     (let d1 = update_jobs (\<lambda>r. j_id r = j_id job \<and> j_status r = RUNNING)
                 (success_row res (now_us d)) d;
          d2 = snd (revoke_job_capabilities (j_id job) d1);
          (announce, d3) = end_execution (j_id job) (j_attempt job) (j_execution job) Succeeded True d2
      in ([announce, JobSucceedAfter (j_id job)], d3))"

definition finalize_failure ::
    "job \<Rightarrow> exn \<Rightarrow> run_result option \<Rightarrow> nat \<Rightarrow> db \<Rightarrow> outbox_error + (event list \<times> db)" where
  "finalize_failure job e res jitter d =
     (let d1 = (if error_fresh_start e
                then update_jobs (\<lambda>r. j_id r = j_id job) (\<lambda>r. r\<lparr>j_session := None\<rparr>) d else d)
      in transition (j_id job) (j_attempt job) (j_execution job)
           (failure_how job e res jitter (now_us d)) d1)"

definition is_running :: "nat \<Rightarrow> db \<Rightarrow> bool" where
  "is_running job_id d \<longleftrightarrow> map_option j_status (find_job d job_id) = Some RUNNING"

definition vetoed :: "exn option \<Rightarrow> bool \<Rightarrow> verdict option \<Rightarrow> exn option" where
  "vetoed error dispatched veto =
     (if error = None \<and> \<not> dispatched then map_option verification_failed veto else error)"

definition finalize_tx ::
    "job \<Rightarrow> exn option \<Rightarrow> run_result option \<Rightarrow> nat \<Rightarrow> db \<Rightarrow> outbox_error + (event list \<times> db)" where
  "finalize_tx job error res jitter d =
     (case error of
        None \<Rightarrow> Inr (finalize_success job res d)
      | Some e \<Rightarrow> finalize_failure job e res jitter d)"

text \<open>Finalizing a job that is no longer RUNNING abandons the execution and leaves the row.\<close>

definition finalize_skip :: "job \<Rightarrow> db \<Rightarrow> event list \<times> db" where
  "finalize_skip job d =
     (let (announce, d') = end_execution (j_id job) (j_attempt job) (j_execution job) Abandoned False d
      in ([announce], d'))"

fun finalize_loop ::
    "job \<Rightarrow> exn option \<Rightarrow> run_result option \<Rightarrow> verdict option \<Rightarrow> bool \<Rightarrow> db_try list \<Rightarrow> db \<Rightarrow> db" where
  "finalize_loop job error res veto dispatched [] d = d"
| "finalize_loop job error res veto dispatched (t # ts) d =
     (if y_fault t = CheckoutFails then finalize_loop job error res veto dispatched ts d
      else if \<not> is_running (j_id job) d
      then (if y_fault t = CommitFails then finalize_loop job error res veto dispatched ts d
            else (let (es, d') = finalize_skip job d in dispatch_all es d'))
      else
        (let ask = (error = None \<and> \<not> dispatched);
             error' = vetoed error dispatched veto;
             asked = (dispatched \<or> ask);
             pre = (if ask then [JobFinalizeBefore (j_id job)] else [])
                   @ (case error' of None \<Rightarrow> [] | Some e \<Rightarrow> [JobFailAfter (j_id job) (x_class e)]);
             d1 = dispatch_all pre (y_others t d)
         in case finalize_tx job error' res (y_jitter t) d1 of
              Inl e \<Rightarrow> finalize_loop job error' res veto asked ts d1
            | Inr (es, d2) \<Rightarrow>
                if y_fault t = CommitFails then finalize_loop job error' res veto asked ts d1
                else dispatch_all
                       (es @ [JobFinalizeAfter (j_id job) (if asked then veto else None)]) d2))"

definition finalize_job ::
    "job \<Rightarrow> exn option \<Rightarrow> run_result option \<Rightarrow> verdict option \<Rightarrow> db_try list \<Rightarrow> db \<Rightarrow> db" where
  "finalize_job job error res veto tries d = finalize_loop job error res veto False (take 3 tries) d"

section \<open>Recovering stale jobs\<close>

definition stale_dead_event :: "type_registry \<Rightarrow> job_row \<Rightarrow> event option" where
  "stale_dead_event reg r =
     (case job_from_row reg r of Inl (JobTypeUnknown v) \<Rightarrow> None | _ \<Rightarrow> Some (JobDeadAfter (j_id r)))"

text \<open>Whether the run of a RUNNING row has ended; \<open>started_at\<close> is in whole seconds.\<close>

definition run_ended :: "runner_ask \<Rightarrow> nat \<Rightarrow> db \<Rightarrow> job_row \<Rightarrow> bool" where
  "run_ended ask threshold d r \<longleftrightarrow>
     (if truthy (j_runner r) then run_alive ask (j_runner r) (job_tag (j_id r)) = RunDead
      else if j_pid r = None
      then (case j_started r of None \<Rightarrow> False
            | Some s \<Rightarrow> usec s + usec threshold \<le> now_us d)
      else True)"

definition recovery_how :: "type_registry \<Rightarrow> nat \<Rightarrow> job_row \<Rightarrow> how" where
  "recovery_how reg now r =
     (let retry = j_attempt r < j_max r in
      \<lparr>h_status = (if retry then TODO else DEAD),
       h_msg = ''Recovered: process dead (pid='' @ (case j_pid r of None \<Rightarrow> ''None'' | Some p \<Rightarrow> str_nat p)
               @ '')'' @ (if retry then '''' else '', max attempts reached''),
       h_class = ''StaleJobRecovery'', h_output = None, h_session = None,
       h_sched = (if retry then Some now else None), h_refund = False, h_revoke = True,
       h_failed = \<not> retry, h_outcome = (if retry then Abandoned else Failed),
       h_terminal = \<not> retry, h_after = (if retry then None else stale_dead_event reg r)\<rparr>)"

fun recover_rows ::
    "type_registry \<Rightarrow> runner_ask \<Rightarrow> nat \<Rightarrow> job_row list \<Rightarrow> db \<Rightarrow> outbox_error + (event list \<times> db)" where
  "recover_rows reg ask threshold [] d = Inr ([], d)"
| "recover_rows reg ask threshold (r # rs) d =
     (if \<not> run_ended ask threshold d r then recover_rows reg ask threshold rs d
      else case transition (j_id r) (j_attempt r) None (recovery_how reg (now_s d) r) d of
             Inl e \<Rightarrow> Inl e
           | Inr (es, d1) \<Rightarrow>
               (case recover_rows reg ask threshold rs d1 of
                  Inl e \<Rightarrow> Inl e
                | Inr (es', d2) \<Rightarrow> Inr (es @ es', d2)))"

text \<open>
  One transaction over the RUNNING rows; an exception rolls all of it back. \<open>row_error\<close> other than
  an unknown type also ends it so: \<open>_stale_dead_event\<close> catches \<open>JobTypeUnknown\<close> only.
\<close>

definition recovery_raises :: "type_registry \<Rightarrow> job_row \<Rightarrow> bool" where
  "recovery_raises reg r \<longleftrightarrow>
     (case job_from_row reg r of Inl (BadTrust v) \<Rightarrow> True | _ \<Rightarrow> False) \<and> j_max r \<le> j_attempt r"

definition recover_stale_jobs ::
    "type_registry \<Rightarrow> runner_ask \<Rightarrow> nat \<Rightarrow> db \<Rightarrow> db" where
  "recover_stale_jobs reg ask job_timeout_seconds d =
     (let threshold = job_timeout_seconds + 60;
          running = filter (\<lambda>r. j_status r = RUNNING) (jobs d) in
      if \<exists>r \<in> set running. run_ended ask threshold d r \<and> recovery_raises reg r then d
      else case recover_rows reg ask threshold running d of
             Inl e \<Rightarrow> d
           | Inr (es, d') \<Rightarrow> dispatch_all es d')"

section \<open>The capabilities of a run\<close>

datatype run_tokens = NoTokens | Tokens string "string option" | NotRunnable

text \<open>
  The two tokens are arguments. An \<open>issue_error\<close> is the \<open>ValueError\<close> that fails the run, with the
  transaction rolled back.
\<close>

definition issue_run_capabilities ::
    "auth_config \<Rightarrow> bool \<Rightarrow> (string \<Rightarrow> string) \<Rightarrow> string \<Rightarrow> string \<Rightarrow> job \<Rightarrow> db
      \<Rightarrow> issue_error + (run_tokens \<times> db)" where
  "issue_run_capabilities cfg test_mode sha256 mcp_token rest_token job d =
     (case j_view job of
        None \<Rightarrow> Inr (NoTokens, d)
      | Some view \<Rightarrow>
          if \<not> is_running (j_id job) d
          then (let (announce, d') = end_execution (j_id job) (j_attempt job) (j_execution job)
                                       Abandoned False d
                in Inr (NotRunnable, dispatch_all
                          [ExecutionStartAfter (j_execution job) (j_id job) (j_attempt job), announce] d'))
          else case issue_capability cfg test_mode sha256 mcp_token
                      (run_issue view (j_id job) (j_execution job) (j_test job)) d of
                 Inl e \<Rightarrow> Inl e
               | Inr d1 \<Rightarrow>
                   if j_ref job \<noteq> None then Inr (Tokens mcp_token None, d1)
                   else (case issue_capability cfg test_mode sha256 rest_token
                                ((rest_issue (PyInt (int view)) ''service:consumer''
                                    REST_CAPABILITY_TTL_SECONDS)\<lparr>i_job := PyInt (int (j_id job))\<rparr>) d1 of
                           Inl e \<Rightarrow> Inl e
                         | Inr d2 \<Rightarrow> Inr (Tokens mcp_token (Some rest_token), d2)))"

section \<open>Facts about transitions\<close>

lemma end_execution_fields [simp]:
  "jobs (snd (end_execution j a x out t d)) = jobs d"
  "caps (snd (end_execution j a x out t d)) = caps d"
  "now_us (snd (end_execution j a x out t d)) = now_us d"
  "next_job (snd (end_execution j a x out t d)) = next_job d"
  "outbox (snd (end_execution j a x out t d)) = outbox d"
  "next_outbox (snd (end_execution j a x out t d)) = next_outbox d"
  "events (snd (end_execution j a x out t d)) = events d"
  "threads (snd (end_execution j a x out t d)) = threads d"
  "next_thread (snd (end_execution j a x out t d)) = next_thread d"
  "stretches (snd (end_execution j a x out t d)) = stretches d"
  "next_stretch (snd (end_execution j a x out t d)) = next_stretch d"
  "creds (snd (end_execution j a x out t d)) = creds d"
  "views (snd (end_execution j a x out t d)) = views d"
  "closes (snd (end_execution j a x out t d)) = closes d @ [\<lparr>f_job = j, f_attempt = a,
     f_execution = x, f_outcome = out, f_terminal = t\<rparr>]"
  by (simp_all add: end_execution_def)

text \<open>What a transition does to the tables, whether or not the row was still RUNNING.\<close>

lemma transitionD:
  assumes "transition j a x h d = Inr (es, d')"
  shows "jobs d' = update_where (\<lambda>r. j_id r = j \<and> j_status r = RUNNING) (left_row h (now_us d)) (jobs d)
    \<and> caps d' = (if h_revoke h then caps (snd (revoke_job_capabilities j d)) else caps d)
    \<and> now_us d' = now_us d \<and> next_job d' = next_job d \<and> threads d' = threads d
    \<and> next_thread d' = next_thread d \<and> stretches d' = stretches d
    \<and> next_stretch d' = next_stretch d \<and> creds d' = creds d \<and> views d' = views d
    \<and> events d' = events d
    \<and> closes d' = closes d @ [\<lparr>f_job = j, f_attempt = a, f_execution = x,
        f_outcome = h_outcome h, f_terminal = h_terminal h\<rparr>]
    \<and> (h_failed h \<longrightarrow> outbox d' = outbox d @ [\<lparr>o_id = next_outbox d, o_job = j, o_execution = x,
          o_kind = ''job.failed'', o_payload = failed_payload j a (h_class h) x, o_created = now_s d\<rparr>])
    \<and> (\<not> h_failed h \<longrightarrow> outbox d' = outbox d)"
proof -
  let ?d1 = "update_jobs (\<lambda>r. j_id r = j \<and> j_status r = RUNNING) (left_row h (now_us d)) d"
  let ?d2 = "if h_revoke h then snd (revoke_job_capabilities j ?d1) else ?d1"
  let ?d3 = "snd (end_execution j a x (h_outcome h) (h_terminal h) ?d2)"
  have caps1: "caps (snd (revoke_job_capabilities j ?d1)) = caps (snd (revoke_job_capabilities j d))"
    by (simp add: revoke_job_capabilities_def Let_def)
  show ?thesis
  proof (cases "h_failed h")
    case True
    then obtain i where w: "write_outbox j ''job.failed'' (failed_payload j a (h_class h) x) x ?d3 = Inr (i, d')"
      using assms by (auto simp: transition_def Let_def split: prod.splits sum.splits)
    show ?thesis using True write_outboxD [OF w] caps1 by simp
  next
    case False
    then have "d' = ?d3" using assms by (auto simp: transition_def Let_def split: prod.splits)
    then show ?thesis using False caps1 by simp
  qed
qed

text \<open>
  A transition can only fail on an execution id that the payload guard takes for a secret.
\<close>

lemma failed_payload_plain:
  assumes "\<And>s. x = Some s \<Longrightarrow> \<not> forbidden_value s"
  shows "check_plain (failed_payload j a c x)"
proof -
  have keys: "\<not> forbidden_key ''job_id''" "\<not> forbidden_key ''attempt''" "\<not> forbidden_key ''kind''"
    "\<not> forbidden_key ''execution_id''" by code_simp+
  have kinds: "\<not> forbidden_value ''internal''" "\<not> forbidden_value ''timeout''"
    "\<not> forbidden_value ''credential_error''" "\<not> forbidden_value ''harness_error''" by code_simp+
  then have "\<not> forbidden_value (failure_kind (Some c))" by (simp add: failure_kind_def)
  with assms keys show ?thesis by (cases x) (simp_all add: failed_payload_def py_opt_def)
qed

lemma transition_total:
  assumes "\<And>s. x = Some s \<Longrightarrow> \<not> forbidden_value s"
  shows "\<exists>r. transition j a x h d = Inr r"
proof -
  have "KIND_GRAMMAR ''job.failed''" by code_simp
  then show ?thesis
    using failed_payload_plain [where x = x and j = j and a = a and c = "h_class h", OF assms]
    by (auto simp: transition_def Let_def write_outbox_def failed_payload_def split: prod.splits)
qed

end
