(* ===== verification/Job_Store.thy ===== *)
theory Job_Store
  imports Consumer_Finalize
begin

text \<open>
  \<open>job_store.py\<close>: what an operator does to a job. \<open>pause_job\<close> and \<open>set_job_runtime\<close> hold the row's
  lock from the read to the write; \<open>resume_job\<close> reads without a lock, so what other sessions commit
  before its UPDATE is an argument.
\<close>

section \<open>Operations\<close>

datatype store_error =
    JobNotFound nat
  | RowUnreadable row_error
  | CannotPause job_status
  | CannotResume job_status
  | NoSession
  | LastRunIs run_state
  | NotTodo job_status

definition fetch_job :: "type_registry \<Rightarrow> nat \<Rightarrow> db \<Rightarrow> store_error + job" where
  "fetch_job reg job_id d =
     (case find_job d job_id of
        None \<Rightarrow> Inl (JobNotFound job_id)
      | Some r \<Rightarrow> (case job_from_row reg r of Inl e \<Rightarrow> Inl (RowUnreadable e) | Inr j \<Rightarrow> Inr j))"

definition paused_row :: "nat \<Rightarrow> job_row \<Rightarrow> job_row" where
  "paused_row now r = r\<lparr>j_status := PAUSED, j_finished := Some now\<rparr>"

text \<open>The signal to the run's process follows the commit and is not part of the state.\<close>

definition pause_job :: "type_registry \<Rightarrow> nat \<Rightarrow> db \<Rightarrow> store_error + (job \<times> db)" where
  "pause_job reg job_id d =
     (case fetch_job reg job_id d of
        Inl e \<Rightarrow> Inl e
      | Inr job \<Rightarrow>
          if j_status job \<noteq> RUNNING then Inl (CannotPause (j_status job))
          else Inr (job\<lparr>j_status := PAUSED\<rparr>,
                 snd (revoke_job_capabilities job_id
                   (update_jobs (\<lambda>r. j_id r = job_id \<and> j_status r = RUNNING)
                      (paused_row (now_us d)) d))))"

definition resumed_row :: "nat \<Rightarrow> job_row \<Rightarrow> job_row" where
  "resumed_row now r = r\<lparr>j_status := TODO, j_pid := None, j_runner := None, j_sched := now\<rparr>"

definition resume_job ::
    "type_registry \<Rightarrow> runner_ask \<Rightarrow> nat \<Rightarrow> (db \<Rightarrow> db) \<Rightarrow> db \<Rightarrow> store_error + (job \<times> db)" where
  "resume_job reg ask job_id others d =
     (case fetch_job reg job_id d of
        Inl e \<Rightarrow> Inl e
      | Inr job \<Rightarrow>
          if j_status job \<noteq> PAUSED then Inl (CannotResume (j_status job))
          else if j_session job = None then Inl NoSession
          else if run_alive ask (j_runner job) (job_tag job_id) \<noteq> RunDead
          then Inl (LastRunIs (run_alive ask (j_runner job) (job_tag job_id)))
          else (let d1 = others d in
                Inr (job\<lparr>j_status := TODO, j_pid := None, j_runner := None\<rparr>,
                  update_jobs (\<lambda>r. j_id r = job_id \<and> j_status r = PAUSED)
                    (resumed_row (now_s d1)) d1)))"

definition runtime_row ::
    "string option \<Rightarrow> string option \<Rightarrow> bool \<Rightarrow> pyval option \<Rightarrow> job_row \<Rightarrow> job_row" where
  "runtime_row harness model drop_session test r =
     r\<lparr>j_agent_type := harness, j_model := model, j_provider := None,
       j_session := (if drop_session then None else j_session r), j_test := test\<rparr>"

definition set_job_runtime ::
    "type_registry \<Rightarrow> nat \<Rightarrow> string option \<Rightarrow> string option \<Rightarrow> bool \<Rightarrow> pyval option \<Rightarrow> bool \<Rightarrow> db
      \<Rightarrow> store_error + (job \<times> db)" where
  "set_job_runtime reg job_id harness model clear test_config clear_test d =
     (case fetch_job reg job_id d of
        Inl e \<Rightarrow> Inl e
      | Inr job \<Rightarrow>
          if j_status job \<noteq> TODO then Inl (NotTodo (j_status job))
          else (let h = (if clear then None else coalesce harness (j_agent_type job));
                    m = (if clear then None else coalesce model (j_model job));
                    t = (if clear_test then None else coalesce test_config (j_test job));
                    drop_session = (clear \<or> h \<noteq> j_agent_type job)
                in Inr (job\<lparr>j_agent_type := h, j_model := m, j_provider := None, j_test := t,
                            j_session := (if drop_session then None else j_session job)\<rparr>,
                     update_jobs (\<lambda>r. j_id r = job_id) (runtime_row h m drop_session t) d)))"

section \<open>Facts\<close>

lemma fetch_jobD:
  assumes "fetch_job reg i d = Inr job"
  shows "\<exists>r. find_job d i = Some r \<and> job_from_row reg r = Inr job"
  using assms by (auto simp: fetch_job_def split: option.splits sum.splits)

lemma fetch_job_row:
  assumes "fetch_job reg i d = Inr job"
  shows "\<exists>r \<in> set (jobs d). j_id r = i \<and> j_status job = j_status r \<and> j_session job = j_session r
    \<and> j_id job = i"
  using fetch_jobD [OF assms] job_from_row_fields find_job_in by metis

lemma pause_jobD:
  assumes "pause_job reg i d = Inr (job, d')"
  shows "jobs d' = update_where (\<lambda>r. j_id r = i \<and> j_status r = RUNNING) (paused_row (now_us d)) (jobs d)
    \<and> caps d' = caps (snd (revoke_job_capabilities i d)) \<and> next_job d' = next_job d
    \<and> now_us d' = now_us d \<and> threads d' = threads d \<and> next_thread d' = next_thread d
    \<and> stretches d' = stretches d \<and> next_stretch d' = next_stretch d
    \<and> (\<exists>r \<in> set (jobs d). j_id r = i \<and> j_status r = RUNNING)"
proof -
  obtain job0 where f: "fetch_job reg i d = Inr job0" and run: "j_status job0 = RUNNING"
    and d': "d' = snd (revoke_job_capabilities i
        (update_jobs (\<lambda>r. j_id r = i \<and> j_status r = RUNNING) (paused_row (now_us d)) d))"
    using assms by (auto simp: pause_job_def split: sum.splits if_splits)
  have "\<exists>r \<in> set (jobs d). j_id r = i \<and> j_status r = RUNNING"
    using fetch_job_row [OF f] run by auto
  then show ?thesis by (simp add: d') (simp add: revoke_job_capabilities_def Let_def)
qed

lemma resume_jobD:
  assumes "resume_job reg ask i others d = Inr (job, d')"
  shows "d' = update_jobs (\<lambda>r. j_id r = i \<and> j_status r = PAUSED) (resumed_row (now_s (others d))) (others d)
    \<and> (\<exists>r \<in> set (jobs d). j_id r = i \<and> j_status r = PAUSED \<and> j_session r \<noteq> None
          \<and> run_alive ask (j_runner r) (job_tag i) = RunDead)"
proof -
  obtain job0 where f: "fetch_job reg i d = Inr job0"
    using assms by (cases "fetch_job reg i d") (auto simp: resume_job_def)
  obtain r where r: "find_job d i = Some r" "job_from_row reg r = Inr job0"
    using fetch_jobD [OF f] by blast
  have run: "j_runner job0 = j_runner r"
    using r(2) by (auto simp: job_from_row_def job_row.defs job.defs split: option.splits)
  show ?thesis
    using assms f run find_job_in [OF r(1)] job_from_row_fields [OF r(2)]
    by (auto simp: resume_job_def Let_def split: if_splits intro!: bexI [of _ r])
qed

lemma set_job_runtimeD:
  assumes "set_job_runtime reg i h m c t ct d = Inr (job, d')"
  shows "\<exists>h' m' dr t'. d' = update_jobs (\<lambda>r. j_id r = i) (runtime_row h' m' dr t') d
    \<and> (\<exists>r \<in> set (jobs d). j_id r = i \<and> j_status r = TODO)"
proof -
  obtain job0 where f: "fetch_job reg i d = Inr job0" and todo: "j_status job0 = TODO"
    using assms by (cases "fetch_job reg i d") (auto simp: set_job_runtime_def split: if_splits)
  have "\<exists>r \<in> set (jobs d). j_id r = i \<and> j_status r = TODO"
    using fetch_job_row [OF f] todo by auto
  then show ?thesis
    using assms f todo by (auto simp: set_job_runtime_def Let_def)
qed

end
