(* ===== verification/Job_Lifecycle.thy ===== *)
theory Job_Lifecycle
  imports Job_Store
begin

text \<open>
  The queue as a whole: a step relation over the database whose steps are the committed
  transactions of every writer of the \<open>job\<close> and capability tables, in any order and any number
  (publishers, consumers, the operator, the passing of time), and the invariant every step keeps.
  A finalize that read RUNNING earlier may commit in any later state, so its step has no
  precondition.
\<close>

section \<open>What a step may do to a row\<close>

fun status_edge :: "job_status \<Rightarrow> job_status \<Rightarrow> bool" where
  "status_edge TODO s = (s = TODO \<or> s = RUNNING)"
| "status_edge RUNNING s = True"
| "status_edge PAUSED s = (s = PAUSED \<or> s = TODO)"
| "status_edge SUCCESS s = (s = SUCCESS)"
| "status_edge FAILED s = (s = FAILED)"
| "status_edge DEAD s = (s = DEAD)"

lemma status_edge_refl [simp]: "status_edge s s"
  by (cases s) simp_all

text \<open>A calm change starts no run and moves no run to another line.\<close>

definition calm :: "job_row \<Rightarrow> job_row \<Rightarrow> bool" where
  "calm r r' \<longleftrightarrow> j_id r' = j_id r \<and> j_key r' = j_key r \<and> status_edge (j_status r) (j_status r')
     \<and> (j_status r' = RUNNING \<longrightarrow> j_status r = RUNNING \<and> j_thread r' = j_thread r
          \<and> j_depth r' = j_depth r \<and> j_line r' = j_line r \<and> j_started r' = j_started r
          \<and> j_attempt r' = j_attempt r)"

text \<open>The statuses in which a job holds no capability that still works.\<close>

definition settled :: "job_row \<Rightarrow> bool" where
  "settled r \<longleftrightarrow> j_status r = SUCCESS \<or> j_status r = DEAD \<or> j_status r = PAUSED"

definition caps_follow :: "db \<Rightarrow> db \<Rightarrow> bool" where
  "caps_follow d d' \<longleftrightarrow> (\<forall>c \<in> set (caps d'). \<exists>c0 \<in> set (caps d). c_job c = c_job c0
     \<and> (c_revoked c0 \<noteq> None \<longrightarrow> c_revoked c \<noteq> None))"

section \<open>The invariant\<close>

definition line_excl :: "db \<Rightarrow> bool" where
  "line_excl d \<longleftrightarrow> (\<forall>r \<in> set (jobs d). \<forall>q \<in> set (jobs d).
     j_status r = RUNNING \<and> j_status q = RUNNING \<and> j_id r \<noteq> j_id q
       \<longrightarrow> \<not> (line_where r q \<and> line_where q r))"

definition caps_ok :: "db \<Rightarrow> bool" where
  "caps_ok d \<longleftrightarrow> (\<forall>c \<in> set (caps d). \<forall>r \<in> set (jobs d).
     c_job c = Some (j_id r) \<and> settled r \<longrightarrow> c_revoked c \<noteq> None)"

definition runs_ok :: "db \<Rightarrow> bool" where
  "runs_ok d \<longleftrightarrow> (\<forall>r \<in> set (jobs d). j_status r = RUNNING \<longrightarrow> j_started r \<noteq> None \<and> 1 \<le> j_attempt r)"

definition queue_ok :: "db \<Rightarrow> bool" where
  "queue_ok d \<longleftrightarrow> ids_ok d \<and> keys_ok d \<and> line_excl d \<and> caps_ok d \<and> runs_ok d"

lemma empty_ok: "queue_ok (empty_db t)"
  by (simp add: queue_ok_def empty_db_def ids_ok_def keys_ok_def line_excl_def caps_ok_def runs_ok_def)

lemma line_key_cong:
  "j_id r' = j_id r \<Longrightarrow> j_depth r' = j_depth r \<Longrightarrow> j_line r' = j_line r \<Longrightarrow> line_key r' = line_key r"
  by (simp add: line_key_def split: option.split)

lemma line_where_calm:
  assumes "calm r r'" "calm q q'" "j_status r' = RUNNING" "j_status q' = RUNNING"
  shows "line_where r' q' = line_where r q"
  using assms line_key_cong [of r' r] by (simp add: line_where_def calm_def split: option.split)

text \<open>
  The shape of every step but a claim, an insert and a mint: some rows change calmly, and a
  row that settles has its capabilities revoked in the same transaction.
\<close>

definition calm_step :: "(job_row \<Rightarrow> bool) \<Rightarrow> (job_row \<Rightarrow> job_row) \<Rightarrow> db \<Rightarrow> db \<Rightarrow> bool" where
  "calm_step p f d d' \<longleftrightarrow> jobs d' = update_where p f (jobs d) \<and> next_job d' = next_job d
     \<and> (\<forall>r \<in> set (jobs d). p r \<longrightarrow> calm r (f r)) \<and> caps_follow d d'
     \<and> (\<forall>r \<in> set (jobs d). p r \<and> settled (f r) \<and> \<not> settled r
            \<longrightarrow> (\<forall>c \<in> set (caps d'). c_job c = Some (j_id r) \<longrightarrow> c_revoked c \<noteq> None))"

lemma calm_origin:
  assumes "calm_step p f d d'" and "r' \<in> set (jobs d')"
  shows "\<exists>r \<in> set (jobs d). calm r r' \<and> (settled r' \<and> \<not> settled r
     \<longrightarrow> (\<forall>c \<in> set (caps d'). c_job c = Some (j_id r) \<longrightarrow> c_revoked c \<noteq> None))"
proof -
  obtain r where r: "r \<in> set (jobs d)" "r' = (if p r then f r else r)"
    using assms by (auto simp: calm_step_def in_update_where)
  show ?thesis
  proof (cases "p r")
    case True
    with r assms(1) show ?thesis unfolding calm_step_def by (intro bexI [of _ r]) auto
  next
    case False
    with r show ?thesis by (intro bexI [of _ r]) (auto simp: calm_def)
  qed
qed

lemma calm_step_ok:
  assumes step: "calm_step p f d d'" and ok: "queue_ok d"
  shows "queue_ok d'"
proof -
  have same: "map j_id (jobs d') = map j_id (jobs d)" "map j_key (jobs d') = map j_key (jobs d)"
    using step by (auto simp: calm_step_def calm_def update_where_def)
  then have "j_id ` set (jobs d') = j_id ` set (jobs d)" by (metis set_map)
  then have "ids_ok d'"
    using ok same(1) step unfolding queue_ok_def ids_ok_def calm_step_def
    by (metis (no_types, lifting) image_iff)
  moreover have "keys_ok d'" using ok same(2) by (simp add: queue_ok_def keys_ok_def)
  moreover have "line_excl d'"
    unfolding line_excl_def
  proof (intro ballI impI)
    fix r' q' assume r': "r' \<in> set (jobs d')" and q': "q' \<in> set (jobs d')"
      and run: "j_status r' = RUNNING \<and> j_status q' = RUNNING \<and> j_id r' \<noteq> j_id q'"
    obtain r q where rq: "r \<in> set (jobs d)" "calm r r'" "q \<in> set (jobs d)" "calm q q'"
      using calm_origin [OF step r'] calm_origin [OF step q'] by blast
    then have "j_status r = RUNNING" "j_status q = RUNNING" "j_id r \<noteq> j_id q"
      using run by (auto simp: calm_def)
    then have "\<not> (line_where r q \<and> line_where q r)"
      using ok rq unfolding queue_ok_def line_excl_def by blast
    then show "\<not> (line_where r' q' \<and> line_where q' r')"
      using rq run line_where_calm by blast
  qed
  moreover have "caps_ok d'"
    unfolding caps_ok_def
  proof (intro ballI impI)
    fix c r' assume c: "c \<in> set (caps d')" and r': "r' \<in> set (jobs d')"
      and own: "c_job c = Some (j_id r') \<and> settled r'"
    obtain r where r: "r \<in> set (jobs d)" "calm r r'" "settled r' \<and> \<not> settled r
        \<longrightarrow> (\<forall>c \<in> set (caps d'). c_job c = Some (j_id r) \<longrightarrow> c_revoked c \<noteq> None)"
      using calm_origin [OF step r'] by blast
    have id: "c_job c = Some (j_id r)" using own r(2) by (simp add: calm_def)
    show "c_revoked c \<noteq> None"
    proof (cases "settled r")
      case True
      obtain c0 where "c0 \<in> set (caps d)" "c_job c = c_job c0"
          "c_revoked c0 \<noteq> None \<longrightarrow> c_revoked c \<noteq> None"
        using step c unfolding calm_step_def caps_follow_def by blast
      with ok True id r(1) show ?thesis unfolding queue_ok_def caps_ok_def by metis
    qed (use r(3) own c id in blast)
  qed
  moreover have "runs_ok d'"
    unfolding runs_ok_def
  proof (intro ballI impI)
    fix r' assume r': "r' \<in> set (jobs d')" and run: "j_status r' = RUNNING"
    obtain r where r: "r \<in> set (jobs d)" "calm r r'" using calm_origin [OF step r'] by blast
    then have "j_started r' = j_started r" "j_attempt r' = j_attempt r" "j_status r = RUNNING"
      using run by (auto simp: calm_def)
    with ok r(1) show "j_started r' \<noteq> None \<and> 1 \<le> j_attempt r'"
      unfolding queue_ok_def runs_ok_def by metis
  qed
  ultimately show ?thesis by (simp add: queue_ok_def)
qed

section \<open>The contract of an operation on the queue\<close>

text \<open>
  Every operation keeps the invariant and moves each job along an edge of the status graph.
  What follows for sequences of operations is proved once here.
\<close>

locale queue_op =
  fixes op :: "db \<Rightarrow> db \<Rightarrow> bool"
  assumes keeps_ok: "queue_ok d \<Longrightarrow> op d d' \<Longrightarrow> queue_ok d'"
    and moves: "queue_ok d \<Longrightarrow> op d d' \<Longrightarrow> r \<in> set (jobs d)
      \<Longrightarrow> \<exists>r' \<in> set (jobs d'). j_id r' = j_id r \<and> status_edge (j_status r) (j_status r')"
begin

lemma terminal_stays:
  assumes "queue_ok d" and "op d d'" and "r \<in> set (jobs d)" and "j_status r \<in> set TERMINAL_STATUSES"
  shows "\<exists>r' \<in> set (jobs d'). j_id r' = j_id r \<and> j_status r' = j_status r"
proof -
  obtain r' where r': "r' \<in> set (jobs d')" "j_id r' = j_id r" "status_edge (j_status r) (j_status r')"
    using moves [OF assms(1-3)] by blast
  have "j_status r' = j_status r"
    by (insert r'(3) assms(4), cases "j_status r") simp_all
  with r' show ?thesis by blast
qed

lemma always_ok: "rtranclp op d d' \<Longrightarrow> queue_ok d \<Longrightarrow> queue_ok d'"
  by (induction rule: rtranclp_induct) (use keeps_ok in blast)+

text \<open>A job is never lost, and a job that has ended keeps its outcome for ever.\<close>

lemma never_lost:
  "rtranclp op d d' \<Longrightarrow> queue_ok d \<Longrightarrow> r \<in> set (jobs d) \<Longrightarrow> \<exists>r' \<in> set (jobs d'). j_id r' = j_id r"
proof (induction rule: rtranclp_induct)
  case (step b c)
  then show ?case using moves [OF always_ok [OF step.hyps(1)] step.hyps(2)] by metis
qed blast

lemma terminal_for_ever:
  "rtranclp op d d' \<Longrightarrow> queue_ok d \<Longrightarrow> r \<in> set (jobs d) \<Longrightarrow> j_status r \<in> set TERMINAL_STATUSES
    \<Longrightarrow> \<exists>r' \<in> set (jobs d'). j_id r' = j_id r \<and> j_status r' = j_status r"
proof (induction rule: rtranclp_induct)
  case (step b c)
  then obtain r1 where r1: "r1 \<in> set (jobs b)" "j_id r1 = j_id r" "j_status r1 = j_status r" by blast
  then show ?case
    using terminal_stays [OF always_ok [OF step.hyps(1)] step.hyps(2) r1(1)] step.prems by metis
qed blast

end

lemma calm_queue_op:
  assumes "\<And>d d'. op d d' \<Longrightarrow> \<exists>p f. calm_step p f d d'"
  shows "queue_op op"
proof
  fix d d' assume "queue_ok d" "op d d'"
  then show "queue_ok d'" using assms calm_step_ok by blast
next
  fix d d' r assume "op d d'" and r: "r \<in> set (jobs d)"
  then obtain p f where step: "calm_step p f d d'" using assms by blast
  then have "(if p r then f r else r) \<in> set (jobs d')"
    using r by (auto simp: calm_step_def in_update_where)
  then show "\<exists>r' \<in> set (jobs d'). j_id r' = j_id r \<and> status_edge (j_status r) (j_status r')"
    using step r by (intro bexI [of _ "if p r then f r else r"]) (auto simp: calm_step_def calm_def)
qed

section \<open>The operations keep the contract\<close>

lemma caps_follow_refl [simp]: "caps d' = caps d \<Longrightarrow> caps_follow d d'"
  by (auto simp: caps_follow_def)

lemma caps_follow_revoke:
  "caps d' = caps (snd (revoke_job_capabilities j d)) \<Longrightarrow> caps_follow d d'"
  unfolding caps_follow_def
proof (intro ballI)
  fix c assume "caps d' = caps (snd (revoke_job_capabilities j d))" and "c \<in> set (caps d')"
  then obtain c0 where "c0 \<in> set (caps d)"
    "c = (if c_job c0 = Some j \<and> c_revoked c0 = None then c0\<lparr>c_revoked := Some (now_s d)\<rparr> else c0)"
    using revoke_job_caps by metis
  then show "\<exists>c0 \<in> set (caps d). c_job c = c_job c0 \<and> (c_revoked c0 \<noteq> None \<longrightarrow> c_revoked c \<noteq> None)"
    by (intro bexI [of _ c0]) auto
qed

text \<open>Steps that leave the jobs alone.\<close>

lemma calm_step_idle:
  "jobs d' = jobs d \<Longrightarrow> next_job d' = next_job d \<Longrightarrow> caps_follow d d'
    \<Longrightarrow> calm_step (\<lambda>_. False) id d d'"
  by (simp add: calm_step_def update_where_def)

text \<open>Steps that update rows without touching status, key, line and attempt.\<close>

definition quiet_row :: "(job_row \<Rightarrow> job_row) \<Rightarrow> bool" where
  "quiet_row f \<longleftrightarrow> (\<forall>r. j_id (f r) = j_id r \<and> j_key (f r) = j_key r \<and> j_status (f r) = j_status r
     \<and> j_thread (f r) = j_thread r \<and> j_depth (f r) = j_depth r \<and> j_line (f r) = j_line r
     \<and> j_started (f r) = j_started r \<and> j_attempt (f r) = j_attempt r)"

lemma calm_step_quiet: "quiet_row f \<Longrightarrow> calm_step p f d (update_jobs p f d)"
  by (auto simp: calm_step_def quiet_row_def calm_def settled_def)

text \<open>The ways out of RUNNING.\<close>

definition leaves_ok :: "how \<Rightarrow> bool" where
  "leaves_ok h \<longleftrightarrow> h_status h \<noteq> RUNNING
     \<and> (h_status h \<in> {SUCCESS, DEAD, PAUSED} \<longrightarrow> h_revoke h)"

lemma failure_how_ok: "leaves_ok (failure_how job e res jitter now)"
  by (simp add: leaves_ok_def failure_how_def Let_def)

lemma recovery_how_ok: "leaves_ok (recovery_how reg now r)"
  by (simp add: leaves_ok_def recovery_how_def Let_def)

lemma left_row_fields [simp]:
  "j_id (left_row h now r) = j_id r" "j_key (left_row h now r) = j_key r"
  "j_status (left_row h now r) = h_status h" "j_thread (left_row h now r) = j_thread r"
  "j_depth (left_row h now r) = j_depth r" "j_line (left_row h now r) = j_line r"
  "j_max (left_row h now r) = j_max r"
  "j_attempt (left_row h now r) = (if h_refund h then j_attempt r - 1 else j_attempt r)"
  "j_finished (left_row h now r) = Some now"
  "j_sched (left_row h now r) = (case h_sched h of Some s \<Rightarrow> s | None \<Rightarrow> j_sched r)"
  by (simp_all add: left_row_def)

lemma transition_calm:
  assumes step: "transition j a x h d = Inr (es, d')" and ok: "leaves_ok h"
  shows "calm_step (\<lambda>r. j_id r = j \<and> j_status r = RUNNING) (left_row h (now_us d)) d d'"
proof -
  note t = transitionD [OF step]
  have "caps_follow d d'" using t caps_follow_revoke by (cases "h_revoke h") auto
  moreover have "c_revoked c \<noteq> None"
    if "j_id r = j" "settled (left_row h n r)" "c \<in> set (caps d')" "c_job c = Some (j_id r)" for r c n
  proof -
    have "h_revoke h" using that(2) ok by (auto simp: leaves_ok_def settled_def)
    then have "caps d' = caps (snd (revoke_job_capabilities j d))" using t by simp
    then show ?thesis using revoke_job_none_live that by metis
  qed
  ultimately show ?thesis
    using t ok by (auto simp: calm_step_def calm_def leaves_ok_def)
qed

lemma finalize_failure_calm:
  assumes step: "finalize_failure job e res jitter d = Inr (es, d')"
  shows "\<exists>p f. calm_step p f d d'"
proof -
  let ?h = "failure_how job e res jitter (now_us d)"
  let ?drop = "\<lambda>r. r\<lparr>j_session := None\<rparr>"
  show ?thesis
  proof (cases "error_fresh_start e")
    case False
    then have "transition (j_id job) (j_attempt job) (j_execution job) ?h d = Inr (es, d')"
      using step by (simp add: finalize_failure_def)
    then show ?thesis using transition_calm failure_how_ok by blast
  next
    case True
    let ?d1 = "update_jobs (\<lambda>r. j_id r = j_id job) ?drop d"
    have t: "transition (j_id job) (j_attempt job) (j_execution job) ?h ?d1 = Inr (es, d')"
      using step True by (simp add: finalize_failure_def)
    have c: "calm_step (\<lambda>r. j_id r = j_id job \<and> j_status r = RUNNING) (left_row ?h (now_us d)) ?d1 d'"
      using transition_calm [OF t failure_how_ok] by simp
    let ?g = "\<lambda>r. if j_status r = RUNNING then left_row ?h (now_us d) (?drop r) else ?drop r"
    have j: "jobs d' = update_where (\<lambda>r. j_id r = j_id job) ?g (jobs d)"
      using c by (simp add: calm_step_def update_where_guarded)
    have row: "calm r (?g r)" for r
      using failure_how_ok [of job e res jitter "now_us d"]
      by (auto simp: calm_def leaves_ok_def)
    have caps: "c_revoked k \<noteq> None"
      if "r \<in> set (jobs d)" "j_id r = j_id job" "settled (?g r)" "\<not> settled r" "k \<in> set (caps d')"
        "c_job k = Some (j_id r)" for r k
    proof -
      have run: "j_status r = RUNNING" using that(3,4) by (auto simp: settled_def split: if_splits)
      have "?drop r \<in> set (jobs ?d1)" using that(1,2) by (auto simp: in_update_where)
      moreover have "settled (left_row ?h (now_us d) (?drop r))" using that(3) run by simp
      moreover have "\<not> settled (?drop r)" "j_status (?drop r) = RUNNING" "j_id (?drop r) = j_id job"
        using run that(2) by (simp_all add: settled_def)
      ultimately show ?thesis using c that(5,6) unfolding calm_step_def by fastforce
    qed
    have "calm_step (\<lambda>r. j_id r = j_id job) ?g d d'"
      using c j row caps by (simp add: calm_step_def caps_follow_def)
    then show ?thesis by blast
  qed
qed

lemma finalize_success_calm: "\<exists>p f. calm_step p f d (snd (finalize_success job res d))"
proof -
  let ?p = "\<lambda>r. j_id r = j_id job \<and> j_status r = RUNNING"
  let ?d' = "snd (finalize_success job res d)"
  have c: "caps ?d' = caps (snd (revoke_job_capabilities (j_id job) d))"
    by (simp add: finalize_success_def Let_def split: prod.split)
      (simp add: end_execution_def revoke_job_capabilities_def Let_def)
  have "calm_step ?p (success_row res (now_us d)) d ?d'"
    unfolding calm_step_def
  proof (intro conjI ballI impI)
    show "jobs ?d' = update_where ?p (success_row res (now_us d)) (jobs d)"
      by (simp add: finalize_success_def Let_def end_execution_def)
    show "next_job ?d' = next_job d"
      by (simp add: finalize_success_def Let_def end_execution_def)
    show "calm r (success_row res (now_us d) r)" if "?p r" for r
      using that by (simp add: calm_def success_row_def)
    show "caps_follow d ?d'" using c by (rule caps_follow_revoke)
    show "c_revoked k \<noteq> None"
      if "?p r \<and> settled (success_row res (now_us d) r) \<and> \<not> settled r" "k \<in> set (caps ?d')"
        "c_job k = Some (j_id r)" for r k
      using that revoke_job_none_live [of k "j_id job" d] unfolding c by simp
  qed
  then show ?thesis by blast
qed

lemma pause_calm:
  assumes "pause_job reg i d = Inr (job, d')"
  shows "\<exists>p f. calm_step p f d d'"
proof -
  note p = pause_jobD [OF assms]
  have "calm_step (\<lambda>r. j_id r = i \<and> j_status r = RUNNING) (paused_row (now_us d)) d d'"
    using p caps_follow_revoke [of d' i d] revoke_job_none_live [of _ i d]
    by (auto simp: calm_step_def calm_def paused_row_def)
  then show ?thesis by blast
qed

lemma set_runtime_calm:
  assumes "set_job_runtime reg i h m c t ct d = Inr (job, d')"
  shows "\<exists>p f. calm_step p f d d'"
proof -
  obtain h' m' dr t' where d': "d' = update_jobs (\<lambda>r. j_id r = i) (runtime_row h' m' dr t') d"
    using set_job_runtimeD [OF assms] by blast
  have "quiet_row (runtime_row h' m' dr t')" by (simp add: quiet_row_def runtime_row_def)
  then show ?thesis unfolding d' using calm_step_quiet by blast
qed

text \<open>A claim takes one TODO row to RUNNING, on a line with no other run.\<close>

lemma not_blocked_run:
  assumes "\<not> line_blocked job d" and "q \<in> set (jobs d)" and "j_id q \<noteq> j_id job"
    and "j_status q = RUNNING"
  shows "\<not> line_where job q"
  using assms unfolding line_blocked_def by auto

lemma run_row_fields [simp]:
  "j_id (run_row now x r) = j_id r" "j_key (run_row now x r) = j_key r"
  "j_status (run_row now x r) = RUNNING" "j_thread (run_row now x r) = j_thread r"
  "j_depth (run_row now x r) = j_depth r" "j_line (run_row now x r) = j_line r"
  "j_started (run_row now x r) = Some now" "j_attempt (run_row now x r) = j_attempt r + 1"
  "j_resume (run_row now x r) = x" "j_session (run_row now x r) = j_session r"
  by (simp_all add: run_row_def)

lemma line_where_same:
  "j_id r = j_id q \<Longrightarrow> j_depth r = j_depth q \<Longrightarrow> j_line r = j_line q \<Longrightarrow> j_thread r = j_thread q
    \<Longrightarrow> line_where r x = line_where q x"
  using line_key_cong [of r q] by (simp add: line_where_def split: option.split)

lemma only_row:
  assumes "ids_ok d" and "row \<in> set (jobs d)" and "r \<in> set (jobs d)" and "j_id r = j_id row"
  shows "r = row"
  using find_job_unique [OF ids_ok_distinct [OF assms(1)]] assms(2-4) by (metis option.inject)

lemma claim_ok:
  assumes ok: "queue_ok d" and row: "row \<in> set (jobs d)" "j_status row = TODO"
    and f: "placed_row f"
    and jobs': "jobs d' = update_where (\<lambda>r. j_id r = j_id row)
        (\<lambda>r. if j_status r = TODO then run_row now resume (f r) else f r) (jobs d)"
    and jobs1: "jobs d1 = update_where (\<lambda>r. j_id r = j_id row) f (jobs d)"
    and free: "\<not> line_blocked job d1" and job: "j_id job = j_id row" "j_thread job = j_thread (f row)"
      "j_depth job = j_depth row" "j_line job = j_line row"
    and rest: "caps d' = caps d" "next_job d' = next_job d"
  shows "queue_ok d'"
proof -
  have ids: "ids_ok d" using ok by (simp add: queue_ok_def)
  note ff = placed_row_fields [OF f]
  note only = only_row [OF ids row(1)]
  let ?new = "run_row now resume (f row)"
  have origin: "(r \<in> set (jobs d) \<and> j_id r \<noteq> j_id row) \<or> r = ?new" if mem: "r \<in> set (jobs d')" for r
  proof -
    obtain r0 where r0: "r0 \<in> set (jobs d)" "r = (if j_id r0 = j_id row
        then (if j_status r0 = TODO then run_row now resume (f r0) else f r0) else r0)"
      using mem unfolding jobs' in_update_where by blast
    show ?thesis
    proof (cases "j_id r0 = j_id row")
      case True
      then have "r0 = row" using only r0(1) by blast
      with r0(2) row(2) show ?thesis by simp
    qed (use r0 in simp)
  qed
  have same: "map j_id (jobs d') = map j_id (jobs d)" "map j_key (jobs d') = map j_key (jobs d)"
    unfolding jobs' using ff by (auto intro!: map_update_where)
  then have "j_id ` set (jobs d') = j_id ` set (jobs d)" by (metis set_map)
  then have "ids_ok d'"
    using ids same(1) rest(2) unfolding ids_ok_def by (metis (no_types, lifting) image_iff)
  moreover have "keys_ok d'" using ok same(2) by (simp add: queue_ok_def keys_ok_def)
  moreover have "line_excl d'"
    unfolding line_excl_def
  proof (intro ballI impI)
    fix r q assume r: "r \<in> set (jobs d')" and q: "q \<in> set (jobs d')"
      and run: "j_status r = RUNNING \<and> j_status q = RUNNING \<and> j_id r \<noteq> j_id q"
    have other: "\<not> line_where ?new x" if "x \<in> set (jobs d)" "j_id x \<noteq> j_id row" "j_status x = RUNNING" for x
    proof -
      have "x \<in> set (jobs d1)" using that(1,2) by (auto simp: jobs1 in_update_where)
      then have "\<not> line_where job x" using not_blocked_run [OF free] that job(1) by simp
      moreover have "line_where job x = line_where ?new x"
        by (rule line_where_same) (simp_all add: job ff)
      ultimately show ?thesis by simp
    qed
    consider "r \<in> set (jobs d)" "q \<in> set (jobs d)" | "r = ?new" "q \<in> set (jobs d)" "j_id q \<noteq> j_id row"
      | "q = ?new" "r \<in> set (jobs d)" "j_id r \<noteq> j_id row"
      using origin [OF r] origin [OF q] run by auto
    then show "\<not> (line_where r q \<and> line_where q r)"
    proof cases
      case 1
      then show ?thesis using ok run unfolding queue_ok_def line_excl_def by blast
    qed (use other run in blast)+
  qed
  moreover have "caps_ok d'"
    unfolding caps_ok_def
  proof (intro ballI impI)
    fix c r assume c: "c \<in> set (caps d')" and r: "r \<in> set (jobs d')"
      and own: "c_job c = Some (j_id r) \<and> settled r"
    then have "r \<in> set (jobs d)" using origin [OF r] by (auto simp: settled_def)
    then show "c_revoked c \<noteq> None" using ok c own rest(1) unfolding queue_ok_def caps_ok_def by metis
  qed
  moreover have "runs_ok d'"
    unfolding runs_ok_def
  proof (intro ballI impI)
    fix r assume r: "r \<in> set (jobs d')" and run: "j_status r = RUNNING"
    show "j_started r \<noteq> None \<and> 1 \<le> j_attempt r"
      using origin [OF r] ok run unfolding queue_ok_def runs_ok_def by auto
  qed
  ultimately show ?thesis by (simp add: queue_ok_def)
qed

lemma defer_calm:
  assumes ids: "ids_ok d" and row: "row \<in> set (jobs d)" "j_status row = TODO" and f: "placed_row f"
    and jobs': "jobs d' = update_where (\<lambda>r. j_id r = j_id row) (\<lambda>r. (f r)\<lparr>j_sched := g\<rparr>) (jobs d)"
    and rest: "caps d' = caps d" "next_job d' = next_job d"
  shows "calm_step (\<lambda>r. j_id r = j_id row) (\<lambda>r. (f r)\<lparr>j_sched := g\<rparr>) d d'"
proof -
  note ff = placed_row_fields [OF f]
  have row': "j_status r = TODO" if "r \<in> set (jobs d)" "j_id r = j_id row" for r
    using only_row [OF ids row(1) that] row(2) by simp
  then have "calm r ((f r)\<lparr>j_sched := g\<rparr>) \<and> \<not> settled ((f r)\<lparr>j_sched := g\<rparr>)"
    if "r \<in> set (jobs d)" "j_id r = j_id row" for r
    using that ff by (simp add: calm_def settled_def)
  with jobs' rest show ?thesis by (auto simp: calm_step_def)
qed

lemma try_dequeue_ok:
  assumes ok: "queue_ok d" and step: "try_dequeue reg env answer only d = (res, d')"
  shows "queue_ok d' \<and> (\<forall>r \<in> set (jobs d). \<exists>r' \<in> set (jobs d'). j_id r' = j_id r
    \<and> status_edge (j_status r) (j_status r'))"
proof (cases "dequeue_row reg only d")
  case None
  with step ok show ?thesis by (auto simp: try_dequeue_def)
next
  case (Some row)
  have ids: "ids_ok d" using ok by (simp add: queue_ok_def)
  have row: "row \<in> set (jobs d)" "j_status row = TODO" using dequeue_row_in [OF Some] by auto
  show ?thesis
  proof (cases "claim_tx reg env answer row d")
    case (Inl e)
    with step Some ok show ?thesis by (auto simp: try_dequeue_def)
  next
    case (Inr p)
    with step Some have tx: "claim_tx reg env answer row d = Inr (res, d')"
      by (auto simp: try_dequeue_def)
    show ?thesis
    proof (cases rule: claim_tx_cases [OF ids row tx])
      case (1 f g)
      note deferred = 1
      have c: "calm_step (\<lambda>r. j_id r = j_id row) (\<lambda>r. (f r)\<lparr>j_sched := g\<rparr>) d d'"
        using defer_calm [OF ids row deferred(2,3)] deferred by simp
      have op: "queue_op (\<lambda>x y. \<exists>p f. calm_step p f x y)" by (rule calm_queue_op) blast
      show ?thesis
        using queue_op.keeps_ok [OF op ok] queue_op.moves [OF op ok] c by blast
    next
      case (2 f job a d1)
      note claimed = 2
      have "queue_ok d'"
        by (rule claim_ok [OF ok row claimed(2,4,5,7,9,10,12,13)]) (use claimed in simp_all)
      moreover have "\<exists>r' \<in> set (jobs d'). j_id r' = j_id r \<and> status_edge (j_status r) (j_status r')"
        if r: "r \<in> set (jobs d)" for r
      proof (cases "j_id r = j_id row")
        case True
        then have "r = row" using only_row [OF ids row(1)] r by blast
        let ?n = "run_row (now_s d) (if ca_fresh a then None else resolve_resume job d1) (f row)"
        have "?n \<in> set (jobs d')" using row by (auto simp: claimed(4) in_update_where)
        then show ?thesis using \<open>r = row\<close> row(2) placed_row_fields [OF claimed(2)]
          by (intro bexI [of _ ?n]) simp_all
      next
        case False
        then have "r \<in> set (jobs d')" using r by (auto simp: claimed(4) in_update_where)
        then show ?thesis by (intro bexI [of _ r]) simp_all
      qed
      ultimately show ?thesis by blast
    qed
  qed
qed

text \<open>An insert adds one TODO row.\<close>

lemma append_ok:
  assumes ok: "queue_ok d" and jobs': "jobs d' = jobs d @ [n]"
    and n: "j_id n = next_job d" "j_key n \<notin> j_key ` set (jobs d)" "j_status n = TODO"
    and rest: "next_job d' = next_job d + 1" "caps d' = caps d"
  shows "queue_ok d'"
proof -
  have ids: "ids_ok d'" using ok ids_ok_append [OF _ jobs' n(1) rest(1)] by (simp add: queue_ok_def)
  have keys: "keys_ok d'" using ok jobs' n(2) by (simp add: queue_ok_def keys_ok_def)
  have new: "r \<in> set (jobs d) \<or> r = n" if "r \<in> set (jobs d')" for r using that jobs' by auto
  have not_run: "j_status n \<noteq> RUNNING" "\<not> settled n" using n(3) by (simp_all add: settled_def)
  have "line_excl d'"
    using ok new not_run(1) unfolding queue_ok_def line_excl_def by metis
  moreover have "caps_ok d'"
    using ok new not_run(2) rest(2) unfolding queue_ok_def caps_ok_def by metis
  moreover have "runs_ok d'"
    using ok new not_run(1) unfolding queue_ok_def runs_ok_def by metis
  ultimately show ?thesis using ids keys by (simp add: queue_ok_def)
qed

lemma insert_ok:
  assumes ok: "queue_ok d" and step: "insert_job env p d = Inr (i, d1)"
    and rest: "jobs d' = jobs d1" "next_job d' = next_job d1" "caps d' = caps d1"
  shows "queue_ok d' \<and> set (jobs d) \<subseteq> set (jobs d')"
proof -
  have ids: "ids_ok d" using ok by (simp add: queue_ok_def)
  obtain th where i: "jobs d1 = jobs d @ [new_job_row p (Some th) d]" "next_job d1 = next_job d + 1"
      "p_key p \<notin> j_key ` set (jobs d)" "caps d1 = caps d"
    using insert_jobD [OF ids step] by blast
  have "queue_ok d'"
    by (rule append_ok [OF ok, of d' "new_job_row p (Some th) d"]) (use i rest in simp_all)
  then show ?thesis using i(1) rest(1) by auto
qed

lemma publish_ok:
  assumes ok: "queue_ok d" and step: "publish env skip p d = Inr (b, d')"
  shows "queue_ok d' \<and> set (jobs d) \<subseteq> set (jobs d')"
  using step
proof (cases rule: publish_cases)
  case (inserted p' i d1)
  then show ?thesis using insert_ok [OF ok, of env p' i d1 d'] by simp
qed (use ok in simp)

lemma publish_job_ok:
  assumes ok: "queue_ok d" and step: "publish_job env p d = Inr (i, d')"
  shows "queue_ok d' \<and> set (jobs d) \<subseteq> set (jobs d')"
  using step
proof (cases rule: publish_job_cases)
  case (new p' d1 d2 r)
  then show ?thesis using insert_ok [OF ok, of env p' i d1 d'] write_outboxD [OF new(4)] by simp
qed (use ok in simp)

text \<open>A mint is for a job that is RUNNING under the row's lock.\<close>

lemma mint_ok:
  assumes ok: "queue_ok d" and run: "is_running i d"
    and step: "jobs d' = jobs d" "next_job d' = next_job d"
      "\<forall>c \<in> set (caps d'). c \<in> set (caps d) \<or> c_job c = Some i"
  shows "queue_ok d'"
proof -
  have ids: "ids_ok d'" using ok ids_ok_cong [OF step(1,2)] by (simp add: queue_ok_def)
  obtain row where row: "row \<in> set (jobs d)" "j_id row = i" "j_status row = RUNNING"
    using run find_job_in by (auto simp: is_running_def)
  have "\<not> settled r" if "r \<in> set (jobs d)" "j_id r = i" for r
    using only_row [of d row r] row that ok by (auto simp: settled_def queue_ok_def)
  then have "caps_ok d'"
    using ok step(1,3) unfolding queue_ok_def caps_ok_def by (metis option.inject)
  then show ?thesis
    using ok ids step(1) unfolding queue_ok_def keys_ok_def line_excl_def runs_ok_def by simp
qed

lemma issue_caps:
  assumes "issue_capability cfg tm sha token i d = Inr d'"
  shows "jobs d' = jobs d \<and> next_job d' = next_job d
    \<and> (\<forall>c \<in> set (caps d'). c \<in> set (caps d) \<or> c_job c = opt_nat (i_job i))"
proof -
  obtain ws where "d' = d\<lparr>caps := caps d @ [cap_of_issue sha token i ws d]\<rparr>"
    using issue_capabilityD [OF assms] by metis
  then show ?thesis by (auto simp: cap_of_issue_def)
qed

lemma issue_run_ok:
  assumes ok: "queue_ok d" and step: "issue_run_capabilities cfg tm sha m t job d = Inr (r, d')"
  shows "queue_ok d' \<and> jobs d' = jobs d"
proof (cases "j_view job")
  case None
  with step ok show ?thesis by (simp add: issue_run_capabilities_def)
next
  case (Some view)
  show ?thesis
  proof (cases "is_running (j_id job) d")
    case False
    with step Some have j: "jobs d' = jobs d" "next_job d' = next_job d" "caps d' = caps d"
      by (auto simp: issue_run_capabilities_def Let_def end_execution_def)
    have "calm_step (\<lambda>_. False) id d d'" using j by (intro calm_step_idle) simp_all
    then show ?thesis using calm_step_ok ok j by blast
  next
    case True
    obtain d1 where d1: "issue_capability cfg tm sha m
          (run_issue view (j_id job) (j_execution job) (j_test job)) d = Inr d1"
      using step Some True by (auto simp: issue_run_capabilities_def split: sum.splits)
    note c1 = issue_caps [OF d1]
    have own: "opt_nat (i_job (run_issue view (j_id job) (j_execution job) (j_test job))) = Some (j_id job)"
      by (simp add: run_issue_def)
    have "jobs d' = jobs d \<and> next_job d' = next_job d
        \<and> (\<forall>c \<in> set (caps d'). c \<in> set (caps d) \<or> c_job c = Some (j_id job))"
    proof (cases "j_ref job")
      case (Some x)
      with step \<open>j_view job = Some view\<close> True d1 have "d' = d1"
        by (simp add: issue_run_capabilities_def)
      with c1 own show ?thesis by simp
    next
      case None
      let ?i = "(rest_issue (PyInt (int view)) ''service:consumer'' REST_CAPABILITY_TTL_SECONDS)
                  \<lparr>i_job := PyInt (int (j_id job))\<rparr>"
      have d2: "issue_capability cfg tm sha t ?i d1 = Inr d'"
        using step Some True d1 None by (auto simp: issue_run_capabilities_def split: sum.splits)
      have "opt_nat (i_job ?i) = Some (j_id job)" by simp
      then show ?thesis using issue_caps [OF d2] c1 own by auto
    qed
    then show ?thesis using mint_ok [OF ok True] by blast
  qed
qed

text \<open>Stale recovery ends some of the runs, and nothing else.\<close>

definition ends_runs :: "db \<Rightarrow> db \<Rightarrow> bool" where
  "ends_runs d d' \<longleftrightarrow> queue_ok d' \<and> (\<forall>r \<in> set (jobs d). \<exists>r' \<in> set (jobs d'). j_id r' = j_id r
     \<and> (j_status r' = j_status r \<or> j_status r = RUNNING))"

lemma ends_runs_refl: "queue_ok d \<Longrightarrow> ends_runs d d"
  by (auto simp: ends_runs_def)

lemma ends_runs_trans: "ends_runs a b \<Longrightarrow> ends_runs b c \<Longrightarrow> ends_runs a c"
  unfolding ends_runs_def by metis

lemma transition_ends:
  assumes ok: "queue_ok d" and step: "transition j a x h d = Inr (es, d')" and h: "leaves_ok h"
  shows "ends_runs d d'"
proof -
  note c = transition_calm [OF step h]
  have "\<exists>r' \<in> set (jobs d'). j_id r' = j_id r \<and> (j_status r' = j_status r \<or> j_status r = RUNNING)"
    if "r \<in> set (jobs d)" for r
    using c that by (intro bexI [of _ "if j_id r = j \<and> j_status r = RUNNING then left_row h (now_us d) r else r"])
      (auto simp: calm_step_def in_update_where)
  then show ?thesis using calm_step_ok [OF c ok] by (simp add: ends_runs_def)
qed

lemma recover_rows_ends:
  "queue_ok d \<Longrightarrow> recover_rows reg ask th rs d = Inr (es, d') \<Longrightarrow> ends_runs d d'"
proof (induction rs arbitrary: d es)
  case Nil
  then show ?case by (simp add: ends_runs_refl)
next
  case (Cons r rs)
  show ?case
  proof (cases "run_ended ask th d r")
    case False
    with Cons show ?thesis by simp
  next
    case True
    then obtain e1 d1 e2 where t: "transition (j_id r) (j_attempt r) None (recovery_how reg (now_s d) r) d = Inr (e1, d1)"
        "recover_rows reg ask th rs d1 = Inr (e2, d')"
      using Cons.prems(2) by (auto split: sum.splits)
    have one: "ends_runs d d1" using transition_ends [OF Cons.prems(1) t(1) recovery_how_ok] .
    then have "ends_runs d1 d'" using Cons.IH [OF _ t(2)] by (simp add: ends_runs_def)
    with one show ?thesis by (rule ends_runs_trans)
  qed
qed

lemma recover_ends:
  assumes ok: "queue_ok d"
  shows "ends_runs d (recover_stale_jobs reg ask timeout d)"
proof -
  have all: "ends_runs d (dispatch_all es d')" if "ends_runs d d'" for es d'
    using that calm_step_ok [OF calm_step_idle [of "dispatch_all es d'" d']]
    by (simp add: ends_runs_def)
  show ?thesis
    using ends_runs_refl [OF ok] recover_rows_ends [OF ok] all
    by (auto simp: recover_stale_jobs_def Let_def split: sum.splits)
qed

section \<open>The step relation\<close>

text \<open>
  One committed transaction of any of the writers. The arguments of an operation are free in
  its rule: every observer answer, runner answer, token and interleaving is covered.
\<close>

inductive queue_step :: "db \<Rightarrow> db \<Rightarrow> bool" where
  s_publish: "publish env skip p d = Inr (b, d') \<Longrightarrow> queue_step d d'"
| s_publish_job: "publish_job env p d = Inr (i, d') \<Longrightarrow> queue_step d d'"
| s_dequeue: "try_dequeue reg env answer only d = (res, d') \<Longrightarrow> queue_step d d'"
| s_finalize: "finalize_tx job error result jitter d = Inr (es, d') \<Longrightarrow> queue_step d d'"
| s_skip: "finalize_skip job d = (es, d') \<Longrightarrow> queue_step d d'"
| s_announce: "queue_step d (dispatch_all es d)"
| s_recover: "queue_step d (recover_stale_jobs reg ask timeout d)"
| s_pause: "pause_job reg i d = Inr (job, d') \<Longrightarrow> queue_step d d'"
| s_resume: "queue_step d
    (update_jobs (\<lambda>r. j_id r = i \<and> j_status r = PAUSED) (resumed_row (now_s d)) d)"
| s_runtime: "set_job_runtime reg i h m c t ct d = Inr (job, d') \<Longrightarrow> queue_step d d'"
| s_issue: "issue_run_capabilities cfg tm sha mt rt job d = Inr (toks, d') \<Longrightarrow> queue_step d d'"
| s_pid: "queue_step d (save_pid i pid ref d)"
| s_session: "queue_step d (save_session_id i s d)"
| s_reference: "queue_step d (update_job_reference_id i s d)"
| s_credential: "queue_step d (cred_step fromiso op d)"
| s_wake: "queue_step d (snd (wake_auth_waiting_jobs d))"
| s_prune_outbox: "queue_step d (snd (prune_outbox days d))"
| s_prune_stretches: "queue_step d (snd (prune_defer_stretches days d))"
| s_purge: "queue_step d (snd (purge_expired_capabilities secs d))"
| s_revoke: "queue_step d (snd (revoke_capability sha token d))"
| s_views: "queue_step d (d\<lparr>views := v\<rparr>)"

lemma calm_moves:
  assumes "calm_step p f d d'" and "queue_ok d"
  shows "queue_ok d' \<and> (\<forall>r \<in> set (jobs d). \<exists>r' \<in> set (jobs d'). j_id r' = j_id r
    \<and> status_edge (j_status r) (j_status r'))"
proof -
  have op: "queue_op (\<lambda>x y. \<exists>p f. calm_step p f x y)" by (rule calm_queue_op) blast
  show ?thesis
    using queue_op.keeps_ok [OF op assms(2)] queue_op.moves [OF op assms(2)] assms(1) by blast
qed

lemma idle_moves:
  "jobs d' = jobs d \<Longrightarrow> next_job d' = next_job d \<Longrightarrow> caps_follow d d' \<Longrightarrow> queue_ok d
    \<Longrightarrow> queue_ok d' \<and> (\<forall>r \<in> set (jobs d). \<exists>r' \<in> set (jobs d'). j_id r' = j_id r
      \<and> status_edge (j_status r) (j_status r'))"
  by (rule calm_moves [OF calm_step_idle])

lemma quiet_moves:
  "quiet_row f \<Longrightarrow> queue_ok d \<Longrightarrow> queue_ok (update_jobs p f d)
    \<and> (\<forall>r \<in> set (jobs d). \<exists>r' \<in> set (jobs (update_jobs p f d)). j_id r' = j_id r
      \<and> status_edge (j_status r) (j_status r'))"
  by (rule calm_moves [OF calm_step_quiet])

lemma subset_moves:
  "queue_ok d' \<and> set (jobs d) \<subseteq> set (jobs d') \<Longrightarrow> queue_ok d'
    \<and> (\<forall>r \<in> set (jobs d). \<exists>r' \<in> set (jobs d'). j_id r' = j_id r
      \<and> status_edge (j_status r) (j_status r'))"
  by (metis status_edge_refl subsetD)

lemma resume_calm:
  "calm_step (\<lambda>r. j_id r = i \<and> j_status r = PAUSED) (resumed_row n) d
     (update_jobs (\<lambda>r. j_id r = i \<and> j_status r = PAUSED) (resumed_row n) d)"
  by (auto simp: calm_step_def calm_def resumed_row_def settled_def)

lemma cred_step_queue:
  "caps (cred_step fromiso op d) = caps d \<and> next_job (cred_step fromiso op d) = next_job d
   \<and> (\<exists>p. jobs (cred_step fromiso op d) = update_where p (\<lambda>r. r\<lparr>j_sched := now_s d\<rparr>) (jobs d))"
proof (cases op)
  case (ReleaseOp i w)
  show ?thesis
  proof (cases "fst (release_credential_lease i w d)")
    case True
    then show ?thesis
      by (auto simp: ReleaseOp release_credential_lease_def set_cred_def Let_def)
  next
    case False
    then show ?thesis
      by (auto simp: ReleaseOp release_credential_lease_def set_cred_def Let_def
          intro!: exI [of _ "\<lambda>_. False"] simp: update_where_def)
  qed
next
  case (RegisterOp s l p n ty)
  then show ?thesis
    by (auto simp: register_credential_def Let_def update_where_def intro!: exI [of _ "\<lambda>_. False"]
        split: option.splits sum.splits)
next
  case (SelectOp s l c)
  then show ?thesis
    by (auto simp: select_credential_def Let_def update_where_def intro!: exI [of _ "\<lambda>_. False"]
        split: option.splits)
next
  case (RenewOp ws n)
  then show ?thesis
    by (auto simp: renew_credential_leases_def Let_def update_where_def intro!: exI [of _ "\<lambda>_. False"])
qed (auto simp: cred_op_defs claim_credential_lease_def Let_def update_where_def
      intro!: exI [of _ "\<lambda>_. False"])

lemma queue_step_moves:
  assumes "queue_step d d'" and ok: "queue_ok d"
  shows "queue_ok d' \<and> (\<forall>r \<in> set (jobs d). \<exists>r' \<in> set (jobs d'). j_id r' = j_id r
    \<and> status_edge (j_status r) (j_status r'))"
  using assms(1) ok
proof (cases rule: queue_step.cases)
  case (s_publish env skip p b)
  show ?thesis by (rule subset_moves [OF publish_ok [OF ok s_publish]])
next
  case (s_publish_job env p i)
  show ?thesis by (rule subset_moves [OF publish_job_ok [OF ok s_publish_job]])
next
  case (s_dequeue reg env answer only res)
  show ?thesis by (rule try_dequeue_ok [OF ok s_dequeue])
next
  case (s_finalize job error result jitter es)
  have "\<exists>p f. calm_step p f d d'"
  proof (cases error)
    case None
    with s_finalize have "d' = snd (finalize_success job result d)"
      by (auto simp: finalize_tx_def)
    then show ?thesis using finalize_success_calm by simp
  next
    case (Some e)
    with s_finalize show ?thesis by (intro finalize_failure_calm) (auto simp: finalize_tx_def)
  qed
  then show ?thesis using calm_moves ok by blast
next
  case (s_skip job es)
  then have "jobs d' = jobs d" "next_job d' = next_job d" "caps d' = caps d"
    by (auto simp: finalize_skip_def end_execution_def)
  then show ?thesis by (intro idle_moves ok) simp_all
next
  case (s_recover reg ask timeout)
  have "ends_runs d d'" unfolding s_recover using recover_ends [OF ok] .
  then show ?thesis unfolding ends_runs_def by (metis status_edge.simps(2) status_edge_refl)
next
  case (s_pause reg i job)
  show ?thesis using pause_calm [OF s_pause] calm_moves ok by blast
next
  case (s_resume i)
  show ?thesis unfolding s_resume by (rule calm_moves [OF resume_calm ok])
next
  case (s_runtime reg i h m c t ct job)
  show ?thesis using set_runtime_calm [OF s_runtime] calm_moves ok by blast
next
  case (s_issue cfg tm sha mt rt job toks)
  show ?thesis using issue_run_ok [OF ok s_issue] by (intro subset_moves) simp
next
  case (s_credential fromiso op)
  obtain p where c: "caps d' = caps d" "next_job d' = next_job d"
      "jobs d' = update_where p (\<lambda>r. r\<lparr>j_sched := now_s d\<rparr>) (jobs d)"
    using cred_step_queue [of fromiso op d] s_credential by auto
  have "calm_step p (\<lambda>r. r\<lparr>j_sched := now_s d\<rparr>) d d'"
    using c by (auto simp: calm_step_def calm_def settled_def)
  then show ?thesis using calm_moves ok by blast
next
  case s_wake
  show ?thesis
  proof (cases "auth_waiting_ids d = []")
    case True
    with s_wake have "d' = d" by (simp add: wake_auth_waiting_jobs_def)
    then show ?thesis using ok by (intro subset_moves) simp
  next
    case False
    have q: "quiet_row (\<lambda>r. r\<lparr>j_sched := min (j_sched r) (now_s d)\<rparr>)" by (simp add: quiet_row_def)
    show ?thesis using quiet_moves [OF q ok] False s_wake
      by (simp add: wake_auth_waiting_jobs_def Let_def)
  qed
next
  case (s_purge secs)
  then have "caps_follow d d'"
    by (auto simp: caps_follow_def purge_expired_capabilities_def Let_def)
  with s_purge show ?thesis
    by (intro idle_moves ok) (simp_all add: purge_expired_capabilities_def Let_def)
next
  case (s_revoke sha token)
  have "caps_follow d d'"
    unfolding caps_follow_def
  proof (intro ballI)
    fix c assume "c \<in> set (caps d')"
    then obtain c0 where "c0 \<in> set (caps d)" "c = (if c_hash c0 = sha token \<and> c_revoked c0 = None
        then c0\<lparr>c_revoked := Some (now_s d)\<rparr> else c0)"
      by (auto simp: s_revoke revoke_capability_def Let_def in_update_where)
    then show "\<exists>c0 \<in> set (caps d). c_job c = c_job c0 \<and> (c_revoked c0 \<noteq> None \<longrightarrow> c_revoked c \<noteq> None)"
      by (intro bexI [of _ c0]) auto
  qed
  with s_revoke show ?thesis
    by (intro idle_moves ok) (simp_all add: revoke_capability_def Let_def)
next
  case (s_announce es)
  then show ?thesis by (intro idle_moves ok) simp_all
next
  case (s_pid i pid ref)
  show ?thesis unfolding s_pid save_pid_def by (rule quiet_moves) (simp_all add: quiet_row_def ok)
next
  case (s_session i s)
  show ?thesis unfolding s_session save_session_id_def
    by (rule quiet_moves) (simp_all add: quiet_row_def ok)
next
  case (s_reference i s)
  show ?thesis unfolding s_reference update_job_reference_id_def
    by (rule quiet_moves) (simp_all add: quiet_row_def ok)
next
  case (s_prune_outbox days)
  then show ?thesis by (intro idle_moves ok) (simp_all add: prune_outbox_def Let_def)
next
  case (s_prune_stretches days)
  then show ?thesis by (intro idle_moves ok) (simp_all add: prune_defer_stretches_def Let_def)
next
  case (s_views v)
  then show ?thesis by (intro idle_moves ok) simp_all
qed

interpretation queue: queue_op queue_step
  using queue_step_moves by unfold_locales blast+

text \<open>Every state the system can reach from an empty database.\<close>

definition queue_reachable :: "db \<Rightarrow> bool" where
  "queue_reachable d \<longleftrightarrow> (\<exists>t. rtranclp queue_step (empty_db t) d)"

lemma reachable_ok: "queue_reachable d \<Longrightarrow> queue_ok d"
  unfolding queue_reachable_def using queue.always_ok empty_ok by blast

text \<open>A whole finalize, retries and interleaved writers included, is a sequence of steps.\<close>

lemma announce_step: "rtranclp queue_step d d' \<Longrightarrow> rtranclp queue_step d (dispatch_all es d')"
  using rtranclp.rtrancl_into_rtrancl s_announce by metis

lemma finalize_loop_steps:
  assumes "\<forall>t \<in> set tries. \<forall>x. rtranclp queue_step x (y_others t x)"
  shows "rtranclp queue_step d (finalize_loop job error res veto asked tries d)"
  using assms
proof (induction tries arbitrary: d error asked)
  case Nil
  then show ?case by simp
next
  case (Cons t ts)
  note IH = Cons.IH [OF ballI [OF Cons.prems [THEN bspec, OF list.set_intros(2)]]]
  show ?case
  proof (cases "y_fault t = CheckoutFails \<or> (\<not> is_running (j_id job) d \<and> y_fault t = CommitFails)")
    case True
    then show ?thesis using IH by auto
  next
    case run: False
    show ?thesis
    proof (cases "is_running (j_id job) d")
      case False
      obtain es d' where k: "finalize_skip job d = (es, d')" by fastforce
      then have "rtranclp queue_step d d'" by (intro r_into_rtranclp s_skip)
      then show ?thesis using run False k announce_step by simp
    next
      case True
      let ?ask = "error = None \<and> \<not> asked"
      let ?e = "vetoed error asked veto"
      let ?pre = "(if ?ask then [JobFinalizeBefore (j_id job)] else [])
        @ (case ?e of None \<Rightarrow> [] | Some e \<Rightarrow> [JobFailAfter (j_id job) (x_class e)])"
      let ?d1 = "dispatch_all ?pre (y_others t d)"
      have d1: "rtranclp queue_step d ?d1" using Cons.prems announce_step by simp
      have more: "rtranclp queue_step d (finalize_loop job ?e res veto (asked \<or> ?ask) ts ?d1)"
        using d1 IH by (rule rtranclp_trans)
      show ?thesis
      proof (cases "finalize_tx job ?e res (y_jitter t) ?d1")
        case (Inl e)
        then show ?thesis using run True more by (simp add: Let_def)
      next
        case (Inr p)
        obtain es d2 where p: "p = (es, d2)" by fastforce
        then have "queue_step ?d1 d2" using Inr by (intro s_finalize) simp
        with d1 have "rtranclp queue_step d d2" by (rule rtranclp.rtrancl_into_rtrancl)
        then show ?thesis using run True Inr p more announce_step by (simp add: Let_def)
      qed
    qed
  qed
qed

lemma finalize_job_steps:
  assumes "\<forall>t \<in> set tries. \<forall>x. rtranclp queue_step x (y_others t x)"
  shows "rtranclp queue_step d (finalize_job job error res veto tries d)"
  unfolding finalize_job_def using assms
  by (intro finalize_loop_steps) (auto dest: in_set_takeD)

lemma resume_job_steps:
  assumes "rtranclp queue_step d (others d)" and "resume_job reg ask i others d = Inr (job, d')"
  shows "rtranclp queue_step d d'"
  using resume_jobD [OF assms(2)] assms(1) s_resume [of "others d" i]
  by (auto intro: rtranclp.rtrancl_into_rtrancl)

text \<open>Two runs of one line see each other.\<close>

lemma same_line_where:
  assumes "line_key r = line_key q" and "j_thread r = j_thread q" and "j_thread r \<noteq> None"
  shows "line_where r q"
  using assms
  by (auto simp: line_where_def line_key_def sql_eq_def split: if_splits option.splits)

lemma one_run_per_line:
  assumes ok: "queue_ok d" and r: "r \<in> set (jobs d)" "j_status r = RUNNING"
    and q: "q \<in> set (jobs d)" "j_status q = RUNNING"
    and line: "line_key r = line_key q" "j_thread r = j_thread q" "j_thread r \<noteq> None"
  shows "r = q"
proof (rule ccontr)
  assume "r \<noteq> q"
  then have "j_id r \<noteq> j_id q" using only_row [of d q r] ok r q by (auto simp: queue_ok_def)
  moreover have "line_where r q" "line_where q r"
    using same_line_where [of r q] same_line_where [of q r] line by simp_all
  ultimately show False using ok r q unfolding queue_ok_def line_excl_def by blast
qed

text \<open>What a claim and a deferral do, over the whole table.\<close>

lemma try_dequeue_Claimed:
  assumes ids: "ids_ok d" and step: "try_dequeue reg env answer only d = (Claimed job', d')"
  obtains row f job a d1 where "dequeue_row reg only d = Some row" "placed_row f"
    "jobs d' = update_where (\<lambda>r. j_id r = j_id row) (\<lambda>r. if j_status r = TODO
       then run_row (now_s d) (if ca_fresh a then None else resolve_resume job d1) (f r)
       else f r) (jobs d)"
    "start_job job a d1 = Inr (Claimed job', d')" "j_id job = j_id row" "j_attempt job = j_attempt row"
    "outbox d1 = outbox d" "next_outbox d1 = next_outbox d" "now_us d1 = now_us d"
    "j_id job' = j_id row" "j_attempt job' = j_attempt row + 1" "a = answer (j_id row)"
    "\<not> line_blocked job d1" "\<not> claim_defers a" "caps d' = caps d"
    "j_resume job' = (if ca_fresh a then None else resolve_resume job d1)"
proof -
  obtain row where row: "dequeue_row reg only d = Some row"
    using step by (cases "dequeue_row reg only d") (auto simp: try_dequeue_def)
  then have tx: "claim_tx reg env answer row d = Inr (Claimed job', d')"
    using step by (auto simp: try_dequeue_def split: sum.splits)
  note in_table = dequeue_row_in [OF row]
  show thesis
  proof (cases rule: claim_tx_cases [OF ids conjunct1 [OF in_table] conjunct2 [OF in_table] tx])
    case (2 f job a d1)
    then show thesis by (intro that [OF row 2(2) 2(4) 2(8)]) simp_all
  qed simp
qed

lemma try_dequeue_Deferred:
  assumes ids: "ids_ok d" and step: "try_dequeue reg env answer only d = (ClaimDeferred i, d')"
  obtains row f g where "dequeue_row reg only d = Some row" "placed_row f" "i = j_id row"
    "jobs d' = update_where (\<lambda>r. j_id r = i) (\<lambda>r. (f r)\<lparr>j_sched := g\<rparr>) (jobs d)"
    "now_s d + 1 \<le> g" "g \<le> now_s d + 30" "outbox d' = outbox d" "events d' = events d"
    "caps d' = caps d"
proof -
  obtain row where row: "dequeue_row reg only d = Some row"
    using step by (cases "dequeue_row reg only d") (auto simp: try_dequeue_def)
  then have tx: "claim_tx reg env answer row d = Inr (ClaimDeferred i, d')"
    using step by (auto simp: try_dequeue_def split: sum.splits)
  note in_table = dequeue_row_in [OF row]
  show thesis
  proof (cases rule: claim_tx_cases [OF ids conjunct1 [OF in_table] conjunct2 [OF in_table] tx])
    case (1 f g)
    then show thesis by (intro that [OF row 1(2)]) simp_all
  qed simp
qed

end
