(* ===== verification/Outcomes.thy ===== *)
theory Outcomes
  imports Job_Lifecycle
begin

text \<open>
  What a finalize and a recovery pass leave of the table, row by row, and which announcements a
  finalize makes.
\<close>

section \<open>One finalize transaction\<close>

text \<open>The session reset of a \<open>fresh_start\<close> verdict; it does not look at the status.\<close>

definition reset_session :: "exn option \<Rightarrow> job_row \<Rightarrow> job_row" where
  "reset_session error r =
     (case error of None \<Rightarrow> r
      | Some e \<Rightarrow> if error_fresh_start e then r\<lparr>j_session := None\<rparr> else r)"

definition finalized_row ::
    "job \<Rightarrow> exn option \<Rightarrow> run_result option \<Rightarrow> nat \<Rightarrow> nat \<Rightarrow> job_row \<Rightarrow> job_row" where
  "finalized_row job error res jitter now r =
     (case error of None \<Rightarrow> success_row res now r
      | Some e \<Rightarrow> left_row (failure_how job e res jitter now) now (reset_session error r))"

lemma left_row_class [simp]: "j_error_class (left_row h now r) = Some (h_class h)"
  by (simp add: left_row_def)

lemma reset_session_fields [simp]:
  "j_id (reset_session e r) = j_id r" "j_status (reset_session e r) = j_status r"
  "j_attempt (reset_session e r) = j_attempt r" "j_sched (reset_session e r) = j_sched r"
  "j_max (reset_session e r) = j_max r"
  by (simp_all add: reset_session_def split: option.split)

lemma finalized_row_fields [simp]:
  "j_id (finalized_row job error res jitter now r) = j_id r"
  "j_status (finalized_row job error res jitter now r) \<noteq> RUNNING"
  using failure_how_ok
  by (auto simp: finalized_row_def success_row_def leaves_ok_def split: option.split)

lemma finalize_tx_jobs:
  assumes "finalize_tx job error res jitter d = Inr (es, d')"
  shows "jobs d' = update_where (\<lambda>r. j_id r = j_id job)
     (\<lambda>r. if j_status r = RUNNING then finalized_row job error res jitter (now_us d) r
          else reset_session error r) (jobs d)"
proof (cases error)
  case None
  with assms have "d' = snd (finalize_success job res d)" by (auto simp: finalize_tx_def)
  then show ?thesis using None
    by (simp add: finalize_success_def Let_def end_execution_def finalized_row_def reset_session_def
        update_where_def)
next
  case (Some e)
  let ?h = "failure_how job e res jitter (now_us d)"
  have t: "transition (j_id job) (j_attempt job) (j_execution job) ?h
      (if error_fresh_start e
       then update_jobs (\<lambda>r. j_id r = j_id job) (\<lambda>r. r\<lparr>j_session := None\<rparr>) d else d) = Inr (es, d')"
    using assms Some by (simp add: finalize_tx_def finalize_failure_def Let_def)
  show ?thesis
    using conjunct1 [OF transitionD [OF t]] Some
    by (cases "error_fresh_start e")
      (auto simp: update_where_def finalized_row_def reset_session_def)
qed

lemma finalize_failure_outbox:
  assumes "finalize_tx job (Some e) res jitter d = Inr (es, d')"
  shows "(h_revoke (failure_how job e res jitter (now_us d)) \<or> caps d' = caps d)
    \<and> outbox d' = outbox d @ (if h_failed (failure_how job e res jitter (now_us d))
        then [\<lparr>o_id = next_outbox d, o_job = j_id job, o_execution = j_execution job,
          o_kind = ''job.failed'', o_payload = failed_payload (j_id job) (j_attempt job)
            (x_class e) (j_execution job), o_created = now_s d\<rparr>] else [])"
proof -
  let ?h = "failure_how job e res jitter (now_us d)"
  have t: "transition (j_id job) (j_attempt job) (j_execution job) ?h
      (if error_fresh_start e
       then update_jobs (\<lambda>r. j_id r = j_id job) (\<lambda>r. r\<lparr>j_session := None\<rparr>) d else d) = Inr (es, d')"
    using assms by (simp add: finalize_tx_def finalize_failure_def Let_def)
  have c: "h_class ?h = x_class e" by (simp add: failure_how_def Let_def)
  show ?thesis using transitionD [OF t] by (cases "error_fresh_start e") (auto simp: c)
qed

lemma finalize_tx_total:
  assumes "\<And>s. j_execution job = Some s \<Longrightarrow> \<not> forbidden_value s"
  shows "\<exists>r. finalize_tx job error res jitter d = Inr r"
proof (cases error)
  case (Some e)
  then show ?thesis using transition_total [of "j_execution job"] assms
    by (simp add: finalize_tx_def finalize_failure_def Let_def)
qed (simp add: finalize_tx_def)

lemma is_running_row:
  "is_running i d \<Longrightarrow> \<exists>r \<in> set (jobs d). j_id r = i \<and> j_status r = RUNNING"
  using find_job_in by (auto simp: is_running_def)

lemma finalize_tx_ends:
  assumes "finalize_tx job error res jitter d = Inr (es, d')"
  shows "\<not> is_running (j_id job) d'"
proof
  assume "is_running (j_id job) d'"
  then obtain r' where r': "r' \<in> set (jobs d')" "j_id r' = j_id job" "j_status r' = RUNNING"
    using is_running_row by blast
  then obtain r where "r \<in> set (jobs d)" and eq: "r' = (if j_id r = j_id job
      then if j_status r = RUNNING then finalized_row job error res jitter (now_us d) r
           else reset_session error r else r)"
    unfolding finalize_tx_jobs [OF assms] in_update_where by blast
  then show False using r' by (cases "j_id r = j_id job"; cases "j_status r = RUNNING") auto
qed

lemma is_running_cong: "jobs d' = jobs d \<Longrightarrow> is_running i d' = is_running i d"
  by (simp add: is_running_def find_job_def)

section \<open>The whole finalize\<close>

text \<open>The events before the transaction, and one try of a job that is RUNNING.\<close>

definition before_tx :: "job \<Rightarrow> exn option \<Rightarrow> verdict option \<Rightarrow> bool \<Rightarrow> db \<Rightarrow> db" where
  "before_tx job error veto asked d =
     dispatch_all ((if error = None \<and> \<not> asked then [JobFinalizeBefore (j_id job)] else [])
       @ (case vetoed error asked veto of None \<Rightarrow> []
          | Some e \<Rightarrow> [JobFailAfter (j_id job) (x_class e)])) d"

lemma finalize_loop_try:
  assumes "y_fault t \<noteq> CheckoutFails" and "is_running (j_id job) d"
    and "finalize_tx job (vetoed error asked veto) res (y_jitter t)
           (before_tx job error veto asked (y_others t d)) = Inr (es, d2)"
  shows "finalize_loop job error res veto asked (t # ts) d =
     (if y_fault t = CommitFails
      then finalize_loop job (vetoed error asked veto) res veto (asked \<or> (error = None \<and> \<not> asked)) ts
             (before_tx job error veto asked (y_others t d))
      else dispatch_all (es @ [JobFinalizeAfter (j_id job)
             (if asked \<or> (error = None \<and> \<not> asked) then veto else None)]) d2)"
  using assms unfolding before_tx_def by (simp add: Let_def del: dispatch_all.simps)

text \<open>A try that the database does not fail ends the run, whatever the tries before it did.\<close>

lemma finalize_loop_ends:
  assumes x: "\<And>s. j_execution job = Some s \<Longrightarrow> \<not> forbidden_value s"
    and good: "\<exists>t \<in> set tries. y_fault t = NoFault"
  shows "\<not> is_running (j_id job) (finalize_loop job error res veto asked tries d)"
  using good
proof (induction tries arbitrary: d error asked)
  case (Cons t ts)
  obtain es d2 where tx: "finalize_tx job (vetoed error asked veto) res (y_jitter t)
      (before_tx job error veto asked (y_others t d)) = Inr (es, d2)"
    using finalize_tx_total [OF x] by (metis surj_pair)
  have ended: "\<not> is_running (j_id job) (dispatch_all es' d2)" for es'
    using finalize_tx_ends [OF tx] is_running_cong [of "dispatch_all es' d2" d2] by simp
  have more: "\<not> is_running (j_id job) (finalize_loop job error' res veto asked' ts d')"
    if "y_fault t \<noteq> NoFault" for error' asked' d'
    using Cons that by auto
  show ?case
  proof (cases "y_fault t = CheckoutFails")
    case True
    then show ?thesis using more by simp
  next
    case checked_out: False
    show ?thesis
    proof (cases "is_running (j_id job) d")
      case False
      then show ?thesis using checked_out more
        by (simp add: finalize_skip_def end_execution_def Let_def is_running_def find_job_def)
    next
      case True
      then show ?thesis
        unfolding finalize_loop_try [OF checked_out True tx] using more ended by simp
    qed
  qed
qed simp

text \<open>A finalize that finds the row no longer RUNNING only abandons its execution.\<close>

lemma finalize_loop_lost:
  assumes "\<not> is_running (j_id job) d"
  shows "jobs (finalize_loop job error res veto asked tries d) = jobs d
    \<and> caps (finalize_loop job error res veto asked tries d) = caps d
    \<and> outbox (finalize_loop job error res veto asked tries d) = outbox d
    \<and> (\<exists>es. events (finalize_loop job error res veto asked tries d) = events d @ es
         \<and> set es \<subseteq> {ExecutionAbandonAfter (j_execution job) (j_id job) (j_attempt job)})"
  using assms
proof (induction tries)
  case (Cons t ts)
  then show ?case
    by (cases "y_fault t") (simp_all add: finalize_skip_def end_execution_def Let_def)
qed simp

section \<open>Recovery\<close>

text \<open>What a recovery pass makes of a row.\<close>

definition recovered_row :: "type_registry \<Rightarrow> runner_ask \<Rightarrow> nat \<Rightarrow> db \<Rightarrow> job_row \<Rightarrow> job_row" where
  "recovered_row reg ask threshold d r =
     (if j_status r = RUNNING \<and> run_ended ask threshold d r
      then left_row (recovery_how reg (now_s d) r) (now_us d) r else r)"

lemma recover_rows_jobs:
  assumes "distinct (map j_id rs)" "distinct (map j_id (jobs d))"
    and "set rs \<subseteq> set (jobs d)" "\<forall>r \<in> set rs. j_status r = RUNNING"
  shows "\<exists>es d'. recover_rows reg ask th rs d = Inr (es, d')
    \<and> jobs d' = map (\<lambda>r. if r \<in> set rs then recovered_row reg ask th d r else r) (jobs d)"
  using assms
proof (induction rs arbitrary: d)
  case Nil
  then show ?case by simp
next
  case (Cons r rs)
  show ?case
  proof (cases "run_ended ask th d r")
    case False
    then have "recovered_row reg ask th d r = r" by (simp add: recovered_row_def)
    moreover obtain es d' where "recover_rows reg ask th rs d = Inr (es, d')"
      and "jobs d' = map (\<lambda>q. if q \<in> set rs then recovered_row reg ask th d q else q) (jobs d)"
      using Cons.IH [of d] Cons.prems by auto
    ultimately show ?thesis using False by auto
  next
    case True
    let ?h = "recovery_how reg (now_s d) r"
    obtain es1 d1 where t: "transition (j_id r) (j_attempt r) None ?h d = Inr (es1, d1)"
      using transition_total [of None] by (metis option.distinct(1) surj_pair)
    have td: "jobs d1 = update_where (\<lambda>q. j_id q = j_id r \<and> j_status q = RUNNING)
        (left_row ?h (now_us d)) (jobs d)"
      using transitionD [OF t] by blast
    have clock: "now_us d1 = now_us d" using transitionD [OF t] by blast
    have only: "q = r" if "q \<in> set (jobs d)" "j_id q = j_id r" for q
    proof -
      have "inj_on j_id (set (jobs d))" using Cons.prems(2) by (simp add: distinct_map)
      moreover have "r \<in> set (jobs d)" using Cons.prems(3) by simp
      ultimately show ?thesis using that by (auto dest: inj_onD)
    qed
    have rr: "recovered_row reg ask th d r = left_row ?h (now_us d) r"
      using True Cons.prems(4) by (simp add: recovered_row_def)
    have jobs1: "jobs d1 = map (\<lambda>q. if q = r then recovered_row reg ask th d q else q) (jobs d)"
      unfolding td update_where_def using only Cons.prems(4) rr by (intro map_cong refl) auto
    have ids: "map j_id (jobs d1) = map j_id (jobs d)" by (auto simp: jobs1 rr)
    have notr: "r \<notin> set rs" using Cons.prems(1) by (auto simp: image_iff)
    have sub: "set rs \<subseteq> set (jobs d1)"
    proof
      fix q assume "q \<in> set rs"
      then have "q \<in> set (jobs d)" "q \<noteq> r" using Cons.prems(3) notr by auto
      then show "q \<in> set (jobs d1)" unfolding jobs1 by (auto simp: image_iff intro!: bexI [of _ q])
    qed
    have same: "recovered_row reg ask th d1 q = recovered_row reg ask th d q" for q
      by (simp only: recovered_row_def run_ended_def clock)
    obtain es2 d2 where r2: "recover_rows reg ask th rs d1 = Inr (es2, d2)"
      and jobs2: "jobs d2 = map (\<lambda>q. if q \<in> set rs then recovered_row reg ask th d1 q else q) (jobs d1)"
      using Cons.IH [of d1] Cons.prems sub ids by auto
    have "j_id (recovered_row reg ask th d r) \<notin> j_id ` set rs" using Cons.prems(1) by (simp add: rr)
    then have new: "recovered_row reg ask th d r \<notin> set rs" by blast
    have "jobs d2 = map (\<lambda>q. if q \<in> set (r # rs) then recovered_row reg ask th d q else q) (jobs d)"
      unfolding jobs2 jobs1 map_map using new notr by (intro map_cong refl) (simp add: same)
    then show ?thesis using True t r2 by simp
  qed
qed

lemma recover_stale_jobs_rows:
  assumes ids: "ids_ok d"
    and fine: "\<forall>r \<in> set (jobs d). j_status r = RUNNING \<and> run_ended ask (timeout + 60) d r
      \<longrightarrow> \<not> recovery_raises reg r"
  shows "jobs (recover_stale_jobs reg ask timeout d) = map (recovered_row reg ask (timeout + 60) d) (jobs d)"
proof -
  let ?rs = "filter (\<lambda>r. j_status r = RUNNING) (jobs d)"
  have dist: "distinct (map j_id (jobs d))" using ids by (rule ids_ok_distinct)
  obtain es d' where rec: "recover_rows reg ask (timeout + 60) ?rs d = Inr (es, d')"
    and jobs': "jobs d' = map (\<lambda>r. if r \<in> set ?rs then recovered_row reg ask (timeout + 60) d r else r) (jobs d)"
  proof -
    have "set ?rs \<subseteq> set (jobs d)" "\<forall>r \<in> set ?rs. j_status r = RUNNING" by auto
    from recover_rows_jobs [OF distinct_map_filter [OF dist] dist this] that show ?thesis by blast
  qed
  have "jobs d' = map (recovered_row reg ask (timeout + 60) d) (jobs d)"
    unfolding jobs' by (auto simp: recovered_row_def)
  moreover have "recover_stale_jobs reg ask timeout d = dispatch_all es d'"
    using rec fine by (auto simp: recover_stale_jobs_def Let_def)
  ultimately show ?thesis by simp
qed

end
