(* ===== verification/Samples.thy ===== *)
theory Samples
  imports Outcomes
begin

text \<open>
  A small concrete system: one published job, its claim, its pause. The witnesses of the
  properties evaluate the model on it.
\<close>

definition sample_env :: env where
  "sample_env = \<lparr>sha1_hex = (\<lambda>s. s), token_hex = str_nat\<rparr>"

definition sample_pub :: publication where
  "sample_pub = \<lparr>p_type = BuiltinType TODO_TYPE, p_source = ''jira'', p_view = None, p_priority = 50,
     p_ref = Some ''AI-1'', p_key = ''k1'', p_max = 3, p_requester = None, p_prompt = None,
     p_context = None, p_harness = None, p_model = None, p_thread = None, p_thread_id = None,
     p_parent = None, p_depth = 0, p_line = None, p_test = None\<rparr>"

definition sample_answer :: "nat \<Rightarrow> claim_answer" where
  "sample_answer = (\<lambda>_. \<lparr>ca_completed = True, ca_defer = False, ca_delay = PyNone,
     ca_detach = False, ca_fresh = False\<rparr>)"

definition sample_start :: db where "sample_start = empty_db 1000000000"

definition sample_row :: job_row where
  "sample_row =
     \<lparr>j_id = 1, j_schedule_id = None, j_type = ''todo'', j_source = ''jira'', j_view = None,
      j_priority = 50, j_ref = Some ''AI-1'', j_agent_type = None, j_provider = None,
      j_model = None, j_input_tokens = None, j_output_tokens = None, j_prompt = None,
      j_output = None, j_context = None, j_key = ''k1'', j_status = TODO, j_attempt = 0, j_max = 3,
      j_sched = 1000, j_started = None, j_finished = None, j_summary = None, j_error_msg = None,
      j_error_class = None, j_pid = None, j_runner = None, j_session = None, j_created = 1000,
      j_updated = 1000, j_rq_key = None, j_rq_email = None, j_rq_trust = ''claimed'',
      j_rq_meta = None, j_parent = None, j_depth = 0, j_test = None, j_thread = Some 1,
      j_resume = None, j_line = None\<rparr>"

definition sample_thread :: thread_row where
  "sample_thread = \<lparr>t_id = 1, t_view = None, t_ref = ''jira:AI-1'', t_hash = ''jira:AI-1'', t_key = ''1''\<rparr>"

definition sample_todo :: db where
  "sample_todo = sample_start\<lparr>jobs := [sample_row], next_job := 2, threads := [sample_thread],
     next_thread := 2,
     outbox := [\<lparr>o_id = 1, o_job = 1, o_execution = None, o_kind = ''job.queued'',
       o_payload = queued_payload sample_pub, o_created = 1000\<rparr>], next_outbox := 2,
     events := [publish_event sample_pub (Some 1)]\<rparr>"

lemma sample_kinds:
  "KIND_GRAMMAR ''job.queued''" "KIND_GRAMMAR ''job.claimed''" "KIND_GRAMMAR ''job.failed''"
  "KIND_GRAMMAR ''job.deferred''"
  by code_simp+

lemma sample_payload: "check_plain (queued_payload sample_pub)"
proof -
  have "\<not> forbidden_key ''type''" "\<not> forbidden_key ''source''" "\<not> forbidden_key ''agent_view_id''"
    "\<not> forbidden_key ''priority''" "\<not> forbidden_value ''todo''" "\<not> forbidden_value ''jira''"
    by code_simp+
  then show ?thesis by (simp add: queued_payload_def sample_pub_def)
qed

lemma sample_pub_fields [simp]:
  "p_type sample_pub = BuiltinType TODO_TYPE" "p_source sample_pub = ''jira''"
  "p_view sample_pub = None" "p_ref sample_pub = Some ''AI-1''" "p_key sample_pub = ''k1''"
  "p_thread sample_pub = None" "p_thread_id sample_pub = None" "p_parent sample_pub = None"
  "sample_pub\<lparr>p_harness := None, p_model := None\<rparr> = sample_pub"
  by (simp_all add: sample_pub_def)

lemma sample_start_fields [simp]:
  "jobs sample_start = []" "next_job sample_start = 1" "threads sample_start = []"
  "next_thread sample_start = 1" "views sample_start = []" "now_us sample_start = 1000000000"
  "outbox sample_start = []" "next_outbox sample_start = 1" "events sample_start = []"
  by (simp_all add: sample_start_def empty_db_def)

lemma sample_thread_of_new: "thread_of_new sample_env sample_pub sample_start
    = Inr (Some 1, sample_start\<lparr>threads := [sample_thread], next_thread := 2\<rparr>)"
  by (simp add: thread_of_new_def default_ref_def ensure_thread_def MAX_REF_LENGTH_def truthy_def
      sample_thread_def sample_env_def str_nat.simps digit_char_def)

lemma sample_inserted: "insert_job sample_env sample_pub sample_start
    = Inr (1, sample_start\<lparr>threads := [sample_thread], next_thread := 2, jobs := [sample_row],
                next_job := 2\<rparr>)"
proof -
  have "new_job_row sample_pub (Some 1) (sample_start\<lparr>threads := [sample_thread], next_thread := 2\<rparr>)
      = sample_row"
    by (simp add: new_job_row_def sample_row_def sql_now_def) (simp add: sample_pub_def)
  then show ?thesis
    by (simp add: insert_job_def sample_thread_of_new known_def existing_job_id_def Let_def)
qed

lemma sample_published: "publish_job sample_env sample_pub sample_start = Inr (1, sample_todo)"
proof -
  have "is_py_dict (queued_payload sample_pub)" by (simp add: queued_payload_def)
  then show ?thesis
    using sample_kinds(1) sample_payload
    by (simp add: publish_job_def existing_job_id_def sample_inserted write_outbox_def
        dispatch_def sample_todo_def sql_now_def)
qed

lemma sample_todo_reachable: "queue_reachable sample_todo"
proof -
  have "queue_step (empty_db 1000000000) sample_todo"
    using s_publish_job [OF sample_published] by (simp add: sample_start_def)
  then show ?thesis unfolding queue_reachable_def by blast
qed

text \<open>The claim of the job.\<close>

definition sample_run_row :: job_row where
  "sample_run_row = run_row 1000 None sample_row"

definition sample_job :: job where
  "sample_job = job_row.extend sample_row (job.fields (BuiltinType TODO_TYPE) CLAIMED None (Some ''1'') False False)"

definition sample_running :: db where
  "sample_running = sample_todo\<lparr>jobs := [sample_run_row],
     outbox := outbox sample_todo @ [\<lparr>o_id = 2, o_job = 1, o_execution = None,
       o_kind = ''job.claimed'', o_payload = claimed_payload sample_job, o_created = 1000\<rparr>],
     next_outbox := 3, events := events sample_todo @ [JobClaimAfter 1 1]\<rparr>"

definition sample_claimed_job :: job where
  "sample_claimed_job = sample_job\<lparr>j_fresh := False, j_resume := None, j_status := RUNNING, j_attempt := 1\<rparr>"

lemma sample_row_fields [simp]:
  "j_id sample_row = 1" "j_type sample_row = ''todo''" "j_status sample_row = TODO"
  "j_attempt sample_row = 0" "j_sched sample_row = 1000" "j_thread sample_row = Some 1"
  "j_rq_trust sample_row = ''claimed''" "j_session sample_row = None" "j_started sample_row = None"
  "j_depth sample_row = 0" "j_line sample_row = None" "j_view sample_row = None"
  "j_rq_meta sample_row = None" "j_test sample_row = None" "j_priority sample_row = 50"
  by (simp_all add: sample_row_def)

lemma sample_job_fields [simp]:
  "j_id sample_job = 1" "j_thread sample_job = Some 1" "j_attempt sample_job = 0"
  "j_depth sample_job = 0" "j_line sample_job = None" "j_started sample_job = None"
  "j_thread_key sample_job = Some ''1''" "j_view sample_job = None" "j_status sample_job = TODO"
  "j_execution sample_job = None"
  by (simp_all add: sample_job_def job_row.defs job.defs)

lemma sample_todo_fields [simp]:
  "jobs sample_todo = [sample_row]" "threads sample_todo = [sample_thread]"
  "now_us sample_todo = 1000000000" "stretches sample_todo = []" "next_outbox sample_todo = 2"
  "outbox sample_todo = [\<lparr>o_id = 1, o_job = 1, o_execution = None, o_kind = ''job.queued'',
       o_payload = queued_payload sample_pub, o_created = 1000\<rparr>]" "caps sample_todo = []"
  by (simp_all add: sample_todo_def sample_start_def empty_db_def)

lemma sample_dequeued: "dequeue_row [] None sample_todo = Some sample_row"
  by (simp add: dequeue_row_def dequeuable_def registered_job_types_def BUILTIN_JOB_TYPES_def
      sql_now_def)

lemma sample_from_row: "job_from_row [] sample_row = Inr (sample_job\<lparr>j_thread_key := None\<rparr>)"
proof -
  have "sample_row\<lparr>j_rq_meta := None, j_test := None\<rparr> = sample_row" by (simp add: sample_row_def)
  then show ?thesis
    by (simp add: job_from_row_def resolve_job_type_def builtin_of_def trust_of_def dict_or_none_def
        sample_job_def job_row.defs job.defs)
qed

lemma sample_answer_simps [simp]:
  "\<not> ca_detach (sample_answer i)" "\<not> claim_defers (sample_answer i)"
  by (simp_all add: sample_answer_def claim_defers_def)

lemma sample_claimed:
  "try_dequeue [] sample_env sample_answer None sample_todo = (Claimed sample_claimed_job, sample_running)"
proof -
  have p: "place_claim sample_env (sample_job\<lparr>j_thread_key := None\<rparr>) False sample_todo
      = Inr (sample_job\<lparr>j_thread_key := None\<rparr>, sample_todo)"
    by (simp add: place_claim_def)
  have l: "lock_thread (Some 1) sample_todo = Some ''1''"
    by (simp add: lock_thread_def thread_by_id_def sample_thread_def)
  have j: "sample_job\<lparr>j_thread_key := Some ''1''\<rparr> = sample_job"
    by (simp add: sample_job_def job_row.defs job.defs)
  have b: "\<not> line_blocked sample_job sample_todo" by (simp add: line_blocked_def)
  have r: "resolve_resume sample_job sample_todo = None"
    by (simp add: resolve_resume_def resumable_turn_def)
  have c: "is_py_dict (claimed_payload sample_job)" by (simp add: claimed_payload_def)
  have s: "start_job sample_job (sample_answer 1) sample_todo
      = Inr (Claimed sample_claimed_job, sample_running)"
    using sample_kinds(2) claimed_payload_plain [of sample_job] c
    by (simp add: start_job_def Let_def r write_outbox_def close_stretch_def current_stretch_def
        sample_answer_def sql_now_def sample_claimed_job_def sample_running_def sample_run_row_def
        update_where_def update_jobs_def dispatch_def)
  show ?thesis
    using p l b s
    by (simp add: try_dequeue_def sample_dequeued claim_tx_def sample_from_row Let_def j)
qed

lemma sample_running_reachable: "queue_reachable sample_running"
proof -
  have "queue_step sample_todo sample_running" using s_dequeue [OF sample_claimed] .
  then show ?thesis
    using sample_todo_reachable unfolding queue_reachable_def
    by (meson rtranclp.rtrancl_into_rtrancl)
qed

lemma sample_running_fields [simp]:
  "jobs sample_running = [sample_run_row]" "now_us sample_running = 1000000000"
  "caps sample_running = []" "next_outbox sample_running = 3"
  by (simp_all add: sample_running_def)

lemma sample_run_row_fields [simp]:
  "j_id sample_run_row = 1" "j_status sample_run_row = RUNNING" "j_attempt sample_run_row = 1"
  "j_session sample_run_row = None" "j_pid sample_run_row = None" "j_runner sample_run_row = None"
  "j_started sample_run_row = Some 1000" "j_max sample_run_row = 3" "j_thread sample_run_row = Some 1"
  by (simp_all add: sample_run_row_def run_row_def sample_row_def)

lemma sample_claimed_job_fields [simp]:
  "j_id sample_claimed_job = 1" "j_attempt sample_claimed_job = 1" "j_max sample_claimed_job = 3"
  "j_execution sample_claimed_job = None" "j_created sample_claimed_job = 1000"
  by (simp_all add: sample_claimed_job_def sample_job_def job_row.defs job.defs sample_row_def)

lemma sample_is_running: "is_running 1 sample_running"
  by (simp add: is_running_def find_job_def)

lemma reachable_step: "queue_reachable d \<Longrightarrow> queue_step d d' \<Longrightarrow> queue_reachable d'"
  unfolding queue_reachable_def by (meson rtranclp.rtrancl_into_rtrancl)

text \<open>The run's capability, and the pause that revokes it.\<close>

definition sample_viewed :: db where "sample_viewed = sample_running\<lparr>views := [(1, 1)]\<rparr>"

definition sample_cfg :: auth_config where
  "sample_cfg = \<lparr>ac_env = (\<lambda>_. None), ac_default = [], ac_workspace = (\<lambda>_. []), ac_defaults = (\<lambda>_. None)\<rparr>"

definition sample_cap :: cap_row where
  "sample_cap = cap_of_issue (\<lambda>s. s) ''tok'' (run_issue 1 1 None None) (PyInt 1) sample_viewed"

definition sample_minted :: db where
  "sample_minted = sample_viewed\<lparr>caps := [sample_cap]\<rparr>"

lemma sample_minted_by: "issue_run_capabilities sample_cfg False (\<lambda>s. s) ''tok'' ''rest''
    (sample_claimed_job\<lparr>j_view := Some 1\<rparr>) sample_viewed = Inr (Tokens ''tok'' None, sample_minted)"
proof -
  have "issue_capability sample_cfg False (\<lambda>s. s) ''tok'' (run_issue 1 1 None None) sample_viewed
      = Inr (sample_viewed\<lparr>caps := caps sample_viewed @ [cap_of_issue (\<lambda>s. s) ''tok''
          (run_issue 1 1 None None) (PyInt (int 1)) sample_viewed]\<rparr>)"
    by (rule run_issue_ok) (simp_all add: sample_viewed_def)
  moreover have "is_running 1 sample_viewed"
    by (simp add: is_running_def find_job_def sample_viewed_def)
  moreover have "j_ref sample_claimed_job = Some ''AI-1''" "j_test sample_claimed_job = None"
    by (simp_all add: sample_claimed_job_def sample_job_def job_row.defs job.defs sample_row_def)
  moreover have "caps sample_viewed = []" by (simp add: sample_viewed_def)
  ultimately show ?thesis
    by (simp add: issue_run_capabilities_def sample_minted_def sample_cap_def)
qed

lemma sample_minted_reachable: "queue_reachable sample_minted"
proof -
  have "queue_reachable sample_viewed"
    unfolding sample_viewed_def by (rule reachable_step [OF sample_running_reachable s_views])
  then show ?thesis using s_issue [OF sample_minted_by] reachable_step by blast
qed

definition sample_paused :: db where
  "sample_paused = snd (revoke_job_capabilities 1
     (update_jobs (\<lambda>r. j_id r = 1 \<and> j_status r = RUNNING) (paused_row 1000000000) sample_minted))"

lemma sample_minted_fields [simp]:
  "jobs sample_minted = [sample_run_row]" "caps sample_minted = [sample_cap]"
  "now_us sample_minted = 1000000000"
  by (simp_all add: sample_minted_def sample_viewed_def)

lemma sample_paused_fields [simp]:
  "jobs sample_paused = [paused_row 1000000000 sample_run_row]"
  "caps sample_paused = [sample_cap\<lparr>c_revoked := Some 1000\<rparr>]"
proof -
  have "c_job sample_cap = Some 1" "c_revoked sample_cap = None"
    by (simp_all add: sample_cap_def cap_of_issue_def run_issue_def)
  then show "jobs sample_paused = [paused_row 1000000000 sample_run_row]"
    "caps sample_paused = [sample_cap\<lparr>c_revoked := Some 1000\<rparr>]"
    by (simp_all add: sample_paused_def revoke_job_capabilities_def Let_def sql_now_def
        update_where_def)
qed

lemma sample_paused_reachable: "queue_reachable sample_paused"
proof -
  have r: "sample_run_row\<lparr>j_rq_meta := None, j_test := None\<rparr> = sample_run_row"
    by (simp add: sample_run_row_def run_row_def sample_row_def)
  have t: "j_type sample_run_row = ''todo''" "j_rq_trust sample_run_row = ''claimed''"
      "j_rq_meta sample_run_row = None" "j_test sample_run_row = None"
    by (simp_all add: sample_run_row_def run_row_def sample_row_def)
  have "\<exists>j. job_from_row [] sample_run_row = Inr j"
    using r t by (simp add: job_from_row_def resolve_job_type_def builtin_of_def trust_of_def
        dict_or_none_def)
  then obtain j where j: "job_from_row [] sample_run_row = Inr j" by blast
  then have "j_status j = RUNNING" using job_from_row_fields by fastforce
  then have "pause_job [] 1 sample_minted = Inr (j\<lparr>j_status := PAUSED\<rparr>, sample_paused)"
    using j by (simp add: pause_job_def fetch_job_def find_job_def sample_paused_def)
  then show ?thesis using s_pause reachable_step [OF sample_minted_reachable] by blast
qed

text \<open>The job's success.\<close>

definition sample_done :: db where
  "sample_done = snd (finalize_success sample_claimed_job None sample_running)"

lemma sample_done_jobs [simp]: "jobs sample_done = [success_row None 1000000000 sample_run_row]"
  by (simp add: sample_done_def finalize_success_def Let_def end_execution_def update_where_def)

lemma sample_done_reachable: "queue_reachable sample_done"
proof -
  have "finalize_tx sample_claimed_job None None 0 sample_running
      = Inr (fst (finalize_success sample_claimed_job None sample_running), sample_done)"
    by (simp add: finalize_tx_def sample_done_def)
  then show ?thesis using s_finalize reachable_step [OF sample_running_reachable] by blast
qed

end
