(* ===== verification/Credential_Properties.thy ===== *)
theory Credential_Properties
  imports Credential_Resolver
begin

text \<open>
  What the credential pool promises: who may use a credential, for how long, and which one a run
  gets. The witnesses use a pool of two credentials.
\<close>

section \<open>A small pool\<close>

definition sample_cred :: "nat \<Rightarrow> string \<Rightarrow> cred_row" where
  "sample_cred i label = \<lparr>k_id = i, k_scope = ''claude'', k_type = ''oauth'', k_label = label,
     k_payload = Some (PyDict [(PyStr ''refresh_token'', PyStr ''rt'')]), k_limit = 0, k_enabled = True,
     k_status = CredOk, k_priority = 0, k_error_msg = None, k_error_source = None, k_expires = None,
     k_throttled = None, k_lease_owner = None, k_leased = None, k_used = None, k_updated = 1000\<rparr>"

definition sample_pool :: db where
  "sample_pool = (empty_db 1000000000)\<lparr>creds := [sample_cred 1 ''a'', sample_cred 2 ''b''], next_cred := 3\<rparr>"

definition sample_lease :: "string \<Rightarrow> refresh_lease" where
  "sample_lease w = \<lparr>l_owner = w, l_ttl = 300, l_should = (\<lambda>_. True)\<rparr>"

definition sample_leased_cred :: cred_row where
  "sample_leased_cred = (sample_cred 1 ''a'')\<lparr>k_used := Some 1000000000,
     k_lease_owner := Some ''job-1-attempt-1'', k_leased := Some 1300, k_updated := 1000\<rparr>"

definition sample_leased :: db where
  "sample_leased = sample_pool\<lparr>creds := [sample_leased_cred, sample_cred 2 ''b'']\<rparr>"

lemma sample_cred_fields [simp]:
  "k_id (sample_cred i l) = i" "k_scope (sample_cred i l) = ''claude''" "k_label (sample_cred i l) = l"
  "k_enabled (sample_cred i l)" "k_status (sample_cred i l) = CredOk" "k_priority (sample_cred i l) = 0"
  "k_expires (sample_cred i l) = None" "k_throttled (sample_cred i l) = None"
  "k_lease_owner (sample_cred i l) = None" "k_leased (sample_cred i l) = None"
  "k_used (sample_cred i l) = None" "k_updated (sample_cred i l) = 1000"
  "k_error_source (sample_cred i l) = None"
  by (simp_all add: sample_cred_def)

lemma sample_leased_cred_fields [simp]:
  "k_id sample_leased_cred = 1" "k_scope sample_leased_cred = ''claude''"
  "k_label sample_leased_cred = ''a''" "k_lease_owner sample_leased_cred = Some ''job-1-attempt-1''"
  "k_leased sample_leased_cred = Some 1300" "k_used sample_leased_cred = Some 1000000000"
  "k_priority sample_leased_cred = 0"
  by (simp_all add: sample_leased_cred_def)

lemma sample_pool_fields [simp]:
  "creds sample_pool = [sample_cred 1 ''a'', sample_cred 2 ''b'']" "next_cred sample_pool = 3"
  "now_us sample_pool = 1000000000" "jobs sample_pool = []"
  "creds sample_leased = [sample_leased_cred, sample_cred 2 ''b'']" "next_cred sample_leased = 3"
  "now_us sample_leased = 1000000000" "jobs sample_leased = []"
  by (simp_all add: sample_pool_def sample_leased_def empty_db_def)

lemma sample_pool_ok: "creds_ok sample_pool" "creds_ok sample_leased"
  by (simp_all add: creds_ok_def)

lemma sample_selected: "select_credential ''claude'' (Some (sample_lease ''job-1-attempt-1'')) None sample_pool
    = (Some sample_leased_cred, sample_leased)"
proof -
  let ?k = "sample_cred 1 ''a''"
  let ?t = "Some (''job-1-attempt-1'', 300)"
  have both: "filter (candidate ''claude'' None sample_pool) (creds sample_pool)
      = [?k, sample_cred 2 ''b'']"
    by (simp add: candidate_def usable_def unthrottled_def lease_active_def)
  have b: "best pool_before [?k, sample_cred 2 ''b''] = Some ?k"
    by (simp add: pool_before_def less_prod_def)
  have taken: "lease_taken (Some (sample_lease ''job-1-attempt-1'')) ?k = ?t"
    by (simp add: lease_taken_def sample_lease_def)
  have row: "auto_touch (claimed_row ?t sample_pool) sample_pool ?k = sample_leased_cred"
    by (simp add: auto_touch_def claimed_row_def sample_leased_cred_def touch_def sql_now_def sample_cred_def)
  show ?thesis
    unfolding select_credential_def both b
    by (simp add: Let_def taken row update_creds_def update_where_def sample_leased_def del: One_nat_def)
qed

section \<open>Properties\<close>

text \<open>
  C11. Exclusive leases. While a run's lease is live, in any interleaving of the operations of
  other workers and of operators that does not release it and renews it at most forward, no claim
  hands the credential to a run, no harness takes a lease on it and no registration overwrites it.
\<close>

theorem lease_is_exclusive:
  assumes "creds_ok d" and "leased_to i w u d" and "now_s (cred_run fromiso ops d) < u"
    and "\<forall>op \<in> set ops. \<not> ends_lease i w u d op"
  shows "(\<forall>s l c k. fst (select_credential s l c (cred_run fromiso ops d)) = Some k \<longrightarrow> k_id k \<noteq> i)
    \<and> (\<forall>v n. \<not> fst (claim_credential_lease i v n (cred_run fromiso ops d)))
    \<and> (\<forall>k \<in> set (creds (cred_run fromiso ops d)). k_id k = i \<longrightarrow>
         k_lease_owner k = Some w
         \<and> (\<forall>p n ty. \<exists>e. register_credential fromiso (k_scope k) (k_label k) p n ty
              (cred_run fromiso ops d) = Inl e))"
proof -
  let ?d = "cred_run fromiso ops d"
  have ok: "creds_ok ?d" and held: "leased_to i w u ?d"
    using cred_run_lease [OF assms] by blast+
  obtain k where k: "k \<in> set (creds ?d)" "find_cred i ?d = Some k" "k_id k = i"
      "k_lease_owner k = Some w" "lease_active ?d k"
    using leased_toD [OF held assms(3)] by blast
  have only: "q = k" if "q \<in> set (creds ?d)" "k_id q = i" for q
    using find_cred_unique [OF ok that(1)] k(2) that(2) by simp
  have "\<not> fst (claim_credential_lease i v n ?d)" for v n
    using only k(5) by (auto simp: claim_credential_lease_def Let_def changed_def filter_empty_conv)
  moreover have "find (\<lambda>q. k_scope q = k_scope k \<and> k_label q = k_label k) (creds ?d) = Some k"
    using ok k(1) find_unique [of "\<lambda>q. (k_scope q, k_label q)" "creds ?d" k]
    by (simp add: creds_ok_def)
  then have "register_credential fromiso (k_scope k) (k_label k) p n ty ?d
      = Inl (CredentialLeased (k_label k) (k_lease_owner k) (k_leased k))" for p n ty
    using k(5) by (simp add: register_credential_def)
  ultimately show ?thesis
    using select_never_leased [OF ok held assms(3)] only k(4) by blast
qed

theorem lease_is_exclusive_witness:
  "\<exists>k. fst (select_credential ''claude'' None None sample_leased) = Some k \<and> k_id k \<noteq> 1"
proof -
  have held: "leased_to 1 ''job-1-attempt-1'' 1300 sample_leased"
    by (simp add: leased_to_def lease_of_def find_cred_def)
  have run: "cred_run (\<lambda>_. None) [] sample_leased = sample_leased" by (simp add: cred_run_def)
  have now: "now_s (cred_run (\<lambda>_. None) [] sample_leased) < 1300" by (simp add: run sql_now_def)
  have "candidate ''claude'' None sample_leased (sample_cred 2 ''b'')"
    by (simp add: candidate_def usable_def unthrottled_def lease_active_def)
  then have "fst (select_credential ''claude'' None None sample_leased) \<noteq> None"
    unfolding select_None by simp
  then obtain k where k: "fst (select_credential ''claude'' None None sample_leased) = Some k" by blast
  then show ?thesis
    using lease_is_exclusive [OF sample_pool_ok(2) held now] by (auto simp: run)
qed

text \<open>
  C15. A claim hands out a row of the scope that is enabled, healthy, unexpired, unthrottled and
  unleased, first by priority, then least recently used, then by id; it leases exactly the
  rows the caller's test asks for, and changes no other row.
\<close>

theorem claim_picks_first_usable:
  assumes "select_credential s (Some l) c d = (Some k', d')"
  shows "\<exists>k \<in> set (creds d). k_id k' = k_id k \<and> k_scope k = s
    \<and> k_enabled k \<and> k_status k = CredOk \<and> (\<forall>e. k_expires k = Some e \<longrightarrow> int (now_s d) < e)
    \<and> (\<forall>t. k_throttled k = Some t \<longrightarrow> t \<le> now_s d) \<and> \<not> lease_active d k
    \<and> (\<forall>q \<in> set (creds d). candidate s c d q \<longrightarrow>
         (k_priority k, k_used k, k_id k) \<le> (k_priority q, k_used q, k_id q))
    \<and> k_used k' = Some (now_us d)
    \<and> (if l_should l k then k_lease_owner k' = Some (l_owner l) \<and> k_leased k' = Some (now_s d + l_ttl l)
       else k_lease_owner k' = None \<and> k_leased k' = None)
    \<and> (\<forall>q' \<in> set (creds d'). if k_id q' = k_id k then True else q' \<in> set (creds d))"
proof -
  obtain k where k: "k \<in> set (creds d)" "candidate s c d k"
      "\<forall>q \<in> set (creds d). candidate s c d q \<longrightarrow> \<not> pool_before q k"
    and k': "k' = auto_touch (claimed_row (lease_taken (Some l) k) d) d k"
    and d': "d' = update_creds (\<lambda>r. k_id r = k_id k)
               (auto_touch (claimed_row (lease_taken (Some l) k) d) d) d"
    using select_Some [OF assms] by blast
  have first: "(k_priority k, k_used k, k_id k) \<le> (k_priority q, k_used q, k_id q)"
    if "q \<in> set (creds d)" "candidate s c d q" for q
    by (rule leI) (use k(3) that in \<open>simp only: pool_before_def [symmetric] not_False_eq_True\<close>)
  have rows: "if k_id q' = k_id k then True else q' \<in> set (creds d)" if "q' \<in> set (creds d')" for q'
    using that by (auto simp: d' in_update_where)
  have lease: "if l_should l k then k_lease_owner k' = Some (l_owner l) \<and> k_leased k' = Some (now_s d + l_ttl l)
       else k_lease_owner k' = None \<and> k_leased k' = None"
    by (simp add: k' lease_taken_def)
  have fit: "k_scope k = s" "k_enabled k" "k_status k = CredOk" "\<not> lease_active d k"
      "\<forall>e. k_expires k = Some e \<longrightarrow> int (now_s d) < e" "\<forall>t. k_throttled k = Some t \<longrightarrow> t \<le> now_s d"
    using k(2) by (auto simp: candidate_def usable_def unthrottled_def)
  have same: "k_id k' = k_id k" "k_used k' = Some (now_us d)" by (simp_all add: k')
  show ?thesis
    by (rule bexI [OF _ k(1)]) (intro conjI ballI impI first rows lease fit same)
qed

theorem claim_picks_first_usable_witness:
  "k_id sample_leased_cred = 1 \<and> k_lease_owner sample_leased_cred = Some (l_owner (sample_lease ''job-1-attempt-1''))"
  using claim_picks_first_usable [OF sample_selected] by (auto simp: sample_lease_def)

text \<open>
  Rotation. The next claim of the scope never returns the credential that was just claimed
  while another usable one, used earlier and of no lower precedence, is there.
\<close>

theorem pool_rotates:
  assumes "creds_ok d" and "select_credential s l None d = (Some k, d')"
    and "q \<in> set (creds d)" "candidate s None d q" "k_id q \<noteq> k_id k"
    and "k_priority q \<le> k_priority k" "k_used q < Some (now_us d)"
    and "select_credential s l' None d' = (Some k', d'')"
  shows "k_id k' \<noteq> k_id k"
  by (rule select_rotates [OF assms])

theorem pool_rotates_witness:
  "\<exists>k d'. select_credential ''claude'' None None sample_leased = (Some k, d') \<and> k_id k \<noteq> 1"
proof -
  have c: "candidate ''claude'' None sample_pool (sample_cred 2 ''b'')"
    "candidate ''claude'' None sample_leased (sample_cred 2 ''b'')"
    by (simp_all add: candidate_def usable_def unthrottled_def lease_active_def)
  then have "fst (select_credential ''claude'' None None sample_leased) \<noteq> None"
    unfolding select_None by simp
  then obtain k d' where k: "select_credential ''claude'' None None sample_leased = (Some k, d')"
    by (cases "select_credential ''claude'' None None sample_leased") auto
  have "k_id k \<noteq> k_id sample_leased_cred"
    by (rule pool_rotates [OF sample_pool_ok(1) sample_selected _ c(1) _ _ _ k]) simp_all
  with k show ?thesis by simp
qed

section \<open>Quarantine\<close>

text \<open>Functions of a row that leave its health alone.\<close>

locale keeps_health = keeps_identity +
  assumes same_status: "k_status (f k) = k_status k"
    and same_source: "k_error_source (f k) = k_error_source k"
begin

lemma quarantine_update:
  "find_cred i d = Some k \<Longrightarrow> k_status k = s \<Longrightarrow> k_error_source k = e
    \<Longrightarrow> \<exists>k'. find_cred i (update_creds p f d) = Some k' \<and> k_status k' = s \<and> k_error_source k' = e"
  by (simp add: find_cred_update same_status same_source)

end

interpretation refreshed_h: keeps_health "\<lambda>k. touch d (refreshed_row c e k)" for d c e
  by unfold_locales (simp_all add: refreshed_row_def)

interpretation disabled_h: keeps_health "\<lambda>k. touch d (disabled_row k)" for d
  by unfold_locales (simp_all add: disabled_row_def)

interpretation throttled_h: keeps_health "\<lambda>k. touch d (throttled_row u k)" for d u
  by unfold_locales (simp_all add: throttled_row_def)

interpretation reprioritized_h: keeps_health "\<lambda>k. touch d (priority_row n k)" for d n
  by unfold_locales (simp_all add: priority_row_def)

interpretation claimed_h: keeps_health "auto_touch (claimed_row taken d) d" for taken d
  by unfold_locales (simp_all add: auto_touch_def claimed_row_def split: option.splits)

interpretation unleased_h: keeps_health "\<lambda>k. touch d (unleased_row k)" for d
  by unfold_locales (simp_all add: unleased_row_def)

interpretation leased_h: keeps_health
    "auto_touch (\<lambda>k. k\<lparr>k_lease_owner := ow, k_leased := u\<rparr>) d" for ow u d
  by unfold_locales (simp_all add: auto_touch_def)

interpretation renewed_h: keeps_health "auto_touch (\<lambda>k. k\<lparr>k_leased := u\<rparr>) d" for u d
  by unfold_locales (simp_all add: auto_touch_def)

definition quarantined :: "nat \<Rightarrow> error_source \<Rightarrow> db \<Rightarrow> bool" where
  "quarantined i s d \<longleftrightarrow>
     (\<exists>k. find_cred i d = Some k \<and> k_status k = CredError \<and> k_error_source k = Some s)"

text \<open>The operations that decide about the health of a row: a human's, or a new error.\<close>

definition decides_health :: "nat \<Rightarrow> db \<Rightarrow> cred_op \<Rightarrow> bool" where
  "decides_health i d op \<longleftrightarrow>
     (case op of ClearOp j \<Rightarrow> j = i | ErrorOp j m s \<Rightarrow> j = i
      | RegisterOp s l p n ty \<Rightarrow> (\<exists>k. find_cred i d = Some k \<and> k_scope k = s \<and> k_label k = l)
      | _ \<Rightarrow> False)"

lemma quarantined_update:
  assumes "keeps_health f" and "quarantined i s d"
  shows "quarantined i s (update_creds p f d)"
  using assms(2) keeps_health.quarantine_update [OF assms(1)] by (auto simp: quarantined_def)

lemma quarantined_other:
  assumes "keeps_identity f" and "quarantined i s d"
    and "\<And>k. find_cred i d = Some k \<Longrightarrow> \<not> p k"
  shows "quarantined i s (update_creds p f d)"
  using assms(2,3) by (auto simp: quarantined_def keeps_identity.find_cred_update [OF assms(1)])

lemma quarantined_cong: "creds d' = creds d \<Longrightarrow> quarantined i s d' = quarantined i s d"
  by (simp add: quarantined_def find_cred_def)

lemma cred_step_quarantine:
  assumes ok: "creds_ok d" and q: "quarantined i Operator d" and no: "\<not> decides_health i d op"
  shows "quarantined i Operator (cred_step fromiso op d)"
proof (cases op)
  case (RegisterOp s l p n ty)
  show ?thesis
  proof (cases "find (\<lambda>k. k_scope k = s \<and> k_label k = l) (creds d)")
    case None
    have "find_cred i (d\<lparr>creds := creds d @ [r], next_cred := m\<rparr>) = find_cred i d" for r m
      using q by (auto simp: quarantined_def find_cred_def find_append)
    then show ?thesis using RegisterOp None q
      by (simp add: register_credential_def Let_def quarantined_def)
  next
    case (Some r)
    then have r: "k_scope r = s" "k_label r = l" "r \<in> set (creds d)" using find_SomeD by fastforce+
    have "k_id k \<noteq> k_id r" if k: "find_cred i d = Some k" for k
    proof
      assume "k_id k = k_id r"
      then have "k_id r = i" using find_cred_in [OF k] by metis
      then have "k = r" using find_cred_unique [OF ok r(3)] k by (metis option.inject)
      then show False using no RegisterOp k r by (auto simp: decides_health_def)
    qed
    then have "quarantined i Operator (update_creds (\<lambda>x. k_id x = k_id r)
        (\<lambda>x. touch d (registered_row ty p e x)) d)" for e
      by (intro quarantined_other [OF registered.keeps_identity_axioms q])
    then show ?thesis using RegisterOp Some q by (simp add: register_credential_def Let_def)
  qed
next
  case (ErrorOp j m s)
  then have "quarantined i Operator (update_creds (\<lambda>k. k_id k = j) (\<lambda>k. touch d (error_row m s k)) d)"
    using no by (intro quarantined_other [OF errored.keeps_identity_axioms q])
      (auto simp: decides_health_def dest: find_cred_in)
  with ErrorOp show ?thesis by (simp add: cred_op_defs)
next
  case (ClearOp j)
  then have "quarantined i Operator (update_creds (\<lambda>k. k_id k = j) (\<lambda>k. touch d (cleared_row k)) d)"
    using no by (intro quarantined_other [OF cleared.keeps_identity_axioms q])
      (auto simp: decides_health_def dest: find_cred_in)
  with ClearOp show ?thesis by (simp add: cred_op_defs)
next
  case (ClearAutoOp j)
  have "quarantined i Operator (update_creds (\<lambda>k. k_id k = j \<and> k_error_source k = Some Auto)
      (\<lambda>k. touch d (cleared_row k)) d)"
    using q by (intro quarantined_other [OF cleared.keeps_identity_axioms q]) (auto simp: quarantined_def)
  with ClearAutoOp show ?thesis by (simp add: cred_op_defs)
next
  case (SelectOp s l c)
  show ?thesis
  proof (cases "select_credential s l c d")
    case (Pair r d')
    show ?thesis
    proof (cases r)
      case None
      with Pair have "d' = d" by (auto simp: select_credential_def Let_def split: option.splits)
      with Pair SelectOp q show ?thesis by simp
    next
      case (Some k')
      with Pair select_Some obtain k where
        "d' = update_creds (\<lambda>r. k_id r = k_id k) (auto_touch (claimed_row (lease_taken l k) d) d) d"
        by blast
      with Pair SelectOp q show ?thesis
        by (simp add: quarantined_update [OF claimed_h.keeps_health_axioms])
    qed
  qed
next
  case (ReleaseOp j w)
  have "quarantined i Operator (update_creds (\<lambda>k. k_id k = j \<and> k_lease_owner k = Some w)
      (\<lambda>k. touch d (unleased_row k)) d)"
    by (rule quarantined_update [OF unleased_h.keeps_health_axioms q])
  moreover have "quarantined i Operator (snd (release_credential_lease j w d))
      = quarantined i Operator (update_creds (\<lambda>k. k_id k = j \<and> k_lease_owner k = Some w)
          (\<lambda>k. touch d (unleased_row k)) d)"
    using release_snd [of j w d] by (intro quarantined_cong) simp
  ultimately show ?thesis using ReleaseOp by simp
next
  case (TickOp us)
  then show ?thesis using q by (simp add: quarantined_def find_cred_def)
qed (simp_all add: cred_op_defs claim_credential_lease_def renew_credential_leases_def Let_def q
      quarantined_update [OF refreshed_h.keeps_health_axioms q]
      quarantined_update [OF disabled_h.keeps_health_axioms q]
      quarantined_update [OF throttled_h.keeps_health_axioms q]
      quarantined_update [OF reprioritized_h.keeps_health_axioms q]
      quarantined_update [OF leased_h.keeps_health_axioms q]
      quarantined_update [OF renewed_h.keeps_health_axioms q])

text \<open>\<open>decided\<close>: some operation of the list decides about the health of the row.\<close>

fun decided :: "(string \<Rightarrow> int option) \<Rightarrow> nat \<Rightarrow> db \<Rightarrow> cred_op list \<Rightarrow> bool" where
  "decided fromiso i d [] = False"
| "decided fromiso i d (op # ops) =
     (decides_health i d op \<or> decided fromiso i (cred_step fromiso op d) ops)"

text \<open>
  C23. A quarantine an operator made survives every operation of the workers: only a human clears
  it or registers the credential again, and only a new error replaces it. As long as it
  stands no claim returns the credential.
\<close>

theorem operator_quarantine_stays:
  assumes "creds_ok d" and "quarantined i Operator d" and "\<not> decided fromiso i d ops"
  shows "quarantined i Operator (cred_run fromiso ops d)
    \<and> (\<forall>s l c k. fst (select_credential s l c (cred_run fromiso ops d)) = Some k \<longrightarrow> k_id k \<noteq> i)"
proof -
  have run: "creds_ok (cred_run fromiso ops d) \<and> quarantined i Operator (cred_run fromiso ops d)"
    using assms
  proof (induction ops arbitrary: d)
    case (Cons op ops)
    then show ?case
      using cred_step_ok [of d fromiso op] cred_step_quarantine [of d i op fromiso]
      by (simp add: cred_run_def)
  qed (simp add: cred_run_def)
  let ?d = "cred_run fromiso ops d"
  have "k_id k' \<noteq> i" if sel: "fst (select_credential s l c ?d) = Some k'" for s l c k'
  proof
    assume id: "k_id k' = i"
    obtain d' where "select_credential s l c ?d = (Some k', d')"
      using sel by (cases "select_credential s l c ?d") auto
    then obtain k where k: "k \<in> set (creds ?d)" "candidate s c ?d k" "k_id k' = k_id k"
      using select_Some by fastforce
    then have "find_cred i ?d = Some k" using find_cred_unique [of ?d k] run id by simp
    then show False using run k(2) by (simp add: quarantined_def candidate_def usable_def)
  qed
  with run show ?thesis by blast
qed

lemma sample_quarantined:
  "quarantined 1 Operator (snd (mark_credential_error 1 (Some ''stop'') Operator sample_pool))"
  by (simp add: quarantined_def mark_credential_error_def find_cred_def update_where_def
      error_row_def)

theorem operator_quarantine_stays_witness:
  "quarantined 1 Operator (cred_run (\<lambda>_. None) [ClearAutoOp 1, ThrottleOp 1 5, TickOp 60000000]
     (snd (mark_credential_error 1 (Some ''stop'') Operator sample_pool)))"
proof -
  let ?d = "snd (mark_credential_error 1 (Some ''stop'') Operator sample_pool)"
  have ok: "creds_ok ?d"
    using cred_step_ok [OF sample_pool_ok(1), of "\<lambda>_. None" "ErrorOp 1 (Some ''stop'') Operator"] by simp
  note q = sample_quarantined
  have "\<not> decided (\<lambda>_. None) 1 ?d [ClearAutoOp 1, ThrottleOp 1 5, TickOp 60000000]"
    by (simp add: decides_health_def)
  from operator_quarantine_stays [OF ok q this] show ?thesis by blast
qed

text \<open>
  C24. That new error may be the framework's own: when a run on a credential that an operator
  quarantined meanwhile fails, the quarantine becomes an automatic one, and the next
  successful run lifts it.
\<close>

theorem auto_error_lifts_operator_quarantine:
  assumes "quarantined i Operator d"
  shows "quarantined i Auto (snd (mark_credential_error i m Auto d))
    \<and> (\<exists>k. find_cred i (snd (clear_auto_credential_error i (snd (mark_credential_error i m Auto d)))) = Some k
         \<and> k_status k = CredOk \<and> k_error_source k = None)"
proof -
  obtain k where k: "find_cred i d = Some k" using assms by (auto simp: quarantined_def)
  then have "k_id k = i" using find_cred_in by blast
  then have "find_cred i (snd (mark_credential_error i m Auto d)) = Some (touch d (error_row m Auto k))"
    by (simp add: mark_credential_error_def errored.find_cred_update k)
  then show ?thesis
    by (simp add: quarantined_def clear_auto_credential_error_def cleared.find_cred_update)
      (simp add: error_row_def cleared_row_def \<open>k_id k = i\<close>)
qed

theorem auto_error_lifts_operator_quarantine_witness:
  "\<exists>k. find_cred 1 (snd (clear_auto_credential_error 1 (snd (mark_credential_error 1 None Auto
       (snd (mark_credential_error 1 (Some ''stop'') Operator sample_pool)))))) = Some k \<and> k_status k = CredOk"
proof -
  from auto_error_lifts_operator_quarantine [OF sample_quarantined, of None] show ?thesis by blast
qed

end
