(* ===== verification/Passwords.thy ===== *)
theory Passwords
  imports Agento_Prelude
begin

text \<open>
  \<open>access/passwords.py\<close>. scrypt with the fixed work factors is the argument \<open>derive\<close>, from a
  password and a salt to a digest; the random salt is an argument. A byte is a \<open>nat\<close> below 256.
\<close>

section \<open>Hexadecimal\<close>

definition hex_char :: "nat \<Rightarrow> char" where
  "hex_char d = ''0123456789abcdef'' ! d"

fun to_hex :: "nat list \<Rightarrow> string" where
  "to_hex [] = []"
| "to_hex (b # bs) = hex_char (b div 16) # hex_char (b mod 16) # to_hex bs"

definition hex_value :: "char \<Rightarrow> nat option" where
  "hex_value c = (let i = length (takeWhile (\<lambda>d. d \<noteq> to_lower c) ''0123456789abcdef'')
                  in if i < 16 then Some i else None)"

definition ascii_space :: "char \<Rightarrow> bool" where
  "ascii_space c \<longleftrightarrow> c \<in> {CHR '' '', CHR 0x09, CHR 0x0A, CHR 0x0B, CHR 0x0C, CHR 0x0D}"

text \<open>\<open>bytes.fromhex\<close> skips white space between bytes.\<close>

fun from_hex :: "string \<Rightarrow> nat list option" where
  "from_hex [] = Some []"
| "from_hex [c] = (if ascii_space c then Some [] else None)"
| "from_hex (c # d # cs) =
     (if ascii_space c then from_hex (d # cs)
      else case (hex_value c, hex_value d) of
             (Some a, Some b) \<Rightarrow> map_option ((#) (16 * a + b)) (from_hex cs)
           | _ \<Rightarrow> None)"

text \<open>\<open>str.split(sep)\<close>.\<close>

fun split_on :: "char \<Rightarrow> string \<Rightarrow> string list" where
  "split_on s [] = [[]]"
| "split_on s (c # cs) =
     (if c = s then [] # split_on s cs
      else case split_on s cs of [] \<Rightarrow> [[c]] | w # ws \<Rightarrow> (c # w) # ws)"

section \<open>Hashing\<close>

definition MIN_PASSWORD :: nat where "MIN_PASSWORD = 12"
definition MAX_PASSWORD :: nat where "MAX_PASSWORD = 1024"

definition password_policy :: "string \<Rightarrow> bool" where
  "password_policy p \<longleftrightarrow> MIN_PASSWORD \<le> length p \<and> length p \<le> MAX_PASSWORD"

type_synonym derive = "string \<Rightarrow> nat list \<Rightarrow> nat list"

text \<open>\<open>None\<close> is the \<open>ValueError\<close> of the policy.\<close>

definition hash_password :: "derive \<Rightarrow> nat list \<Rightarrow> string \<Rightarrow> string option" where
  "hash_password derive salt p =
     (if \<not> password_policy p then None
      else Some (''scrypt$16384$8$1$'' @ to_hex salt @ ''$'' @ to_hex (derive p salt)))"

definition verify_password :: "derive \<Rightarrow> string \<Rightarrow> string option \<Rightarrow> bool" where
  "verify_password derive p stored =
     (if \<not> password_policy p then False
      else case split_on (CHR ''$'') (case stored of Some s \<Rightarrow> s | None \<Rightarrow> []) of
             [algo, n, r, q, salt, digest] \<Rightarrow>
               algo = ''scrypt'' \<and> int_of_text n = Some 16384 \<and> int_of_text r = Some 8
               \<and> int_of_text q = Some 1
               \<and> (case (from_hex salt, from_hex digest) of
                    (Some salt_b, Some digest_b) \<Rightarrow> derive p salt_b = digest_b
                  | _ \<Rightarrow> False)
           | _ \<Rightarrow> False)"

section \<open>Facts\<close>

lemma hex_digit: "d < 16 \<Longrightarrow> hex_value (hex_char d) = Some d \<and> \<not> ascii_space (hex_char d)
    \<and> hex_char d \<noteq> CHR ''$''"
proof -
  assume "d < 16"
  then have "d \<in> set [0..<16]" by simp
  moreover have "list_all (\<lambda>d. hex_value (hex_char d) = Some d \<and> \<not> ascii_space (hex_char d)
      \<and> hex_char d \<noteq> CHR ''$'') [0..<16]"
    by code_simp
  ultimately show ?thesis unfolding list_all_iff by blast
qed

lemma from_to_hex: "\<forall>b \<in> set bs. b < 256 \<Longrightarrow> from_hex (to_hex bs) = Some bs"
proof (induction bs)
  case (Cons b bs)
  have "b div 16 < 16" "b mod 16 < 16" using Cons.prems by auto
  then show ?case using Cons hex_digit [of "b div 16"] hex_digit [of "b mod 16"] by simp
qed simp

lemma hex_no_dollar: "\<forall>b \<in> set bs. b < 256 \<Longrightarrow> CHR ''$'' \<notin> set (to_hex bs)"
proof (induction bs)
  case (Cons b bs)
  have "b div 16 < 16" "b mod 16 < 16" using Cons.prems by auto
  then show ?case using Cons hex_digit [of "b div 16"] hex_digit [of "b mod 16"] by auto
qed simp

lemma split_on_last: "s \<notin> set w \<Longrightarrow> split_on s w = [w]"
  by (induction w) auto

lemma split_on_append: "s \<notin> set w \<Longrightarrow> split_on s (w @ s # rest) = w # split_on s rest"
  by (induction w) auto

lemma verify_hashed:
  assumes salt: "\<forall>b \<in> set salt. b < 256" and bytes: "\<forall>b \<in> set (derive p salt). b < 256"
    and h: "hash_password derive salt p = Some h"
  shows "verify_password derive q (Some h) \<longleftrightarrow> password_policy q \<and> derive q salt = derive p salt"
proof -
  let ?w = "\<lambda>s. s @ [CHR ''$'']"
  have "h = ''scrypt'' @ CHR ''$'' # ''16384'' @ CHR ''$'' # ''8'' @ CHR ''$'' # ''1'' @ CHR ''$''
      # to_hex salt @ CHR ''$'' # to_hex (derive p salt)"
    using h by (simp add: hash_password_def split: if_splits)
  then have "split_on (CHR ''$'') h
      = [''scrypt'', ''16384'', ''8'', ''1'', to_hex salt, to_hex (derive p salt)]"
    using hex_no_dollar [OF salt] hex_no_dollar [OF bytes]
    by (simp only: split_on_append split_on_last) (simp add: split_on_append split_on_last)
  moreover have "int_of_text ''16384'' = Some 16384" "int_of_text ''8'' = Some 8" "int_of_text ''1'' = Some 1"
    by code_simp+
  ultimately show ?thesis
    using from_to_hex [OF salt] from_to_hex [OF bytes] by (simp add: verify_password_def)
qed

lemma verify_no_hash: "\<not> verify_password derive p None"
  by (simp add: verify_password_def)

end
