(* ===== verification/Acl.thy ===== *)
theory Acl
  imports Passwords
begin

text \<open>
  \<open>access/acl.py\<close> and \<open>route_rules.py\<close>: the registry of panel leaves and scoped operations, and
  the rules of a route declaration. The parsed content of a module's \<open>acl.json\<close> is an argument
  (\<open>None\<close> when it is no JSON, an empty dict when there is no file); the texts of the messages
  are constructors. Module names are distinct.
\<close>

section \<open>Values\<close>

fun dict_keys :: "pyval \<Rightarrow> pyval list" where
  "dict_keys (PyDict kvs) = map fst kvs"
| "dict_keys _ = []"

fun list_items :: "pyval \<Rightarrow> pyval list option" where
  "list_items (PyList xs) = Some xs"
| "list_items _ = None"

fun str_of :: "pyval \<Rightarrow> string" where
  "str_of (PyStr s) = s"
| "str_of _ = []"

fun is_str :: "pyval \<Rightarrow> bool" where
  "is_str (PyStr s) = True"
| "is_str _ = False"

definition has_title :: "pyval \<Rightarrow> bool" where
  "has_title v \<longleftrightarrow> is_str v \<and> strip (str_of v) \<noteq> []"

section \<open>Ids\<close>

definition ACL_SELF :: string where "ACL_SELF = ''self''"
definition ACL_ANONYMOUS :: string where "ACL_ANONYMOUS = ''anonymous''"

text \<open>\<open>[a-z_]+(\.[a-z_]+)*\<close>.\<close>

definition dotted_id :: "string \<Rightarrow> bool" where
  "dotted_id s \<longleftrightarrow> (\<forall>w \<in> set (split_on (CHR ''.'') s).
     w \<noteq> [] \<and> (\<forall>c \<in> set w. is_lower c \<or> c = CHR ''_''))"

text \<open>The module's name, then \<open>(\.[a-z_]+)*\<close>.\<close>

definition module_id :: "string \<Rightarrow> string \<Rightarrow> bool" where
  "module_id m s \<longleftrightarrow> starts_with m s
     \<and> (let r = drop (length m) s in r = [] \<or> (hd r = CHR ''.'' \<and> dotted_id (tl r)))"

definition id_matches :: "string option \<Rightarrow> string \<Rightarrow> bool" where
  "id_matches m = re_match_dollar (case m of None \<Rightarrow> dotted_id | Some n \<Rightarrow> module_id n)"

section \<open>What is wrong with a file\<close>

datatype acl_problem =
    NotAnObject
  | UnknownKey string
  | ScreensNotList
  | BadScreen
  | OperationsNotList
  | BadEntry
  | BadId string
  | DeclaredTwice string

definition entry_error :: "string option \<Rightarrow> pyval \<Rightarrow> acl_problem option" where
  "entry_error m entry =
     (let i = py_get entry ''id'' in
      if \<not> (is_py_dict entry \<and> set (dict_keys entry) = {PyStr ''id'', PyStr ''title''}
            \<and> is_str i \<and> has_title (py_get entry ''title'')) then Some BadEntry
      else if str_of i = ACL_SELF \<or> str_of i = ACL_ANONYMOUS \<or> \<not> id_matches m (str_of i)
      then Some (BadId (str_of i))
      else None)"

definition entry_problems :: "string option \<Rightarrow> pyval list \<Rightarrow> acl_problem list" where
  "entry_problems m es = List.map_filter (entry_error m) es"

definition entry_ids :: "string option \<Rightarrow> pyval list \<Rightarrow> string list" where
  "entry_ids m es = map (\<lambda>e. str_of (py_get e ''id'')) (filter (\<lambda>e. entry_error m e = None) es)"

definition screen_leaves :: "pyval \<Rightarrow> pyval list option" where
  "screen_leaves screen =
     (if is_py_dict screen \<and> set (dict_keys screen) = {PyStr ''title'', PyStr ''leaves''}
         \<and> has_title (py_get screen ''title'')
      then (case list_items (py_get screen ''leaves'') of
              Some (l # ls) \<Rightarrow> Some (l # ls) | _ \<Rightarrow> None)
      else None)"

definition screen_problems :: "string option \<Rightarrow> pyval \<Rightarrow> acl_problem list" where
  "screen_problems m screen =
     (case screen_leaves screen of None \<Rightarrow> [BadScreen] | Some ls \<Rightarrow> entry_problems m ls)"

definition screen_ids :: "string option \<Rightarrow> pyval \<Rightarrow> string list" where
  "screen_ids m screen =
     (case screen_leaves screen of None \<Rightarrow> [] | Some ls \<Rightarrow> entry_ids m ls)"

definition items_or_empty :: "pyval \<Rightarrow> pyval list" where
  "items_or_empty v = (case list_items v of None \<Rightarrow> [] | Some xs \<Rightarrow> xs)"

definition twice :: "string list \<Rightarrow> string list" where
  "twice ids = sort (remdups (filter (\<lambda>i. 1 < count_list ids i) ids))"

definition acl_errors :: "string option \<Rightarrow> pyval \<Rightarrow> acl_problem list" where
  "acl_errors m data =
     (if \<not> is_py_dict data then [NotAnObject]
      else let screens = py_get_or data ''screens'' (PyList []);
               operations = py_get_or data ''operations'' (PyList []);
               unknown = filter (\<lambda>k. k \<noteq> ''screens'' \<and> k \<noteq> ''operations'') (map str_of (dict_keys data));
               ids = concat (map (screen_ids m) (items_or_empty screens))
                     @ entry_ids m (items_or_empty operations)
           in map UnknownKey (sort (remdups unknown))
              @ (if list_items screens = None then [ScreensNotList] else [])
              @ concat (map (screen_problems m) (items_or_empty screens))
              @ (if list_items operations = None then [OperationsNotList] else [])
              @ entry_problems m (items_or_empty operations)
              @ map DeclaredTwice (twice ids))"

section \<open>The registry\<close>

text \<open>The ids and titles of a file that has no errors.\<close>

definition entry_pair :: "pyval \<Rightarrow> string \<times> string" where
  "entry_pair e = (str_of (py_get e ''id''), str_of (py_get e ''title''))"

definition file_screens :: "pyval \<Rightarrow> (string \<times> (string \<times> string) list) list" where
  "file_screens data = map (\<lambda>s. (str_of (py_get s ''title''),
       map entry_pair (items_or_empty (py_get s ''leaves''))))
     (items_or_empty (py_get_or data ''screens'' (PyList [])))"

definition file_operations :: "pyval \<Rightarrow> (string \<times> string) list" where
  "file_operations data = map entry_pair (items_or_empty (py_get_or data ''operations'' (PyList [])))"

definition file_leaves :: "pyval \<Rightarrow> string list" where
  "file_leaves data = concat (map (\<lambda>(t, ls). map fst ls) (file_screens data))"

definition file_ids :: "pyval \<Rightarrow> string list" where
  "file_ids data = file_leaves data @ map fst (file_operations data)"

type_synonym acl_file = "string \<times> pyval option"

text \<open>\<open>duplicates\<close>: who declared an id that is declared already. \<open>None\<close> owns the framework's ids.\<close>

fun claim_ids :: "string \<Rightarrow> string list \<Rightarrow> (string \<times> string option) list
    \<Rightarrow> (string \<times> string \<times> string option) list \<times> (string \<times> string option) list" where
  "claim_ids n [] owners = ([], owners)"
| "claim_ids n (i # ids) owners =
     (case map_of owners i of
        Some w \<Rightarrow> (let (out, owners') = claim_ids n ids owners in ((n, i, w) # out, owners'))
      | None \<Rightarrow> claim_ids n ids (owners @ [(i, Some n)]))"

fun dup_scan :: "(string \<times> string option) list \<Rightarrow> acl_file list
    \<Rightarrow> (string \<times> string \<times> string option) list" where
  "dup_scan owners [] = []"
| "dup_scan owners ((n, data) # ms) =
     (case data of
        None \<Rightarrow> dup_scan owners ms
      | Some v \<Rightarrow>
          if acl_errors (Some n) v \<noteq> [] then dup_scan owners ms
          else let (out, owners') = claim_ids n (file_ids v) owners in out @ dup_scan owners' ms)"

definition acl_duplicates :: "pyval \<Rightarrow> acl_file list \<Rightarrow> (string \<times> string \<times> string option) list" where
  "acl_duplicates core mods = dup_scan (map (\<lambda>i. (i, None)) (file_ids core)) mods"

record acl =
  acl_screens :: "(string \<times> (string \<times> string) list) list"
  acl_leaf_owners :: "(string \<times> string) list"
  acl_operations :: "(string \<times> string) list"
  acl_core_operations :: "string list"

definition acl_resources :: "acl \<Rightarrow> string list" where
  "acl_resources a = map fst (acl_leaf_owners a)"

datatype acl_error =
    CoreInvalid "acl_problem list"
  | NotJson string
  | FileInvalid string "acl_problem list"
  | AlreadyDeclared string string

definition file_problems :: "acl_file \<Rightarrow> acl_error list" where
  "file_problems m =
     (case snd m of None \<Rightarrow> [NotJson (fst m)]
      | Some v \<Rightarrow> if acl_errors (Some (fst m)) v = [] then [] else [FileInvalid (fst m) (acl_errors (Some (fst m)) v)])"

fun acl_build :: "(string \<times> pyval) list \<Rightarrow> acl \<Rightarrow> acl" where
  "acl_build [] a = a"
| "acl_build ((owner, data) # ms) a = acl_build ms
     (a\<lparr>acl_screens := acl_screens a @ file_screens data,
        acl_leaf_owners := dict_update (map (\<lambda>i. (i, owner)) (file_leaves data)) (acl_leaf_owners a),
        acl_operations := dict_update (file_operations data) (acl_operations a)\<rparr>)"

definition acl_load :: "pyval \<Rightarrow> acl_file list \<Rightarrow> acl_error list + acl" where
  "acl_load core mods =
     (if acl_errors None core \<noteq> [] then Inl [CoreInvalid (acl_errors None core)]
      else let ms = sort_key fst mods;
               problems = concat (map file_problems ms)
                 @ map (\<lambda>(n, i, w). AlreadyDeclared n i) (acl_duplicates core ms)
           in if problems \<noteq> [] then Inl problems
              else Inr (acl_build ((''''  , core) # map (\<lambda>m. (fst m, the (snd m)))
                       (filter (\<lambda>m. snd m \<noteq> Some (PyDict [])) ms))
                     \<lparr>acl_screens = [], acl_leaf_owners = [], acl_operations = [],
                      acl_core_operations = map fst (file_operations core)\<rparr>))"

text \<open>The leaves that a route of a module may name.\<close>

definition route_ids :: "acl \<Rightarrow> string \<Rightarrow> string list \<Rightarrow> string list" where
  "route_ids a m sequence =
     map fst (filter (\<lambda>(i, owner). owner = '''' \<or> owner = m \<or> owner \<in> set sequence) (acl_leaf_owners a))"

section \<open>Route declarations\<close>

definition METHODS :: "string list" where
  "METHODS = [''GET'', ''HEAD'', ''POST'', ''PUT'', ''PATCH'', ''DELETE'']"

definition is_upper :: "char \<Rightarrow> bool" where
  "is_upper c \<longleftrightarrow> c \<in> set ''ABCDEFGHIJKLMNOPQRSTUVWXYZ''"

definition route_prefix :: "string \<Rightarrow> string" where
  "route_prefix m = ''/api/'' @ m @ ''/''"

definition plain_segment :: "string \<Rightarrow> bool" where
  "plain_segment s \<longleftrightarrow> s \<noteq> [] \<and> (is_lower (hd s) \<or> is_digit (hd s))
     \<and> (\<forall>c \<in> set (tl s). is_lower c \<or> is_digit c \<or> c = CHR ''_'' \<or> c = CHR ''-'')"

text \<open>The text after a prefix, when it is there.\<close>

definition after :: "string \<Rightarrow> string \<Rightarrow> string option" where
  "after pre s = (if starts_with pre s then Some (drop (length pre) s) else None)"

definition short_number :: "string \<Rightarrow> (string \<times> string)" where
  "short_number s = (let n = takeWhile is_digit s in (n, drop (length n) s))"

definition bounded_repeat :: "string \<Rightarrow> bool" where
  "bounded_repeat s = (let (n, rest) = short_number s in
     n \<noteq> [] \<and> length n \<le> 3
     \<and> (rest = ''})'' \<or> (case after '','' rest of None \<Rightarrow> False
          | Some r \<Rightarrow> (let (k, end) = short_number r in k \<noteq> [] \<and> length k \<le> 3 \<and> end = ''})''))))"

text \<open>\<open>\(\?P<[a-z][a-z0-9_]*>\[[A-Za-z0-9_-]+\]\{[0-9]{1,3}(,[0-9]{1,3})?\}\)\<close>.\<close>

definition capture_segment :: "string \<Rightarrow> bool" where
  "capture_segment s =
     (case after ''(?P<'' s of None \<Rightarrow> False
      | Some a \<Rightarrow> a \<noteq> [] \<and> is_lower (hd a)
          \<and> (let name = takeWhile (\<lambda>c. is_lower c \<or> is_digit c \<or> c = CHR ''_'') a in
             case after ''>['' (drop (length name) a) of None \<Rightarrow> False
             | Some b \<Rightarrow>
                 (let cls = takeWhile (\<lambda>c. is_lower c \<or> is_upper c \<or> is_digit c
                              \<or> c = CHR ''_'' \<or> c = CHR ''-'') b in
                  cls \<noteq> [] \<and> (case after '']{'' (drop (length cls) b) of None \<Rightarrow> False
                              | Some r \<Rightarrow> bounded_repeat r))))"

definition segment_ok :: "string \<Rightarrow> bool" where
  "segment_ok s \<longleftrightarrow> re_match_dollar plain_segment s \<or> re_match_dollar capture_segment s"

datatype route_problem =
    RouteNotObject | BadMethod | BadPrefix | BadSegment | BadPattern | BadHandler | NotSessionAuth
  | NoAcl | AnonymousRoute | LoginRoute | BadAclValue | UnknownLeaf string

definition acl_names :: "pyval \<Rightarrow> string list option" where
  "acl_names v =
     (case v of
        PyStr s \<Rightarrow> Some [s]
      | PyList xs \<Rightarrow> if xs \<noteq> [] \<and> (\<forall>x \<in> set xs. is_str x) then Some (map str_of xs) else None
      | _ \<Rightarrow> None)"

definition acl_error_of :: "pyval \<Rightarrow> string list \<Rightarrow> string \<Rightarrow> route_problem option" where
  "acl_error_of v known auth =
     (if v = PyStr ACL_ANONYMOUS then (if auth = ''login'' then None else Some AnonymousRoute)
      else if auth = ''login'' then Some LoginRoute
      else if v = PyStr ACL_SELF then None
      else case acl_names v of
             None \<Rightarrow> Some BadAclValue
           | Some ids \<Rightarrow> (case filter (\<lambda>i. i \<notin> set known) ids of
                            [] \<Rightarrow> None | u # us \<Rightarrow> Some (UnknownLeaf u)))"

definition compiled_pattern :: "string \<Rightarrow> string" where
  "compiled_pattern path = ''^'' @ path @ ''$''"

text \<open>\<open>compiles\<close> is whether \<open>re.compile\<close> accepts the anchored path.\<close>

definition declaration_error ::
    "(string \<Rightarrow> bool) \<Rightarrow> string \<Rightarrow> pyval \<Rightarrow> string list \<Rightarrow> route_problem option" where
  "declaration_error compiles m decl acl_ids =
     (let method_v = py_get decl ''method''; path = py_get decl ''path''; prefix = route_prefix m in
      if \<not> is_py_dict decl then Some RouteNotObject
      else if \<not> (is_str method_v \<and> str_of method_v \<in> set METHODS) then Some BadMethod
      else if \<not> (is_str path \<and> starts_with prefix (str_of path)) then Some BadPrefix
      else if \<not> (\<forall>s \<in> set (split_on (CHR ''/'') (drop (length prefix) (str_of path))). segment_ok s)
      then Some BadSegment
      else if \<not> compiles (compiled_pattern (str_of path)) then Some BadPattern
      else if \<not> is_str (py_get decl ''handler'') then Some BadHandler
      else if py_get_or decl ''auth'' (PyStr ''session'') \<noteq> PyStr ''session'' then Some NotSessionAuth
      else if PyStr ''acl'' \<notin> set (dict_keys decl) then Some NoAcl
      else acl_error_of (py_get decl ''acl'') acl_ids ''session'')"

section \<open>Facts\<close>

lemma map_filter_Nil: "List.map_filter f xs = [] \<longleftrightarrow> (\<forall>x \<in> set xs. f x = None)"
  by (induction xs) (auto simp: List.map_filter_simps split: option.splits)

lemma entry_ok_id:
  "entry_error m e = None \<Longrightarrow> id_matches m (str_of (py_get e ''id''))
     \<and> str_of (py_get e ''id'') \<notin> {ACL_SELF, ACL_ANONYMOUS}"
  by (auto simp: entry_error_def Let_def split: if_splits)

text \<open>A screen without problems contributes all its leaves, and they are all valid.\<close>

lemma screen_ok:
  assumes "screen_problems m s = []"
  shows "screen_ids m s = map fst (map entry_pair (items_or_empty (py_get s ''leaves'')))
    \<and> (\<forall>i \<in> set (screen_ids m s). id_matches m i \<and> i \<notin> {ACL_SELF, ACL_ANONYMOUS})"
proof -
  obtain ls where ls: "screen_leaves s = Some ls" and all: "\<forall>e \<in> set ls. entry_error m e = None"
    using assms by (auto simp: screen_problems_def entry_problems_def map_filter_Nil split: option.splits)
  have items: "items_or_empty (py_get s ''leaves'') = ls"
    using ls by (auto simp: screen_leaves_def items_or_empty_def split: if_splits option.splits list.splits)
  have "entry_ids m ls = map (\<lambda>e. str_of (py_get e ''id'')) ls" using all by (simp add: entry_ids_def)
  then show ?thesis using ls items all entry_ok_id by (auto simp: screen_ids_def entry_pair_def)
qed

lemma distinct_if_once: "\<forall>i \<in> set xs. count_list xs i \<le> 1 \<Longrightarrow> distinct xs"
proof (induction xs)
  case (Cons x xs)
  have "count_list (x # xs) x \<le> 1" using Cons.prems by (meson list.set_intros(1))
  then have "x \<notin> set xs" by (simp flip: count_list_0_iff)
  moreover have "count_list xs i \<le> 1" if "i \<in> set xs" for i
  proof -
    have "count_list xs i \<le> count_list (x # xs) i" by simp
    also have "\<dots> \<le> 1" using Cons.prems that by (meson list.set_intros(2))
    finally show ?thesis .
  qed
  ultimately show ?case using Cons.IH by simp
qed simp

lemma twice_Nil: "twice ids = [] \<Longrightarrow> distinct ids"
proof -
  assume "twice ids = []"
  then have "set (twice ids) = {}" by (simp only: list.set(1))
  then have "{i \<in> set ids. 1 < count_list ids i} = {}"
    unfolding twice_def set_sort set_remdups set_filter .
  then show ?thesis by (intro distinct_if_once ballI) (metis (mono_tags, lifting) empty_Collect_eq not_less)
qed

lemma acl_errors_Nil:
  assumes "acl_errors m data = []"
  shows "distinct (file_ids data)
    \<and> (\<forall>i \<in> set (file_ids data). id_matches m i \<and> i \<notin> {ACL_SELF, ACL_ANONYMOUS})"
proof -
  let ?ss = "items_or_empty (py_get_or data ''screens'' (PyList []))"
  let ?os = "items_or_empty (py_get_or data ''operations'' (PyList []))"
  let ?ids = "concat (map (screen_ids m) ?ss) @ entry_ids m ?os"
  have parts: "\<forall>s \<in> set ?ss. screen_problems m s = []" "\<forall>e \<in> set ?os. entry_error m e = None"
      "twice ?ids = []"
    using assms by (auto simp: acl_errors_def Let_def entry_problems_def map_filter_Nil split: if_splits)
  have screens: "concat (map (screen_ids m) ?ss) = file_leaves data"
    unfolding file_leaves_def file_screens_def map_map
    using parts(1) screen_ok by (intro arg_cong [of _ _ concat] map_cong refl) simp
  have ops: "entry_ids m ?os = map fst (file_operations data)"
    using parts(2) by (simp add: entry_ids_def file_operations_def entry_pair_def comp_def)
  have "distinct ?ids" using parts(3) by (rule twice_Nil)
  moreover have "id_matches m i \<and> i \<notin> {ACL_SELF, ACL_ANONYMOUS}" if i: "i \<in> set ?ids" for i
  proof -
    consider s where "s \<in> set ?ss" "i \<in> set (screen_ids m s)"
      | e where "e \<in> set ?os" "i = str_of (py_get e ''id'')"
      using i by (auto simp: entry_ids_def)
    then show ?thesis
    proof cases
      case 1
      then show ?thesis using parts(1) screen_ok [of m s] by blast
    next
      case 2
      then show ?thesis unfolding 2(2) using parts(2) entry_ok_id [of m e] by metis
    qed
  qed
  ultimately show ?thesis unfolding file_ids_def screens ops by blast
qed

lemma claim_ids_clear:
  "claim_ids n ids owners = ([], owners') \<Longrightarrow> owners' = owners @ map (\<lambda>i. (i, Some n)) ids
     \<and> distinct ids \<and> set ids \<inter> fst ` set owners = {}"
proof (induction ids arbitrary: owners)
  case (Cons i ids)
  then have i: "map_of owners i = None" by (auto split: option.splits prod.splits)
  with Cons.prems have "claim_ids n ids (owners @ [(i, Some n)]) = ([], owners')" by simp
  from Cons.IH [OF this] i show ?case by (auto simp: map_of_eq_None_iff)
qed simp

lemma dup_scan_clear:
  assumes "dup_scan owners ms = []" and "\<forall>m \<in> set ms. file_problems m = []"
    and "distinct (map fst owners)"
  shows "distinct (map fst owners @ concat (map (\<lambda>m. file_ids (the (snd m))) ms))"
  using assms
proof (induction ms arbitrary: owners)
  case (Cons m ms)
  obtain n v where m: "m = (n, Some v)" "acl_errors (Some n) v = []"
    using Cons.prems(2) by (cases m) (auto simp: file_problems_def split: option.splits if_splits)
  obtain out owners' where c: "claim_ids n (file_ids v) owners = (out, owners')" by fastforce
  have "out = []" "dup_scan owners' ms = []" using Cons.prems(1) m c by simp_all
  moreover from this c have o: "owners' = owners @ map (\<lambda>i. (i, Some n)) (file_ids v)"
      "distinct (file_ids v)" "set (file_ids v) \<inter> fst ` set owners = {}"
    using claim_ids_clear by metis+
  moreover have "map fst owners' = map fst owners @ file_ids v" by (simp add: o(1) comp_def)
  ultimately show ?case
    using Cons.IH [of owners'] Cons.prems(2,3) m by (simp add: Int_commute)
qed simp

lemma acl_build_owners:
  "distinct (map fst (acl_leaf_owners a) @ concat (map (\<lambda>(w, data). file_leaves data) ms))
    \<Longrightarrow> acl_leaf_owners (acl_build ms a) = acl_leaf_owners a
      @ concat (map (\<lambda>(w, data). map (\<lambda>i. (i, w)) (file_leaves data)) ms)"
proof (induction ms arbitrary: a)
  case (Cons m ms)
  obtain w data where m: "m = (w, data)" by fastforce
  have "dict_update (map (\<lambda>i. (i, w)) (file_leaves data)) (acl_leaf_owners a)
      = acl_leaf_owners a @ map (\<lambda>i. (i, w)) (file_leaves data)"
    using Cons.prems by (intro dict_update_fresh) (auto simp: m comp_def)
  then show ?case using Cons.prems by (subst acl_build.simps(2)[of w data ms a, folded m]) (subst Cons.IH; simp add: m comp_def)
qed simp

lemma acl_build_operations:
  "distinct (map fst (acl_operations a) @ concat (map (\<lambda>(w, data). map fst (file_operations data)) ms))
    \<Longrightarrow> acl_operations (acl_build ms a) = acl_operations a
      @ concat (map (\<lambda>(w, data). file_operations data) ms)"
proof (induction ms arbitrary: a)
  case (Cons m ms)
  obtain w data where m: "m = (w, data)" by fastforce
  have "dict_update (file_operations data) (acl_operations a) = acl_operations a @ file_operations data"
    using Cons.prems by (intro dict_update_fresh) (auto simp: m)
  then show ?case using Cons.prems by (subst acl_build.simps(2)[of w data ms a, folded m]) (subst Cons.IH; simp add: m)
qed simp

lemma file_problems_Nil: "file_problems m = [] \<longleftrightarrow> (\<exists>v. snd m = Some v \<and> acl_errors (Some (fst m)) v = [])"
  by (simp add: file_problems_def split: option.splits)

lemma acl_loadD:
  assumes "acl_load core mods = Inr a"
  obtains ms where "ms = filter (\<lambda>m. snd m \<noteq> Some (PyDict [])) (sort_key fst mods)"
    "acl_errors None core = []" "\<forall>m \<in> set ms. file_problems m = []"
    "acl_duplicates core (sort_key fst mods) = []" "\<forall>m \<in> set (sort_key fst mods). file_problems m = []"
    "a = acl_build (('''', core) # map (\<lambda>m. (fst m, the (snd m))) ms)
       \<lparr>acl_screens = [], acl_leaf_owners = [], acl_operations = [],
        acl_core_operations = map fst (file_operations core)\<rparr>"
  using assms by (auto simp: acl_load_def Let_def split: if_splits)

lemma empty_file_ids: "file_ids (PyDict []) = []"
  by (simp add: file_ids_def file_leaves_def file_screens_def file_operations_def py_get_or_def
      items_or_empty_def)

lemma ids_skip_empty:
  "concat (map (\<lambda>m. file_ids (the (snd m))) (filter (\<lambda>m. snd m \<noteq> Some (PyDict [])) ms))
    = concat (map (\<lambda>m. file_ids (the (snd m))) ms)"
  by (induction ms) (auto simp: empty_file_ids)

lemma distinct_parts:
  assumes "distinct (concat (map (\<lambda>m. f m @ g m) xs))"
  shows "distinct (concat (map f xs) @ concat (map g xs))"
  using assms by (induction xs) auto

text \<open>
  The registry is unambiguous: no id is both a leaf and an operation or declared by two
  files, a leaf of the framework is owned by nobody else, and a module owns only leaves that its
  own file declares in its own name space, never \<open>self\<close> or \<open>anonymous\<close>.
\<close>

theorem acl_load_unambiguous:
  assumes "acl_load core mods = Inr a"
  shows "distinct (acl_resources a @ map fst (acl_operations a))
    \<and> (\<forall>i \<in> set (file_leaves core). \<forall>w. (i, w) \<in> set (acl_leaf_owners a) \<longrightarrow> w = '''')
    \<and> (\<forall>(i, w) \<in> set (acl_leaf_owners a). i \<notin> {ACL_SELF, ACL_ANONYMOUS}
         \<and> (w = '''' \<and> i \<in> set (file_leaves core)
            \<or> (\<exists>data. (w, Some data) \<in> set mods \<and> i \<in> set (file_leaves data)
                 \<and> re_match_dollar (module_id w) i)))"
proof -
  obtain ms where ms: "ms = filter (\<lambda>m. snd m \<noteq> Some (PyDict [])) (sort_key fst mods)"
    and core: "acl_errors None core = []" and fine: "\<forall>m \<in> set ms. file_problems m = []"
    and dups: "acl_duplicates core (sort_key fst mods) = []"
    and allfine: "\<forall>m \<in> set (sort_key fst mods). file_problems m = []"
    and a: "a = acl_build (('''', core) # map (\<lambda>m. (fst m, the (snd m))) ms)
       \<lparr>acl_screens = [], acl_leaf_owners = [], acl_operations = [],
        acl_core_operations = map fst (file_operations core)\<rparr>"
    by (rule acl_loadD [OF assms])
  let ?all = "('''', core) # map (\<lambda>m. (fst m, the (snd m))) ms"
  have "distinct (map fst (map (\<lambda>i. (i, None :: string option)) (file_ids core)))"
    using acl_errors_Nil [OF core] by (simp add: comp_def)
  from dup_scan_clear [OF _ allfine this] dups
  have "distinct (file_ids core @ concat (map (\<lambda>m. file_ids (the (snd m))) ms))"
    by (simp add: acl_duplicates_def comp_def ms ids_skip_empty)
  then have "distinct (concat (map (\<lambda>m. file_leaves (snd m) @ map fst (file_operations (snd m))) ?all))"
    by (simp add: file_ids_def comp_def)
  note dist = distinct_parts [OF this]
  have flat: "concat (map (\<lambda>(w, data). f data) ?all) = concat (map (\<lambda>m. f (snd m)) ?all)" for f :: "pyval \<Rightarrow> string list"
    by (simp add: comp_def)
  have owners: "acl_leaf_owners a = concat (map (\<lambda>(w, data). map (\<lambda>i. (i, w)) (file_leaves data)) ?all)"
  proof -
    have "distinct (concat (map (\<lambda>(w, data). file_leaves data) ?all))"
      unfolding flat using dist by (simp only: distinct_append)
    then show ?thesis unfolding a by (subst acl_build_owners) (simp_all only: acl.simps list.map append_Nil)
  qed
  have opers: "acl_operations a = concat (map (\<lambda>(w, data). file_operations data) ?all)"
  proof -
    have "distinct (concat (map (\<lambda>(w, data). map fst (file_operations data)) ?all))"
      unfolding flat using dist by (simp only: distinct_append)
    then show ?thesis unfolding a by (subst acl_build_operations) (simp_all only: acl.simps list.map append_Nil)
  qed
  have ids: "acl_resources a = concat (map (\<lambda>m. file_leaves (snd m)) ?all)"
    unfolding acl_resources_def owners map_concat map_map
    by (intro arg_cong [of _ _ concat] map_cong refl) (auto simp: comp_def)
  have oids: "map fst (acl_operations a) = concat (map (\<lambda>m. map fst (file_operations (snd m))) ?all)"
    unfolding opers map_concat map_map
    by (intro arg_cong [of _ _ concat] map_cong refl) auto
  have uniq: "distinct (acl_resources a @ map fst (acl_operations a))"
    unfolding ids oids by (rule dist)
  have core_owned: "(i, '''') \<in> set (acl_leaf_owners a)" if "i \<in> set (file_leaves core)" for i
    using that by (simp add: owners)
  have only: "w = ''''" if "i \<in> set (file_leaves core)" "(i, w) \<in> set (acl_leaf_owners a)" for i w
    using uniq core_owned [OF that(1)] that(2) eq_key_imp_eq_value
    unfolding acl_resources_def by fastforce
  have own: "i \<notin> {ACL_SELF, ACL_ANONYMOUS} \<and> (w = '''' \<and> i \<in> set (file_leaves core)
      \<or> (\<exists>data. (w, Some data) \<in> set mods \<and> i \<in> set (file_leaves data)
           \<and> re_match_dollar (module_id w) i))" if iw: "(i, w) \<in> set (acl_leaf_owners a)" for i w
  proof -
    consider "w = ''''" "i \<in> set (file_leaves core)"
      | m where "m \<in> set ms" "w = fst m" "i \<in> set (file_leaves (the (snd m)))"
      using iw unfolding owners by auto
    then show ?thesis
    proof cases
      case 1
      then show ?thesis using acl_errors_Nil [OF core] by (simp add: file_ids_def)
    next
      case 2
      obtain v where v: "snd m = Some v" "acl_errors (Some w) v = []"
        using fine 2 unfolding file_problems_Nil by blast
      have "(w, Some v) \<in> set mods" using 2 v(1) by (auto simp: ms) (metis prod.collapse)
      moreover have "i \<in> set (file_ids v)" using 2(3) v(1) by (simp add: file_ids_def)
      ultimately show ?thesis using acl_errors_Nil [OF v(2)] 2(3) v(1)
        by (auto simp: id_matches_def)
    qed
  qed
  show ?thesis using uniq only own by blast
qed

section \<open>The framework's file\<close>

definition acl_entry :: "string \<Rightarrow> string \<Rightarrow> pyval" where
  "acl_entry i t = PyDict [(PyStr ''id'', PyStr i), (PyStr ''title'', PyStr t)]"

definition acl_screen :: "string \<Rightarrow> pyval list \<Rightarrow> pyval" where
  "acl_screen t ls = PyDict [(PyStr ''title'', PyStr t), (PyStr ''leaves'', PyList ls)]"

definition core_acl_data :: pyval where
  "core_acl_data = PyDict
     [(PyStr ''screens'', PyList
        [acl_screen ''Dashboard''
          [acl_entry ''admin.dashboard'' ''View''],
         acl_screen ''Jobs''
          [acl_entry ''admin.jobs'' ''View''],
         acl_screen ''Agents''
          [acl_entry ''admin.agents'' ''View''],
         acl_screen ''Credentials''
          [acl_entry ''admin.credentials'' ''View'',
           acl_entry ''admin.credentials.edit'' ''Sign in, clear error, disable''],
         acl_screen ''Tools''
          [acl_entry ''admin.tools'' ''View''],
         acl_screen ''Skills''
          [acl_entry ''admin.skills'' ''View''],
         acl_screen ''Config''
          [acl_entry ''admin.config'' ''View'',
           acl_entry ''admin.config.edit'' ''Edit, test, and switch tools and skills''],
         acl_screen ''Users''
          [acl_entry ''admin.users'' ''View'',
           acl_entry ''admin.users.create'' ''Create'',
           acl_entry ''admin.users.edit'' ''Edit''],
         acl_screen ''Roles''
          [acl_entry ''admin.roles'' ''View'',
           acl_entry ''admin.roles.create'' ''Create'',
           acl_entry ''admin.roles.edit'' ''Edit and grant'',
           acl_entry ''admin.roles.delete'' ''Delete'']]),
      (PyStr ''operations'', PyList [acl_entry ''artifact.launch'' ''Launch a miniapp''])]"

definition sample_acl_file :: pyval where
  "sample_acl_file = PyDict [(PyStr ''screens'', PyList
     [acl_screen ''Stats'' [acl_entry ''stats.view'' ''View'']])]"

lemma core_acl_ok: "acl_errors None core_acl_data = []"
  by code_simp

lemma sample_acl_loads: "\<exists>a. acl_load core_acl_data [(''stats'', Some sample_acl_file)] = Inr a"
proof -
  have "file_problems (''stats'', Some sample_acl_file) = []" by code_simp
  moreover have "acl_duplicates core_acl_data [(''stats'', Some sample_acl_file)] = []" by code_simp
  ultimately show ?thesis by (simp add: acl_load_def core_acl_ok Let_def)
qed

theorem acl_load_unambiguous_witness:
  "\<exists>a. acl_load core_acl_data [(''stats'', Some sample_acl_file)] = Inr a \<and> distinct (acl_resources a)"
  using sample_acl_loads acl_load_unambiguous by fastforce

section \<open>Routes\<close>

text \<open>
  A route declaration that is accepted stays inside its module's part of the URL space, asks
  for a session and is never anonymous: its \<open>acl\<close> is \<open>self\<close> or names leaves that the module
  may name, at least one.
\<close>

theorem accepted_route_is_guarded:
  assumes "declaration_error compiles m decl acl_ids = None"
  shows "starts_with (route_prefix m) (str_of (py_get decl ''path''))
    \<and> str_of (py_get decl ''method'') \<in> set METHODS
    \<and> py_get_or decl ''auth'' (PyStr ''session'') = PyStr ''session''
    \<and> (py_get decl ''acl'' = PyStr ACL_SELF
       \<or> (\<exists>ids. acl_names (py_get decl ''acl'') = Some ids \<and> ids \<noteq> [] \<and> set ids \<subseteq> set acl_ids
            \<and> py_get decl ''acl'' \<noteq> PyStr ACL_ANONYMOUS))
    \<and> (\<forall>s \<in> set (split_on (CHR ''/'') (drop (length (route_prefix m)) (str_of (py_get decl ''path'')))).
         segment_ok s)"
proof -
  have acl: "acl_error_of (py_get decl ''acl'') acl_ids ''session'' = None"
    and rest: "is_str (py_get decl ''path'')" "starts_with (route_prefix m) (str_of (py_get decl ''path''))"
      "str_of (py_get decl ''method'') \<in> set METHODS"
      "py_get_or decl ''auth'' (PyStr ''session'') = PyStr ''session''"
      "\<forall>s \<in> set (split_on (CHR ''/'') (drop (length (route_prefix m)) (str_of (py_get decl ''path'')))).
         segment_ok s"
    using assms by (auto simp: declaration_error_def Let_def split: if_splits)
  have "py_get decl ''acl'' = PyStr ACL_SELF
       \<or> (\<exists>ids. acl_names (py_get decl ''acl'') = Some ids \<and> ids \<noteq> [] \<and> set ids \<subseteq> set acl_ids
            \<and> py_get decl ''acl'' \<noteq> PyStr ACL_ANONYMOUS)"
    using acl by (auto simp: acl_error_of_def acl_names_def filter_empty_conv
        split: if_splits option.splits list.splits pyval.splits)
  with rest show ?thesis by blast
qed

definition sample_route :: pyval where
  "sample_route = PyDict [(PyStr ''method'', PyStr ''GET''),
     (PyStr ''path'', PyStr ''/api/stats/rows/(?P<id>[0-9]{1,19})''),
     (PyStr ''handler'', PyStr ''stats.rows''), (PyStr ''acl'', PyStr ''stats.view'')]"

lemma sample_route_accepted: "declaration_error (\<lambda>_. True) ''stats'' sample_route [''stats.view''] = None"
  by code_simp

theorem accepted_route_is_guarded_witness:
  "starts_with (route_prefix ''stats'') (str_of (py_get sample_route ''path''))"
  using accepted_route_is_guarded [OF sample_route_accepted] by blast

end
