(* ===== verification/Access_Model.thy ===== *)
theory Access_Model
  imports Acl Auth_Context
begin

text \<open>
  \<open>access/accounts.py\<close>: users, roles, grants, and the tables of sessions and launches they revoke.
  Every write is one transaction, a function that returns an error (rolled back) or the new
  state. The clock is \<open>NOW()\<close>, in whole seconds; the row locks order the transactions. The
  registry of \<open>acl.py\<close> and the tools that modules declare are in \<open>access_env\<close>.
\<close>

section \<open>Rows\<close>

record user_row =
  w_id :: nat
  w_name :: string
  w_hash :: "string option"
  w_role :: string
  w_active :: bool

record session_row =
  e_id :: string
  e_hash :: string
  e_user :: nat
  e_expires :: nat
  e_revoked :: "nat option"

record launch_row =
  l_id :: string
  l_hash :: string
  l_user :: nat
  l_code :: string
  l_version :: string
  l_fingerprint :: string
  l_actions :: "string list"
  l_workspace :: nat
  l_view :: "nat option"
  l_created :: nat
  l_expires :: nat
  l_revoked :: "nat option"
  l_xhash :: string
  l_xexpires :: nat
  l_redeemed :: "nat option"

record grant_row =
  g_id :: nat
  g_role :: string
  g_kind :: string
  g_name :: string
  g_workspace :: "nat option"
  g_view :: "nat option"

record view_row =
  av_id :: nat
  av_code :: string
  av_label :: string
  av_workspace :: nat
  av_active :: bool

record access =
  clock :: nat
  users :: "user_row list"
  next_user :: nat
  roles :: "(string \<times> string) list"
  grants :: "grant_row list"
  next_grant :: nat
  sessions :: "session_row list"
  launches :: "launch_row list"
  aviews :: "view_row list"
  workspaces :: "(nat \<times> bool) list"

record access_env =
  ae_acl :: acl
  ae_declared :: "string list"
  ae_enabled :: "string list"
  ae_derive :: derive
  ae_hash :: "string \<Rightarrow> string"

datatype access_error =
    NotAllowed | BadUsername | UnknownRole | UsernameTaken | UserNotFound | BadPassword
  | OneScope | BadGrantKind | PanelTakesNoScope | UnknownOperation | UndeclaredTool
  | GrantNotFound | TooManyNames | PanelTakesNoTools | AgentViewNotFound | UnknownReference
  | RoleNotFound | RoleCodeTaken | RoleLabelTaken | BuiltinRole | RoleInUse nat | BadRoleCode
  | BadLabel | GrantsBusy | AuthTtlError | LaunchConfigError | DuplicateLaunch

section \<open>Names\<close>

definition BUILTIN_ROLES :: "string list" where "BUILTIN_ROLES = [''admin'', ''user'']"
definition GRANT_KINDS :: "string list" where "GRANT_KINDS = [''tool'', ''operation'']"
definition MAX_GRANT_NAMES :: nat where "MAX_GRANT_NAMES = 1000"

definition role_code_ok :: "string \<Rightarrow> bool" where
  "role_code_ok s \<longleftrightarrow> 2 \<le> length s \<and> length s \<le> 16 \<and> is_lower (hd s)
     \<and> (\<forall>c \<in> set (tl s). is_lower c \<or> is_digit c \<or> c = CHR ''_'')"

definition username_ok :: "string \<Rightarrow> bool" where
  "username_ok s \<longleftrightarrow> s \<noteq> [] \<and> length s \<le> 64 \<and> (is_lower (hd s) \<or> is_digit (hd s))
     \<and> (\<forall>c \<in> set (tl s). is_lower c \<or> is_digit c \<or> c \<in> {CHR ''.'', CHR ''_'', CHR ''-''})"

section \<open>Locks and checks\<close>

text \<open>An actor is a user id and the role the route check saw; \<open>None\<close> is an operator.\<close>

type_synonym actor = "(nat \<times> string) option"

definition find_user :: "access \<Rightarrow> nat \<Rightarrow> user_row option" where
  "find_user d i = find (\<lambda>u. w_id u = i) (users d)"

definition check_actor :: "access \<Rightarrow> actor \<Rightarrow> bool" where
  "check_actor d actor \<longleftrightarrow>
     (case actor of None \<Rightarrow> True
      | Some (i, role) \<Rightarrow> (case find_user d i of None \<Rightarrow> False
                          | Some u \<Rightarrow> w_role u = role \<and> w_active u))"

definition admin_only :: "actor \<Rightarrow> bool" where
  "admin_only actor \<longleftrightarrow> (case actor of None \<Rightarrow> True | Some (i, role) \<Rightarrow> role = ''admin'')"

definition role_known :: "access \<Rightarrow> string \<Rightarrow> bool" where
  "role_known d role \<longleftrightarrow> role_code_ok role \<and> role \<in> fst ` set (roles d)"

definition revoke_sessions :: "nat \<Rightarrow> access \<Rightarrow> access" where
  "revoke_sessions i d = d\<lparr>sessions := update_where (\<lambda>s. e_user s = i \<and> e_revoked s = None)
     (\<lambda>s. s\<lparr>e_revoked := Some (clock d)\<rparr>) (sessions d)\<rparr>"

definition revoke_launches_where :: "(launch_row \<Rightarrow> bool) \<Rightarrow> access \<Rightarrow> access" where
  "revoke_launches_where p d = d\<lparr>launches := update_where (\<lambda>l. p l \<and> l_revoked l = None)
     (\<lambda>l. l\<lparr>l_revoked := Some (clock d)\<rparr>) (launches d)\<rparr>"

definition revoke_launches :: "nat \<Rightarrow> access \<Rightarrow> access" where
  "revoke_launches i = revoke_launches_where (\<lambda>l. l_user l = i)"

section \<open>Users\<close>

definition hash_of :: "access_env \<Rightarrow> nat list \<Rightarrow> string option \<Rightarrow> access_error + string option" where
  "hash_of env salt password =
     (case password of None \<Rightarrow> Inr None
      | Some p \<Rightarrow> (case hash_password (ae_derive env) salt p of
                    None \<Rightarrow> Inl BadPassword | Some h \<Rightarrow> Inr (Some h)))"

definition create_user ::
    "access_env \<Rightarrow> nat list \<Rightarrow> string \<Rightarrow> string \<Rightarrow> string option \<Rightarrow> actor \<Rightarrow> access
      \<Rightarrow> access_error + (user_row \<times> access)" where
  "create_user env salt username role password actor d =
     (if \<not> username_ok username then Inl BadUsername
      else case hash_of env salt password of
        Inl e \<Rightarrow> Inl e
      | Inr hash \<Rightarrow>
          if \<not> check_actor d actor then Inl NotAllowed
          else if \<not> role_known d role then Inl UnknownRole
          else if role = ''admin'' \<and> \<not> admin_only actor then Inl NotAllowed
          else if username \<in> w_name ` set (users d) then Inl UsernameTaken
          else let u = \<lparr>w_id = next_user d, w_name = username, w_hash = hash, w_role = role,
                        w_active = True\<rparr>
               in Inr (u, d\<lparr>users := users d @ [u], next_user := next_user d + 1\<rparr>))"

definition get_user_by_username :: "string \<Rightarrow> access \<Rightarrow> user_row option" where
  "get_user_by_username username d =
     (if \<not> username_ok username then None else find (\<lambda>u. w_name u = username) (users d))"

definition authenticate_in :: "access_env \<Rightarrow> string \<Rightarrow> string \<Rightarrow> access \<Rightarrow> user_row option" where
  "authenticate_in env username password d =
     (if \<not> username_ok username then None
      else let row = find (\<lambda>u. w_name u = username) (users d) in
           if \<not> verify_password (ae_derive env) password (Option.bind row w_hash) then None
           else case row of None \<Rightarrow> None | Some u \<Rightarrow> if w_active u then Some u else None)"

definition edited_user ::
    "string option \<Rightarrow> bool option \<Rightarrow> string option \<Rightarrow> user_row \<Rightarrow> user_row" where
  "edited_user role active hash u =
     u\<lparr>w_role := (case role of Some r \<Rightarrow> r | None \<Rightarrow> w_role u),
       w_active := (case active of Some b \<Rightarrow> b | None \<Rightarrow> w_active u),
       w_hash := (case hash of Some h \<Rightarrow> Some h | None \<Rightarrow> w_hash u)\<rparr>"

definition update_user ::
    "access_env \<Rightarrow> nat list \<Rightarrow> nat \<Rightarrow> string option \<Rightarrow> bool option \<Rightarrow> string option \<Rightarrow> actor \<Rightarrow> access
      \<Rightarrow> access_error + access" where
  "update_user env salt user_id role active password actor d =
     (case hash_of env salt password of
        Inl e \<Rightarrow> Inl e
      | Inr hash \<Rightarrow>
          if \<not> check_actor d actor then Inl NotAllowed
          else case find_user d user_id of
            None \<Rightarrow> Inl UserNotFound
          | Some target \<Rightarrow>
              if (w_role target = ''admin'' \<or> role = Some ''admin'') \<and> \<not> admin_only actor
              then Inl NotAllowed
              else if (\<exists>r. role = Some r \<and> \<not> role_known d r) then Inl UnknownRole
              else let d1 = d\<lparr>users := update_where (\<lambda>u. w_id u = user_id)
                              (edited_user role active hash) (users d)\<rparr>;
                       d2 = (if role \<noteq> None \<or> active = Some False \<or> hash \<noteq> None
                             then revoke_sessions user_id d1 else d1)
                   in Inr (if role \<noteq> None \<or> active = Some False
                           then revoke_launches user_id d2 else d2))"

section \<open>Grants\<close>

definition is_builtin_resource :: "access_env \<Rightarrow> string \<Rightarrow> string \<Rightarrow> bool" where
  "is_builtin_resource env role operation \<longleftrightarrow>
     role = ''admin'' \<and> operation \<notin> set (acl_core_operations (ae_acl env))"

definition check_grant ::
    "access_env \<Rightarrow> string \<Rightarrow> string \<Rightarrow> nat option \<Rightarrow> nat option \<Rightarrow> access_error option" where
  "check_grant env kind name ws av =
     (if kind \<notin> set GRANT_KINDS then Some BadGrantKind
      else if name \<in> set (acl_resources (ae_acl env))
      then (if kind \<noteq> ''operation'' \<or> ws \<noteq> None \<or> av \<noteq> None then Some PanelTakesNoScope else None)
      else if (ws = None) = (av = None) then Some OneScope
      else if kind = ''operation'' \<and> name \<notin> fst ` set (acl_operations (ae_acl env))
      then Some UnknownOperation
      else if kind = ''tool'' \<and> name \<notin> set (ae_declared env) then Some UndeclaredTool
      else None)"

definition ref_known :: "access \<Rightarrow> nat option \<Rightarrow> nat option \<Rightarrow> bool" where
  "ref_known d ws av \<longleftrightarrow> (case ws of None \<Rightarrow> True | Some w \<Rightarrow> w \<in> fst ` set (workspaces d))
     \<and> (case av of None \<Rightarrow> True | Some v \<Rightarrow> v \<in> av_id ` set (aviews d))"

definition same_grant :: "string \<Rightarrow> string \<Rightarrow> string \<Rightarrow> nat option \<Rightarrow> nat option \<Rightarrow> grant_row \<Rightarrow> bool" where
  "same_grant role kind name ws av g \<longleftrightarrow> g_role g = role \<and> g_kind g = kind \<and> g_name g = name
     \<and> g_workspace g = ws \<and> g_view g = av"

text \<open>\<open>got\<close>: the named lock was free in time.\<close>

definition add_grant ::
    "access_env \<Rightarrow> bool \<Rightarrow> string \<Rightarrow> string \<Rightarrow> string \<Rightarrow> nat option \<Rightarrow> nat option \<Rightarrow> access
      \<Rightarrow> access_error + (nat \<times> access)" where
  "add_grant env got role kind name ws av d =
     (case check_grant env kind name ws av of
        Some e \<Rightarrow> Inl e
      | None \<Rightarrow>
          if \<not> got then Inl GrantsBusy
          else if \<not> role_known d role then Inl UnknownRole
          else case find (same_grant role kind name ws av) (grants d) of
            Some g \<Rightarrow> Inr (g_id g, d)
          | None \<Rightarrow>
              if \<not> ref_known d ws av then Inl UnknownReference
              else Inr (next_grant d,
                d\<lparr>grants := grants d @ [\<lparr>g_id = next_grant d, g_role = role, g_kind = kind,
                     g_name = name, g_workspace = ws, g_view = av\<rparr>],
                  next_grant := next_grant d + 1\<rparr>))"

text \<open>The launches of a role's users in one scope; a scope with a NULL id matches nothing.\<close>

definition launch_in_scope :: "nat option \<Rightarrow> nat option \<Rightarrow> launch_row \<Rightarrow> bool" where
  "launch_in_scope ws av l =
     (case av of Some v \<Rightarrow> l_view l = Some v
      | None \<Rightarrow> (case ws of Some w \<Rightarrow> l_workspace l = w | None \<Rightarrow> False))"

definition user_has_role :: "access \<Rightarrow> string \<Rightarrow> nat \<Rightarrow> bool" where
  "user_has_role d role i \<longleftrightarrow> (\<exists>u \<in> set (users d). w_id u = i \<and> w_role u = role)"

definition revoke_role_launches :: "string \<Rightarrow> nat option \<Rightarrow> nat option \<Rightarrow> access \<Rightarrow> access" where
  "revoke_role_launches role ws av d =
     revoke_launches_where (\<lambda>l. user_has_role d role (l_user l) \<and> launch_in_scope ws av l) d"

definition remove_grant :: "nat \<Rightarrow> access \<Rightarrow> access_error + access" where
  "remove_grant i d =
     (case find (\<lambda>g. g_id g = i) (grants d) of
        None \<Rightarrow> Inl GrantNotFound
      | Some g \<Rightarrow> Inr (revoke_role_launches (g_role g) (g_workspace g) (g_view g)
                        (d\<lparr>grants := filter (\<lambda>g. g_id g \<noteq> i) (grants d)\<rparr>)))"

text \<open>The panel leaves a role holds through its grants.\<close>

definition held :: "access_env \<Rightarrow> string \<Rightarrow> access \<Rightarrow> string set" where
  "held env role d = g_name ` set (filter (\<lambda>g. g_role g = role \<and> g_kind g = ''operation''
     \<and> g_workspace g = None \<and> g_view g = None) (grants d)) \<inter> set (acl_resources (ae_acl env))"

fun add_grants :: "string \<Rightarrow> nat option \<Rightarrow> nat option \<Rightarrow> (string \<times> string) list \<Rightarrow> access \<Rightarrow> access" where
  "add_grants role ws av [] d = d"
| "add_grants role ws av ((kind, name) # ks) d = add_grants role ws av ks
     (d\<lparr>grants := grants d @ [\<lparr>g_id = next_grant d, g_role = role, g_kind = kind, g_name = name,
          g_workspace = ws, g_view = av\<rparr>], next_grant := next_grant d + 1\<rparr>)"

definition kn :: "grant_row \<Rightarrow> string \<times> string" where
  "kn g = (g_kind g, g_name g)"

definition at_scope :: "string \<Rightarrow> nat option \<Rightarrow> nat option \<Rightarrow> grant_row \<Rightarrow> bool" where
  "at_scope role ws av g \<longleftrightarrow> g_role g = role \<and> g_workspace g = ws \<and> g_view g = av"

text \<open>The (kind, name) pairs that the role has in the workspace of a view.\<close>

definition inherited_grants :: "string \<Rightarrow> nat option \<Rightarrow> access \<Rightarrow> access_error + (string \<times> string) set" where
  "inherited_grants role av d =
     (case av of None \<Rightarrow> Inr {}
      | Some v \<Rightarrow> (case find (\<lambda>r. av_id r = v) (aviews d) of
                    None \<Rightarrow> Inl AgentViewNotFound
                  | Some r \<Rightarrow> Inr (kn ` set (filter (at_scope role (Some (av_workspace r)) None) (grants d)))))"

definition set_role_grants ::
    "access_env \<Rightarrow> bool \<Rightarrow> string \<Rightarrow> nat option \<Rightarrow> nat option \<Rightarrow> string list \<Rightarrow> string list \<Rightarrow> actor
      \<Rightarrow> access \<Rightarrow> access_error + ((nat \<times> nat) \<times> access)" where
  "set_role_grants env got role ws av tools operations actor d =
     (let is_global = (ws = None \<and> av = None);
          known = (if is_global then acl_resources (ae_acl env) else map fst (acl_operations (ae_acl env)));
          want_list = sort (remdups (map (Pair ''tool'') tools @ map (Pair ''operation'') operations));
          want = set want_list;
          replaceable = Pair ''operation'' ` set known
            \<union> (if is_global then {} else Pair ''tool'' ` set (ae_enabled env)) in
      if \<not> is_global \<and> (ws = None) = (av = None) then Inl OneScope
      else if MAX_GRANT_NAMES < card (set tools) + card (set operations) then Inl TooManyNames
      else if \<not> set operations \<subseteq> set known then Inl UnknownOperation
      else if is_global \<and> tools \<noteq> [] then Inl PanelTakesNoTools
      else if \<not> is_global \<and> \<not> set tools \<subseteq> set (ae_declared env) then Inl UndeclaredTool
      else if \<not> check_actor d actor then Inl NotAllowed
      else if \<not> got then Inl GrantsBusy
      else if \<not> role_known d role then Inl UnknownRole
      else case inherited_grants role av d of
        Inl e \<Rightarrow> Inl e
      | Inr inherited \<Rightarrow>
          (let current = filter (at_scope role ws av) (grants d);
               dropped = filter (\<lambda>g. kn g \<in> replaceable \<and> kn g \<notin> want \<and> kn g \<notin> inherited) current;
               add = filter (\<lambda>k. k \<notin> kn ` set current \<and> k \<notin> inherited) want_list in
           if is_global \<and> \<not> admin_only actor
              \<and> \<not> (snd ` set add \<union> g_name ` set dropped \<subseteq> held env (snd (the actor)) d)
           then Inl NotAllowed
           else (let d1 = (if dropped = [] then d
                           else revoke_role_launches role ws av
                             (d\<lparr>grants := filter (\<lambda>g. g_id g \<notin> g_id ` set dropped) (grants d)\<rparr>)) in
                 if add \<noteq> [] \<and> \<not> ref_known d ws av then Inl UnknownReference
                 else Inr ((length add, length dropped), add_grants role ws av add d1))))"

section \<open>Roles\<close>

definition check_label :: "string \<Rightarrow> string option" where
  "check_label label = (let l = strip label in if 1 \<le> length l \<and> length l \<le> 64 then Some l else None)"

definition create_role :: "string \<Rightarrow> string \<Rightarrow> actor \<Rightarrow> access \<Rightarrow> access_error + access" where
  "create_role code label actor d =
     (if \<not> role_code_ok code then Inl BadRoleCode
      else case check_label label of
        None \<Rightarrow> Inl BadLabel
      | Some l \<Rightarrow>
          if \<not> check_actor d actor then Inl NotAllowed
          else if code \<in> fst ` set (roles d) then Inl RoleCodeTaken
          else if l \<in> snd ` set (roles d) then Inl RoleLabelTaken
          else Inr (d\<lparr>roles := roles d @ [(code, l)]\<rparr>))"

definition rename_role :: "string \<Rightarrow> string \<Rightarrow> actor \<Rightarrow> access \<Rightarrow> access_error + access" where
  "rename_role code label actor d =
     (case check_label label of
        None \<Rightarrow> Inl BadLabel
      | Some l \<Rightarrow>
          if \<not> check_actor d actor then Inl NotAllowed
          else if \<not> role_known d code then Inl RoleNotFound
          else if (\<exists>r \<in> set (roles d). fst r \<noteq> code \<and> snd r = l) then Inl RoleLabelTaken
          else Inr (d\<lparr>roles := map (\<lambda>r. if fst r = code then (code, l) else r) (roles d)\<rparr>))"

definition delete_role :: "string \<Rightarrow> actor \<Rightarrow> access \<Rightarrow> access_error + access" where
  "delete_role code actor d =
     (if code \<in> set BUILTIN_ROLES then Inl BuiltinRole
      else if \<not> check_actor d actor then Inl NotAllowed
      else if \<not> role_known d code then Inl RoleNotFound
      else let n = length (filter (\<lambda>u. w_role u = code) (users d)) in
           if 0 < n then Inl (RoleInUse n)
           else Inr (d\<lparr>roles := filter (\<lambda>r. fst r \<noteq> code) (roles d),
                       grants := filter (\<lambda>g. g_role g \<noteq> code) (grants d)\<rparr>))"

section \<open>Reading access\<close>

text \<open>\<open>_SCOPE_MATCH\<close>: a view grant for that view, a workspace grant for the workspace.\<close>

definition scope_match :: "nat option \<Rightarrow> nat option \<Rightarrow> grant_row \<Rightarrow> bool" where
  "scope_match ws av g \<longleftrightarrow> (av \<noteq> None \<and> g_view g = av \<and> g_workspace g = None)
     \<or> (ws \<noteq> None \<and> g_view g = None \<and> g_workspace g = ws)"

definition granted :: "string \<Rightarrow> string \<Rightarrow> nat option \<Rightarrow> nat option \<Rightarrow> access \<Rightarrow> string list" where
  "granted role kind ws av d = sort (remdups (map g_name
     (filter (\<lambda>g. g_role g = role \<and> g_kind g = kind \<and> scope_match ws av g) (grants d))))"

definition permitted_tools :: "string \<Rightarrow> nat option \<Rightarrow> nat option \<Rightarrow> access \<Rightarrow> string list" where
  "permitted_tools role ws av d = granted role ''tool'' ws av d"

definition has_operation :: "string \<Rightarrow> string \<Rightarrow> nat option \<Rightarrow> nat option \<Rightarrow> access \<Rightarrow> bool" where
  "has_operation role operation ws av d \<longleftrightarrow> operation \<in> set (granted role ''operation'' ws av d)"

definition view_grant :: "view_row \<Rightarrow> grant_row \<Rightarrow> bool" where
  "view_grant v g \<longleftrightarrow> (g_view g = Some (av_id v) \<and> g_workspace g = None)
     \<or> (g_view g = None \<and> g_workspace g = Some (av_workspace v))"

definition visible_agent_views :: "user_row \<Rightarrow> access \<Rightarrow> view_row list" where
  "visible_agent_views u d = sort_key av_code (filter (\<lambda>v. w_role u = ''admin''
     \<or> (\<exists>g \<in> set (grants d). g_role g = w_role u \<and> view_grant v g)) (aviews d))"

definition operation_views :: "string \<Rightarrow> string \<Rightarrow> access \<Rightarrow> view_row list" where
  "operation_views role operation d = sort_key av_code (filter (\<lambda>v.
     \<exists>g \<in> set (grants d). g_role g = role \<and> g_kind g = ''operation'' \<and> g_name g = operation
       \<and> view_grant v g) (aviews d))"

definition can_reach :: "user_row \<Rightarrow> nat option \<Rightarrow> nat option \<Rightarrow> access \<Rightarrow> bool" where
  "can_reach u ws av d \<longleftrightarrow> w_role u = ''admin''
     \<or> (\<exists>g \<in> set (grants d). g_role g = w_role u \<and> scope_match ws av g)"

definition scope_is_active :: "nat option \<Rightarrow> access \<Rightarrow> bool" where
  "scope_is_active av d \<longleftrightarrow> (case av of None \<Rightarrow> True
     | Some v \<Rightarrow> (\<exists>r \<in> set (aviews d). av_id r = v \<and> av_active r
         \<and> (av_workspace r, True) \<in> set (workspaces d)))"

definition held_admin :: "access_env \<Rightarrow> string \<Rightarrow> access \<Rightarrow> string set" where
  "held_admin env role d = (if role = ''admin'' then set (acl_resources (ae_acl env)) else held env role d)"

definition may :: "access_env \<Rightarrow> user_row \<Rightarrow> string list \<Rightarrow> access \<Rightarrow> bool" where
  "may env u leaves d \<longleftrightarrow> w_active u \<and> set leaves \<inter> held_admin env (w_role u) d \<noteq> {}"

end
