(* ===== verification/Access_Launches.thy ===== *)
theory Access_Launches
  imports Access_Model
begin

text \<open>
  \<open>access/sessions.py\<close> and \<open>access/launches.py\<close>: panel sessions and miniapp launches. Random ids,
  tokens and codes are arguments; only their hashes are stored. A duplicate id or hash is an
  \<open>IntegrityError\<close>.
\<close>

section \<open>Sessions\<close>

definition ttl_of :: "auth_config \<Rightarrow> nat option \<Rightarrow> string \<Rightarrow> nat option" where
  "ttl_of cfg ws key = map_option (\<lambda>t. nat (int_of (py_get t key))) (resolve_auth_ttls cfg ws)"

definition insert_session ::
    "access_env \<Rightarrow> string \<Rightarrow> string \<Rightarrow> user_row \<Rightarrow> nat \<Rightarrow> access
      \<Rightarrow> access_error + (session_row \<times> string \<times> access)" where
  "insert_session env session_id token u ttl d =
     (let s = \<lparr>e_id = session_id, e_hash = ae_hash env token, e_user = w_id u,
               e_expires = clock d + ttl, e_revoked = None\<rparr> in
      if session_id \<in> e_id ` set (sessions d) \<or> e_hash s \<in> e_hash ` set (sessions d)
      then Inl DuplicateLaunch
      else Inr (s, token, d\<lparr>sessions := sessions d @ [s]\<rparr>))"

text \<open>\<open>Inr None\<close> is a refused sign-in.\<close>

definition sign_in ::
    "access_env \<Rightarrow> auth_config \<Rightarrow> string \<Rightarrow> string \<Rightarrow> string \<Rightarrow> string \<Rightarrow> access
      \<Rightarrow> access_error + ((session_row \<times> string) option \<times> access)" where
  "sign_in env cfg session_id token username password d =
     (case ttl_of cfg None ''session_max_ttl'' of
        None \<Rightarrow> Inl AuthTtlError
      | Some ttl \<Rightarrow>
          (case authenticate_in env username password d of
             None \<Rightarrow> Inr (None, d)
           | Some u \<Rightarrow> (case insert_session env session_id token u ttl d of
                          Inl e \<Rightarrow> Inl e
                        | Inr (s, t, d') \<Rightarrow> Inr (Some (s, t), d'))))"

definition lookup_session :: "access_env \<Rightarrow> string option \<Rightarrow> access \<Rightarrow> (session_row \<times> user_row) option" where
  "lookup_session env token d =
     (if \<not> truthy token then None
      else case find (\<lambda>s. e_hash s = ae_hash env (the token) \<and> e_revoked s = None \<and> clock d < e_expires s
             \<and> (\<exists>u \<in> set (users d). w_id u = e_user s \<and> w_active u)) (sessions d) of
        None \<Rightarrow> None
      | Some s \<Rightarrow> map_option (Pair s) (find_user d (e_user s)))"

definition revoke_session :: "string \<Rightarrow> access \<Rightarrow> access" where
  "revoke_session session_id d =
     d\<lparr>sessions := update_where (\<lambda>s. e_id s = session_id \<and> e_revoked s = None)
         (\<lambda>s. s\<lparr>e_revoked := Some (clock d)\<rparr>) (sessions d)\<rparr>"

section \<open>Launches\<close>

definition EXCHANGE_TTL_SECONDS :: nat where "EXCHANGE_TTL_SECONDS = 30"
definition MAX_CONCURRENT_CEILING :: nat where "MAX_CONCURRENT_CEILING = 20"

text \<open>
  \<open>str(raw).strip()\<close> of the configured value, none when it is absent or a bool. A superscript
  digit passes \<open>isdigit\<close> and fails in \<open>int\<close>; both ways out are an error.
\<close>

definition max_concurrent :: "pyval \<Rightarrow> nat option" where
  "max_concurrent raw =
     (let text = ttl_text raw in
      if text = [] \<or> \<not> (\<forall>c \<in> set text. is_digit c) \<or> nat_of_str text < 1 then None
      else Some (min (nat_of_str text) MAX_CONCURRENT_CEILING))"

text \<open>ENV, then the workspace's row, then the default's, then the module's \<open>config.json\<close>.\<close>

definition max_concurrent_raw ::
    "string option \<Rightarrow> string option \<Rightarrow> string option \<Rightarrow> pyval \<Rightarrow> pyval" where
  "max_concurrent_raw env ws dflt config =
     (case env of Some s \<Rightarrow> PyStr s
      | None \<Rightarrow> (case ws of Some s \<Rightarrow> PyStr s
        | None \<Rightarrow> (case dflt of Some s \<Rightarrow> PyStr s | None \<Rightarrow> config)))"

definition live :: "access \<Rightarrow> launch_row \<Rightarrow> bool" where
  "live d l \<longleftrightarrow> l_revoked l = None \<and> clock d < l_expires l"

text \<open>\<open>ORDER BY created_at DESC, id = new DESC, id DESC\<close>.\<close>

definition newest_first :: "string \<Rightarrow> launch_row list \<Rightarrow> launch_row list" where
  "newest_first new ls = rev (sort_key (\<lambda>l. (l_created l, l_id l = new, l_id l)) ls)"

definition live_of :: "nat \<Rightarrow> access \<Rightarrow> launch_row list" where
  "live_of i d = filter (\<lambda>l. l_user l = i \<and> live d l) (launches d)"

definition evict_ids :: "string \<Rightarrow> nat \<Rightarrow> nat \<Rightarrow> access \<Rightarrow> string list" where
  "evict_ids new i cap d = map l_id (take 1000 (drop cap (newest_first new (live_of i d))))"

record launch_request =
  q_workspace :: nat
  q_view :: "nat option"
  q_code :: string
  q_version :: string
  q_actions :: "string list"

definition may_launch :: "access \<Rightarrow> user_row \<Rightarrow> nat \<Rightarrow> nat option \<Rightarrow> bool" where
  "may_launch d u ws av \<longleftrightarrow> w_active u
     \<and> (w_role u = ''admin'' \<or> has_operation (w_role u) ''artifact.launch'' (Some ws) av d)"

definition new_launch ::
    "access_env \<Rightarrow> string \<Rightarrow> string \<Rightarrow> string \<Rightarrow> nat \<Rightarrow> launch_request \<Rightarrow> nat \<Rightarrow> access \<Rightarrow> launch_row" where
  "new_launch env launch_id token code i q ttl d =
     \<lparr>l_id = launch_id, l_hash = ae_hash env token, l_user = i, l_code = q_code q,
      l_version = q_version q, l_fingerprint = ae_hash env '''', l_actions = q_actions q,
      l_workspace = q_workspace q, l_view = q_view q, l_created = clock d,
      l_expires = clock d + ttl, l_revoked = None, l_xhash = ae_hash env code,
      l_xexpires = clock d + EXCHANGE_TTL_SECONDS, l_redeemed = None\<rparr>"

text \<open>\<open>authorize\<close> is the caller's own check of the user as stored.\<close>

definition create_launch ::
    "access_env \<Rightarrow> auth_config \<Rightarrow> pyval \<Rightarrow> string \<Rightarrow> string \<Rightarrow> string \<Rightarrow> (user_row \<Rightarrow> bool) \<Rightarrow> nat
      \<Rightarrow> launch_request \<Rightarrow> access \<Rightarrow> access_error + (launch_row \<times> string \<times> access)" where
  "create_launch env cfg raw_cap launch_id token code authorize i q d =
     (case (ttl_of cfg (Some (q_workspace q)) ''launch_max_ttl'', max_concurrent raw_cap) of
        (None, _) \<Rightarrow> Inl AuthTtlError
      | (Some ttl, None) \<Rightarrow> Inl LaunchConfigError
      | (Some ttl, Some cap) \<Rightarrow>
          (case find_user d i of
             None \<Rightarrow> Inl NotAllowed
           | Some u \<Rightarrow>
               if \<not> may_launch d u (q_workspace q) (q_view q) then Inl NotAllowed
               else if \<not> authorize u then Inl NotAllowed
               else (let l = new_launch env launch_id token code i q ttl d in
                 if launch_id \<in> l_id ` set (launches d) \<or> l_hash l \<in> l_hash ` set (launches d)
                    \<or> l_xhash l \<in> l_xhash ` set (launches d)
                 then Inl DuplicateLaunch
                 else if \<not> ref_known d (Some (q_workspace q)) (q_view q) then Inl UnknownReference
                 else (let d1 = d\<lparr>launches := launches d @ [l]\<rparr>;
                           evict = evict_ids launch_id i cap d1 in
                       Inr (l, code, d1\<lparr>launches := update_where (\<lambda>l. l_id l \<in> set evict)
                              (\<lambda>l. l\<lparr>l_revoked := Some (clock d)\<rparr>) (launches d1)\<rparr>)))))"

definition active_owner :: "access \<Rightarrow> launch_row \<Rightarrow> bool" where
  "active_owner d l \<longleftrightarrow> (\<exists>u \<in> set (users d). w_id u = l_user l \<and> w_active u)"

definition redeemable :: "access_env \<Rightarrow> string \<Rightarrow> string \<Rightarrow> access \<Rightarrow> launch_row \<Rightarrow> bool" where
  "redeemable env launch_id code d l \<longleftrightarrow> l_id l = launch_id \<and> l_xhash l = ae_hash env code
     \<and> l_redeemed l = None \<and> clock d < l_xexpires l \<and> live d l \<and> active_owner d l"

definition redeem ::
    "access_env \<Rightarrow> string \<Rightarrow> string \<Rightarrow> string \<Rightarrow> access \<Rightarrow> (launch_row \<times> string) option \<times> access" where
  "redeem env token launch_id code d =
     (if code = '''' then (None, d)
      else let f = (\<lambda>l. l\<lparr>l_redeemed := Some (clock d), l_hash := ae_hash env token\<rparr>);
               won = (changed (redeemable env launch_id code d) f (launches d) = 1);
               d' = d\<lparr>launches := update_where (redeemable env launch_id code d) f (launches d)\<rparr> in
           (if won then map_option (\<lambda>l. (l, token)) (find (\<lambda>l. l_id l = launch_id) (launches d')) else None,
            d'))"

definition authorize_files :: "access_env \<Rightarrow> string list \<Rightarrow> string \<Rightarrow> string \<Rightarrow> access \<Rightarrow> bool" where
  "authorize_files env tokens code version d =
     (let hashes = map (ae_hash env) (take MAX_CONCURRENT_CEILING (filter (\<lambda>t. t \<noteq> []) tokens)) in
      \<exists>l \<in> set (launches d). l_hash l \<in> set hashes \<and> l_code l = code \<and> l_version l = version
        \<and> l_redeemed l \<noteq> None \<and> live d l \<and> active_owner d l)"

definition live_launch_ids :: "string list \<Rightarrow> access \<Rightarrow> string set" where
  "live_launch_ids ids d = l_id ` set (filter (\<lambda>l. live d l
     \<and> l_id l \<in> set (take MAX_CONCURRENT_CEILING ids)) (launches d))"

text \<open>A launch of the user's own; an admin may end any.\<close>

definition revoke_launch :: "user_row \<Rightarrow> string \<Rightarrow> access \<Rightarrow> bool \<times> access" where
  "revoke_launch u launch_id d =
     (let p = (\<lambda>l. l_id l = launch_id \<and> live d l \<and> (w_role u = ''admin'' \<or> l_user l = w_id u));
          f = (\<lambda>l. l\<lparr>l_revoked := Some (clock d)\<rparr>) in
      (changed p f (launches d) = 1, d\<lparr>launches := update_where p f (launches d)\<rparr>))"

definition revoke_artifact_launches :: "string \<Rightarrow> access \<Rightarrow> access" where
  "revoke_artifact_launches code = revoke_launches_where (\<lambda>l. l_code l = code)"

definition list_launches :: "user_row \<Rightarrow> access \<Rightarrow> launch_row list" where
  "list_launches u d = sort_key (\<lambda>l. (- int (l_created l), l_id l)) (live_of (w_id u) d)"

section \<open>The system\<close>

text \<open>
  One committed transaction of any writer, or the passing of time. The views and workspaces
  are kept by other parts of the program, which only add to them here.
\<close>

inductive access_step :: "access_env \<Rightarrow> access \<Rightarrow> access \<Rightarrow> bool" for env where
  t_create_user: "create_user env salt n r p actor d = Inr (u, d') \<Longrightarrow> access_step env d d'"
| t_update_user: "update_user env salt i r a p actor d = Inr d' \<Longrightarrow> access_step env d d'"
| t_add_grant: "add_grant env got r k n ws av d = Inr (i, d') \<Longrightarrow> access_step env d d'"
| t_remove_grant: "remove_grant i d = Inr d' \<Longrightarrow> access_step env d d'"
| t_set_grants: "set_role_grants env got r ws av ts os actor d = Inr (n, d') \<Longrightarrow> access_step env d d'"
| t_create_role: "create_role c l actor d = Inr d' \<Longrightarrow> access_step env d d'"
| t_rename_role: "rename_role c l actor d = Inr d' \<Longrightarrow> access_step env d d'"
| t_delete_role: "delete_role c actor d = Inr d' \<Longrightarrow> access_step env d d'"
| t_sign_in: "sign_in env cfg si t n p d = Inr (x, d') \<Longrightarrow> access_step env d d'"
| t_revoke_session: "access_step env d (revoke_session si d)"
| t_create_launch: "create_launch env cfg raw li t c auth i q d = Inr (l, x, d') \<Longrightarrow> access_step env d d'"
| t_redeem: "redeem env t li c d = (x, d') \<Longrightarrow> access_step env d d'"
| t_revoke_launch: "revoke_launch u li d = (b, d') \<Longrightarrow> access_step env d d'"
| t_revoke_artifact: "access_step env d (revoke_artifact_launches c d)"
| t_clock: "access_step env d (d\<lparr>clock := clock d + s\<rparr>)"
| t_views: "access_step env d (d\<lparr>aviews := aviews d @ vs, workspaces := workspaces d @ ws\<rparr>)"

inductive_cases access_stepE: "access_step env d d'"

text \<open>The seeded roles and nobody.\<close>

definition fresh_access :: "nat \<Rightarrow> access" where
  "fresh_access t = \<lparr>clock = t, users = [], next_user = 1,
     roles = [(''admin'', ''Administrator''), (''user'', ''User'')], grants = [], next_grant = 1,
     sessions = [], launches = [], aviews = [], workspaces = []\<rparr>"

definition access_reachable :: "access_env \<Rightarrow> access \<Rightarrow> bool" where
  "access_reachable env d \<longleftrightarrow> (\<exists>t. rtranclp (access_step env) (fresh_access t) d)"

end
