(* ===== verification/Access_Laws.thy ===== *)
theory Access_Laws
  imports Access_Launches
begin

text \<open>
  The laws of the access tables: interfaces for an invariant that every transaction keeps and for
  a relation between a state and any later one, the effect of each operation, and the invariants
  themselves (users, roles, grants, sessions, launches, the cap).
\<close>

section \<open>Laws of every step\<close>

text \<open>An invariant of the access tables: it holds at first and every transaction keeps it.\<close>

locale access_invariant =
  fixes env :: access_env and I :: "access \<Rightarrow> bool"
  assumes fresh: "I (fresh_access t)"
    and step: "I d \<Longrightarrow> access_step env d d' \<Longrightarrow> I d'"
begin

lemma steps: "rtranclp (access_step env) d d' \<Longrightarrow> I d \<Longrightarrow> I d'"
  by (induction rule: rtranclp_induct) (auto intro: step)

lemma holds: "access_reachable env d \<Longrightarrow> I d"
  using steps fresh by (auto simp: access_reachable_def)

end

text \<open>A relation between a state and any later one: reflexive, transitive, kept by each step.\<close>

locale access_progress =
  fixes env :: access_env and R :: "access \<Rightarrow> access \<Rightarrow> bool"
  assumes refl: "R d d"
    and trans: "R d d' \<Longrightarrow> R d' d'' \<Longrightarrow> R d d''"
    and step: "access_step env d d' \<Longrightarrow> R d d'"
begin

lemma later: "rtranclp (access_step env) d d' \<Longrightarrow> R d d'"
  by (induction rule: rtranclp_induct) (auto intro: refl trans step)

end

section \<open>Reading the tables\<close>

lemma granted_iff:
  "has_operation role operation ws av d \<longleftrightarrow> (\<exists>g \<in> set (grants d). g_role g = role
     \<and> g_kind g = ''operation'' \<and> g_name g = operation \<and> scope_match ws av g)"
  by (auto simp: has_operation_def granted_def)

lemma find_user_update:
  assumes "\<And>u. w_id (f u) = w_id u" and "d' = d\<lparr>users := update_where p f (users d)\<rparr>"
  shows "find_user d' i = map_option (\<lambda>u. if p u then f u else u) (find_user d i)"
  using assms by (simp add: find_user_def find_update_where)

lemma find_user_append: "find_user d i = Some u \<Longrightarrow> find_user (d\<lparr>users := users d @ us, next_user := n\<rparr>) i = Some u"
  by (simp add: find_user_def find_append)

lemma find_user_cong: "users d' = users d \<Longrightarrow> find_user d' i = find_user d i"
  by (simp add: find_user_def)

text \<open>What each helper leaves as it was.\<close>

lemma revoke_frame [simp]:
  "users (revoke_sessions i d) = users d" "grants (revoke_sessions i d) = grants d"
  "launches (revoke_sessions i d) = launches d" "roles (revoke_sessions i d) = roles d"
  "clock (revoke_sessions i d) = clock d" "next_user (revoke_sessions i d) = next_user d"
  "next_grant (revoke_sessions i d) = next_grant d"
  "users (revoke_launches_where p d) = users d" "grants (revoke_launches_where p d) = grants d"
  "sessions (revoke_launches_where p d) = sessions d" "roles (revoke_launches_where p d) = roles d"
  "clock (revoke_launches_where p d) = clock d" "next_user (revoke_launches_where p d) = next_user d"
  "next_grant (revoke_launches_where p d) = next_grant d"
  "launches (revoke_launches_where p d) = update_where (\<lambda>l. p l \<and> l_revoked l = None)
     (\<lambda>l. l\<lparr>l_revoked := Some (clock d)\<rparr>) (launches d)"
  "sessions (revoke_sessions i d) = update_where (\<lambda>s. e_user s = i \<and> e_revoked s = None)
     (\<lambda>s. s\<lparr>e_revoked := Some (clock d)\<rparr>) (sessions d)"
  by (simp_all add: revoke_sessions_def revoke_launches_where_def)

definition grants_made :: "string \<Rightarrow> nat option \<Rightarrow> nat option \<Rightarrow> nat \<Rightarrow> (string \<times> string) list \<Rightarrow> grant_row list" where
  "grants_made role ws av n ks = map (\<lambda>(i, k). \<lparr>g_id = n + i, g_role = role, g_kind = fst k,
     g_name = snd k, g_workspace = ws, g_view = av\<rparr>) (zip [0..<length ks] ks)"

lemma grants_made_Cons:
  "grants_made role ws av n (k # ks) = \<lparr>g_id = n, g_role = role, g_kind = fst k, g_name = snd k,
     g_workspace = ws, g_view = av\<rparr> # grants_made role ws av (n + 1) ks"
proof -
  have "zip [0..<length (k # ks)] (k # ks) = (0, k) # map (\<lambda>(i, k). (Suc i, k)) (zip [0..<length ks] ks)"
    by (simp add: upt_conv_Cons map_Suc_upt [symmetric] zip_map1 del: upt_Suc)
  then show ?thesis by (simp add: grants_made_def case_prod_unfold del: upt_Suc)
qed

lemma add_grants_eq:
  "add_grants role ws av ks d = d\<lparr>grants := grants d @ grants_made role ws av (next_grant d) ks,
     next_grant := next_grant d + length ks\<rparr>"
  by (induction ks arbitrary: d)
    (auto simp: grants_made_Cons, simp_all add: grants_made_def)

lemma in_grants_made:
  "g \<in> set (grants_made role ws av n ks) \<Longrightarrow> g_role g = role \<and> g_workspace g = ws \<and> g_view g = av
     \<and> kn g \<in> set ks \<and> n \<le> g_id g \<and> g_id g < n + length ks"
  by (auto simp: grants_made_def kn_def in_set_zip) (metis nth_mem)

lemma grants_made_kn: "map kn (grants_made role ws av n ks) = ks"
  by (induction ks arbitrary: n) (auto simp: grants_made_Cons kn_def, simp add: grants_made_def)

section \<open>How launches evolve\<close>

text \<open>A launch keeps its pins; a revoked one stays revoked, a redeemed one stays redeemed.\<close>

definition later_launch :: "launch_row \<Rightarrow> launch_row \<Rightarrow> bool" where
  "later_launch l l' \<longleftrightarrow> l_id l' = l_id l \<and> l_user l' = l_user l \<and> l_code l' = l_code l
     \<and> l_version l' = l_version l \<and> l_workspace l' = l_workspace l \<and> l_view l' = l_view l
     \<and> l_created l' = l_created l \<and> l_expires l' = l_expires l \<and> l_xhash l' = l_xhash l
     \<and> (l_revoked l \<noteq> None \<longrightarrow> l_revoked l' \<noteq> None)
     \<and> (l_redeemed l \<noteq> None \<longrightarrow> l_redeemed l' = l_redeemed l \<and> l_hash l' = l_hash l)"

text \<open>The launches after a step: each one from before, later, and then at most one new one.\<close>

definition launches_evolve :: "access \<Rightarrow> access \<Rightarrow> bool" where
  "launches_evolve d d' \<longleftrightarrow> (\<exists>f new. launches d' = map f (launches d) @ new \<and> (\<forall>l. later_launch l (f l)))"

lemma later_refl [simp]: "later_launch l l"
  by (simp add: later_launch_def)

lemma later_trans: "later_launch a b \<Longrightarrow> later_launch b c \<Longrightarrow> later_launch a c"
  by (auto simp: later_launch_def)

lemma evolve_same: "launches d' = launches d \<Longrightarrow> launches_evolve d d'"
  unfolding launches_evolve_def by (intro exI [of _ "\<lambda>l. l"] exI [of _ "[]"]) simp

lemma evolve_update:
  assumes "launches d' = update_where p f (launches d @ new)" and "\<And>l. p l \<Longrightarrow> later_launch l (f l)"
  shows "launches_evolve d d'"
  unfolding launches_evolve_def
  by (intro exI [of _ "\<lambda>l. if p l then f l else l"] exI [of _ "update_where p f new"])
    (use assms in \<open>simp add: update_where_def\<close>)

lemma evolve_updated:
  "(\<And>l. p l \<Longrightarrow> later_launch l (f l))
     \<Longrightarrow> launches_evolve d (d\<lparr>launches := update_where p f (launches d @ new)\<rparr>)"
  by (rule evolve_update) simp

lemma evolve_update0:
  assumes "launches d' = update_where p f (launches d)" and "\<And>l. p l \<Longrightarrow> later_launch l (f l)"
  shows "launches_evolve d d'"
  using evolve_update [where new = "[]"] assms by simp

lemma evolve_trans: "launches_evolve d d' \<Longrightarrow> launches_evolve d' d'' \<Longrightarrow> launches_evolve d d''"
proof -
  assume "launches_evolve d d'" "launches_evolve d' d''"
  then obtain f g new new' where "launches d' = map f (launches d) @ new" "\<forall>l. later_launch l (f l)"
    "launches d'' = map g (launches d') @ new'" "\<forall>l. later_launch l (g l)"
    unfolding launches_evolve_def by blast
  then show ?thesis unfolding launches_evolve_def
    by (intro exI [of _ "g \<circ> f"] exI [of _ "map g new @ new'"]) (auto intro: later_trans)
qed

lemma revoke_later: "l_revoked l = None \<Longrightarrow> later_launch l (l\<lparr>l_revoked := x\<rparr>)"
  "later_launch l (l\<lparr>l_revoked := Some t\<rparr>)"
  by (simp_all add: later_launch_def)

lemma revoke_where_evolve: "launches d1 = launches d \<Longrightarrow> launches_evolve d (revoke_launches_where p d1)"
  by (rule evolve_update0) (simp, simp add: revoke_later)

section \<open>The effect of each operation\<close>

lemma create_user_effect:
  assumes "create_user env salt n r p actor d = Inr (u, d')"
  shows "d' = d\<lparr>users := users d @ [u], next_user := next_user d + 1\<rparr>" "w_id u = next_user d"
    "w_role u = r" "role_known d r" "check_actor d actor" "r = ''admin'' \<longrightarrow> admin_only actor"
    "w_name u = n" "w_name u \<notin> w_name ` set (users d)" "w_active u" "hash_of env salt p = Inr (w_hash u)"
  using assms by (auto simp: create_user_def Let_def split: sum.splits if_splits)

lemma update_user_effect:
  assumes "update_user env salt i r a p actor d = Inr d'"
  obtains hash u where "hash_of env salt p = Inr hash" "check_actor d actor" "find_user d i = Some u"
    "w_role u = ''admin'' \<or> r = Some ''admin'' \<Longrightarrow> admin_only actor"
    "\<And>c. r = Some c \<Longrightarrow> role_known d c"
    "users d' = update_where (\<lambda>u. w_id u = i) (edited_user r a hash) (users d)"
    "grants d' = grants d" "roles d' = roles d" "clock d' = clock d"
    "next_user d' = next_user d" "next_grant d' = next_grant d"
    "sessions d' = (if r \<noteq> None \<or> a = Some False \<or> hash \<noteq> None
       then update_where (\<lambda>s. e_user s = i \<and> e_revoked s = None) (\<lambda>s. s\<lparr>e_revoked := Some (clock d)\<rparr>) (sessions d)
       else sessions d)"
    "launches d' = (if r \<noteq> None \<or> a = Some False
       then update_where (\<lambda>l. l_user l = i \<and> l_revoked l = None) (\<lambda>l. l\<lparr>l_revoked := Some (clock d)\<rparr>) (launches d)
       else launches d)"
proof -
  from assms obtain hash where h: "hash_of env salt p = Inr hash"
    by (auto simp: update_user_def split: sum.splits)
  from assms h obtain u where u: "find_user d i = Some u" and c: "check_actor d actor"
    by (auto simp: update_user_def split: if_splits option.splits)
  from assms h u c have g: "\<not> ((w_role u = ''admin'' \<or> r = Some ''admin'') \<and> \<not> admin_only actor)"
    and k: "\<not> (\<exists>c. r = Some c \<and> \<not> role_known d c)"
    by (auto simp: update_user_def split: if_splits)
  from assms have "(let d1 = d\<lparr>users := update_where (\<lambda>u. w_id u = i) (edited_user r a hash) (users d)\<rparr>;
      d2 = (if r \<noteq> None \<or> a = Some False \<or> hash \<noteq> None then revoke_sessions i d1 else d1)
      in if r \<noteq> None \<or> a = Some False then revoke_launches i d2 else d2) = d'"
    unfolding update_user_def h u c option.case sum.case
    by (simp only: c g k if_False not_True_eq_False simp_thms sum.inject Let_def)
  then show ?thesis using h u c g k
    by (intro that [of hash u]) (auto simp: revoke_launches_def Let_def)
qed

lemma set_role_grants_effect:
  assumes "set_role_grants env got r ws av ts os actor d = Inr (n, d')"
  obtains add gone inh where "check_actor d actor" "role_known d r"
    "inherited_grants r av d = Inr inh"
    "add = filter (\<lambda>k. k \<notin> kn ` set (filter (at_scope r ws av) (grants d)) \<and> k \<notin> inh)
       (sort (remdups (map (Pair ''tool'') ts @ map (Pair ''operation'') os)))"
    "set gone \<subseteq> set (filter (at_scope r ws av) (grants d))"
    "ws = None \<or> av = None"
    "ws = None \<Longrightarrow> av = None \<Longrightarrow> admin_only actor
       \<or> snd ` set add \<union> g_name ` set gone \<subseteq> held env (snd (the actor)) d"
    "gone = filter (\<lambda>g. kn g \<notin> set (map (Pair ''tool'') ts @ map (Pair ''operation'') os) \<and> kn g \<notin> inh
       \<and> kn g \<in> Pair ''operation'' ` set (if ws = None \<and> av = None then acl_resources (ae_acl env)
            else map fst (acl_operations (ae_acl env)))
         \<union> (if ws = None \<and> av = None then {} else Pair ''tool'' ` set (ae_enabled env)))
       (filter (at_scope r ws av) (grants d))"
    "d' = add_grants r ws av add (if gone = [] then d else revoke_role_launches r ws av
       (d\<lparr>grants := filter (\<lambda>g. g_id g \<notin> g_id ` set gone) (grants d)\<rparr>))"
proof -
  let ?glob = "ws = None \<and> av = None"
  let ?known = "if ?glob then acl_resources (ae_acl env) else map fst (acl_operations (ae_acl env))"
  let ?want = "sort (remdups (map (Pair ''tool'') ts @ map (Pair ''operation'') os))"
  let ?current = "filter (at_scope r ws av) (grants d)"
  have want: "set ?want = set (map (Pair ''tool'') ts @ map (Pair ''operation'') os)" by simp
  from assms obtain inh where inh: "inherited_grants r av d = Inr inh"
    and pre: "check_actor d actor" "role_known d r" "\<not> (\<not> ?glob \<and> (ws = None) = (av = None))"
    by (auto simp: set_role_grants_def Let_def split: if_splits sum.splits)
  define gone where "gone = filter (\<lambda>g. kn g \<in> Pair ''operation'' ` set ?known
    \<union> (if ?glob then {} else Pair ''tool'' ` set (ae_enabled env)) \<and> kn g \<notin> set ?want \<and> kn g \<notin> inh) ?current"
  define add where "add = filter (\<lambda>k. k \<notin> kn ` set ?current \<and> k \<notin> inh) ?want"
  have rest: "\<not> (?glob \<and> \<not> admin_only actor \<and> \<not> snd ` set add \<union> g_name ` set gone \<subseteq> held env (snd (the actor)) d)
    \<and> d' = add_grants r ws av add (if gone = [] then d else revoke_role_launches r ws av
       (d\<lparr>grants := filter (\<lambda>g. g_id g \<notin> g_id ` set gone) (grants d)\<rparr>))"
    using assms unfolding set_role_grants_def Let_def inh sum.case gone_def [symmetric] add_def [symmetric]
    by (simp only: sum.inject prod.inject simp_thms sum.distinct split: if_splits)
  have "ws = None \<or> av = None" using pre(3) by auto
  moreover have "set gone \<subseteq> set ?current" by (auto simp: gone_def)
  moreover have "gone = filter (\<lambda>g. kn g \<notin> set (map (Pair ''tool'') ts @ map (Pair ''operation'') os)
      \<and> kn g \<notin> inh \<and> kn g \<in> Pair ''operation'' ` set ?known
        \<union> (if ?glob then {} else Pair ''tool'' ` set (ae_enabled env))) ?current"
    unfolding gone_def want by (rule filter_cong [OF HOL.refl]) (simp only: conj_ac)
  moreover have "ws = None \<Longrightarrow> av = None \<Longrightarrow> admin_only actor
      \<or> snd ` set add \<union> g_name ` set gone \<subseteq> held env (snd (the actor)) d"
    using rest by argo
  ultimately show ?thesis
    using that [OF pre(1,2) inh add_def] rest by blast
qed

lemma set_role_grants_tables:
  assumes "set_role_grants env got r ws av ts os actor d = Inr (n, d')"
  obtains add and gone :: "grant_row list"
    where "d' = add_grants r ws av add (if gone = [] then d else revoke_role_launches r ws av
       (d\<lparr>grants := filter (\<lambda>g. g_id g \<notin> g_id ` set gone) (grants d)\<rparr>))"
  by (rule set_role_grants_effect [OF assms]) (rule that, assumption)

lemma add_grant_effect:
  assumes "add_grant env got r k n ws av d = Inr (i, d')"
  shows "d' = d \<or> (role_known d r \<and> check_grant env k n ws av = None \<and> find (same_grant r k n ws av) (grants d) = None
     \<and> d' = d\<lparr>grants := grants d @ [\<lparr>g_id = next_grant d, g_role = r, g_kind = k, g_name = n,
         g_workspace = ws, g_view = av\<rparr>], next_grant := next_grant d + 1\<rparr>)"
  using assms by (auto simp: add_grant_def split: option.splits if_splits)

lemma remove_grant_effect:
  assumes "remove_grant i d = Inr d'"
  obtains g where "find (\<lambda>g. g_id g = i) (grants d) = Some g"
    "d' = revoke_role_launches (g_role g) (g_workspace g) (g_view g)
       (d\<lparr>grants := filter (\<lambda>g. g_id g \<noteq> i) (grants d)\<rparr>)"
  using assms by (auto simp: remove_grant_def split: option.splits)

lemma delete_role_effect:
  assumes "delete_role c actor d = Inr d'"
  shows "d' = d\<lparr>roles := filter (\<lambda>r. fst r \<noteq> c) (roles d), grants := filter (\<lambda>g. g_role g \<noteq> c) (grants d)\<rparr>"
    "c \<notin> set BUILTIN_ROLES" "\<And>u. u \<in> set (users d) \<Longrightarrow> w_role u \<noteq> c"
  using assms by (auto simp: delete_role_def Let_def filter_empty_conv split: if_splits)

lemma sign_in_effect:
  assumes "sign_in env cfg si t n p d = Inr (x, d')"
  shows "(x = None \<and> d' = d) \<or> (\<exists>s u ttl. x = Some (s, t) \<and> authenticate_in env n p d = Some u
     \<and> s = \<lparr>e_id = si, e_hash = ae_hash env t, e_user = w_id u, e_expires = clock d + ttl, e_revoked = None\<rparr>
     \<and> e_id s \<notin> e_id ` set (sessions d) \<and> e_hash s \<notin> e_hash ` set (sessions d)
     \<and> d' = d\<lparr>sessions := sessions d @ [s]\<rparr>)"
  using assms by (auto simp: sign_in_def insert_session_def Let_def split: option.splits sum.splits if_splits)

lemma create_launch_effect:
  assumes "create_launch env cfg raw li t c auth i q d = Inr (l, x, d')"
  obtains ttl cap u where "max_concurrent raw = Some cap" "find_user d i = Some u"
    "may_launch d u (q_workspace q) (q_view q)" "auth u"
    "l = new_launch env li t c i q ttl d" "x = c"
    "li \<notin> l_id ` set (launches d)" "l_hash l \<notin> l_hash ` set (launches d)" "l_xhash l \<notin> l_xhash ` set (launches d)"
    "d' = d\<lparr>launches := update_where (\<lambda>k. l_id k \<in> set (evict_ids li i cap (d\<lparr>launches := launches d @ [l]\<rparr>)))
         (\<lambda>k. k\<lparr>l_revoked := Some (clock d)\<rparr>) (launches d @ [l])\<rparr>"
proof -
  from assms obtain ttl where t: "ttl_of cfg (Some (q_workspace q)) ''launch_max_ttl'' = Some ttl"
    by (auto simp: create_launch_def split: option.splits)
  from assms t obtain cap where m: "max_concurrent raw = Some cap"
    by (auto simp: create_launch_def split: option.splits)
  from assms t m obtain u where u: "find_user d i = Some u"
    by (auto simp: create_launch_def split: option.splits)
  show ?thesis
    by (rule that [OF m u]) (use assms t m u in \<open>auto simp: create_launch_def Let_def split: if_splits\<close>)
qed

lemma redeem_effect:
  assumes "redeem env t li c d = (x, d')"
  shows "d' = d\<lparr>launches := update_where (\<lambda>l. c \<noteq> [] \<and> redeemable env li c d l)
     (\<lambda>l. l\<lparr>l_redeemed := Some (clock d), l_hash := ae_hash env t\<rparr>) (launches d)\<rparr>"
  using assms by (auto simp: redeem_def Let_def update_where_none split: if_splits)

lemma role_effects:
  "create_role c l actor d = Inr d' \<Longrightarrow> \<exists>m. check_label l = Some m \<and> role_code_ok c
     \<and> c \<notin> fst ` set (roles d) \<and> m \<notin> snd ` set (roles d) \<and> d' = d\<lparr>roles := roles d @ [(c, m)]\<rparr>"
  "rename_role c l actor d = Inr d' \<Longrightarrow> \<exists>m. check_label l = Some m \<and> role_known d c
     \<and> (\<forall>r \<in> set (roles d). fst r \<noteq> c \<longrightarrow> snd r \<noteq> m)
     \<and> d' = d\<lparr>roles := map (\<lambda>r. if fst r = c then (c, m) else r) (roles d)\<rparr>"
  by (auto simp: create_role_def rename_role_def split: option.splits if_splits)

lemma step_evolves: "access_step env d d' \<Longrightarrow> launches_evolve d d'"
proof (induction rule: access_step.induct)
  case (t_create_user salt n r p actor d u d')
  show ?case by (rule evolve_same) (simp add: create_user_effect(1) [OF t_create_user])
next
  case (t_update_user salt i r a p actor d d')
  show ?case
    by (rule update_user_effect [OF t_update_user], cases "r \<noteq> None \<or> a = Some False")
      (simp_all only: if_True if_False evolve_same, rule evolve_update0, assumption, simp add: revoke_later)
next
  case (t_add_grant got r k n ws av d i d')
  then show ?case by (auto dest!: add_grant_effect intro: evolve_same)
next
  case (t_remove_grant i d d')
  show ?case by (rule remove_grant_effect [OF t_remove_grant]) (simp add: revoke_role_launches_def revoke_where_evolve)
next
  case (t_set_grants got r ws av ts os actor d n d')
  obtain add and gone :: "grant_row list" where "d' = add_grants r ws av add (if gone = [] then d else revoke_role_launches r ws av
      (d\<lparr>grants := filter (\<lambda>g. g_id g \<notin> g_id ` set gone) (grants d)\<rparr>))"
    by (rule set_role_grants_tables [OF t_set_grants]) (rule that, assumption)
  moreover have "launches_evolve d (revoke_role_launches r ws av
      (d\<lparr>grants := filter (\<lambda>g. g_id g \<notin> g_id ` set gone) (grants d)\<rparr>))"
    unfolding revoke_role_launches_def by (rule revoke_where_evolve) simp
  ultimately show ?case
    by (cases "gone = []") (simp_all add: add_grants_eq evolve_same evolve_trans [OF _ evolve_same])
next
  case (t_create_role c l actor d d')
  then show ?case by (auto dest!: role_effects intro: evolve_same)
next
  case (t_rename_role c l actor d d')
  then show ?case by (auto dest!: role_effects intro: evolve_same)
next
  case (t_delete_role c actor d d')
  show ?case by (rule evolve_same) (simp add: delete_role_effect [OF t_delete_role])
next
  case (t_sign_in cfg si t n p d x d')
  then show ?case by (auto dest!: sign_in_effect intro: evolve_same)
next
  case (t_create_launch cfg raw li t c auth i q d l x d')
  show ?case
    by (rule create_launch_effect [OF t_create_launch]) (simp add: evolve_updated revoke_later)
next
  case (t_redeem t li c d x d')
  show ?case unfolding redeem_effect [OF t_redeem]
    by (rule evolve_update0, simp) (simp add: redeemable_def later_launch_def)
next
  case (t_revoke_launch u li d b d')
  then have d': "launches d' = update_where (\<lambda>l. l_id l = li \<and> live d l \<and> (w_role u = ''admin'' \<or> l_user l = w_id u))
      (\<lambda>l. l\<lparr>l_revoked := Some (clock d)\<rparr>) (launches d)"
    by (auto simp: revoke_launch_def Let_def)
  show ?case by (rule evolve_update0 [OF d']) (simp add: revoke_later)
next
  case (t_revoke_artifact d c)
  show ?case unfolding revoke_artifact_launches_def by (rule revoke_where_evolve) simp
qed (auto intro: evolve_same simp: revoke_session_def)

text \<open>What a launch pins, and that it was revoked or redeemed, stays for ever.\<close>

interpretation launch_progress: access_progress env launches_evolve
  by unfold_locales (auto intro: evolve_same evolve_trans step_evolves)

section \<open>Every live session and launch is authorized now\<close>

definition authorized :: "access \<Rightarrow> launch_row \<Rightarrow> bool" where
  "authorized d l \<longleftrightarrow>
     (\<exists>u. find_user d (l_user l) = Some u \<and> may_launch d u (l_workspace l) (l_view l))"

definition launches_ok :: "access \<Rightarrow> bool" where
  "launches_ok d \<longleftrightarrow> (\<forall>l \<in> set (launches d). l_revoked l = None \<longrightarrow> authorized d l)"

definition sessions_ok :: "access \<Rightarrow> bool" where
  "sessions_ok d \<longleftrightarrow> (\<forall>s \<in> set (sessions d). e_revoked s = None
     \<longrightarrow> (\<exists>u. find_user d (e_user s) = Some u \<and> w_active u))"

lemma authorized_mono:
  assumes "authorized d l" and "l_user l' = l_user l" "l_workspace l' = l_workspace l" "l_view l' = l_view l"
    and "\<And>u. find_user d (l_user l) = Some u \<Longrightarrow>
           \<exists>v. find_user d' (l_user l) = Some v \<and> w_role v = w_role u \<and> (w_active u \<longrightarrow> w_active v)"
    and "\<And>u g. find_user d (l_user l) = Some u \<Longrightarrow> g \<in> set (grants d) \<Longrightarrow> g_role g = w_role u
           \<Longrightarrow> scope_match (Some (l_workspace l)) (l_view l) g \<Longrightarrow> g \<in> set (grants d')"
  shows "authorized d' l'"
proof -
  from assms(1) obtain u where u: "find_user d (l_user l) = Some u"
    and m: "may_launch d u (l_workspace l) (l_view l)" by (auto simp: authorized_def)
  from assms(5) [OF u] obtain v where v: "find_user d' (l_user l) = Some v" "w_role v = w_role u"
    "w_active u \<longrightarrow> w_active v" by blast
  have "may_launch d' v (l_workspace l) (l_view l)"
    using m v(2,3) assms(6) [OF u] unfolding may_launch_def granted_iff by auto
  with v(1) assms(2-4) show ?thesis by (simp add: authorized_def)
qed

lemma authorized_same:
  "authorized d l \<Longrightarrow> users d' = users d \<Longrightarrow> set (grants d) \<subseteq> set (grants d')
     \<Longrightarrow> l_user l' = l_user l \<Longrightarrow> l_workspace l' = l_workspace l \<Longrightarrow> l_view l' = l_view l \<Longrightarrow> authorized d' l'"
  by (rule authorized_mono [of d l l' d']) (auto simp: find_user_cong [of d' d])

text \<open>The launches that a revocation leaves were not in its scope.\<close>

lemma left_unrevoked:
  assumes "l' \<in> set (update_where (\<lambda>l. p l \<and> l_revoked l = None) (\<lambda>l. l\<lparr>l_revoked := Some t\<rparr>) ls)"
    and "l_revoked l' = None"
  shows "l' \<in> set ls \<and> \<not> p l'"
proof -
  obtain q where q: "q \<in> set ls"
    "l' = (if p q \<and> l_revoked q = None then q\<lparr>l_revoked := Some t\<rparr> else q)"
    using assms(1) by (auto simp: in_update_where)
  with assms(2) show ?thesis by (cases "p q \<and> l_revoked q = None") auto
qed

text \<open>
  A grant that goes with the role's launches of its scope: the launches that are left do not
  rest on it.
\<close>

lemma revoked_role_authorized:
  assumes d': "d' = revoke_role_launches r ws av (d\<lparr>grants := gs\<rparr>)"
    and gs: "\<And>g. g \<in> set (grants d) \<Longrightarrow> g \<in> set gs \<or> g_role g = r \<and> g_workspace g = ws \<and> g_view g = av"
    and ok: "launches_ok d"
  shows "launches_ok d'"
  unfolding launches_ok_def
proof (intro ballI impI)
  fix l assume "l \<in> set (launches d')" "l_revoked l = None"
  then have l: "l \<in> set (launches d)"
    "\<not> (user_has_role d r (l_user l) \<and> launch_in_scope ws av l)"
    using left_unrevoked [where p = "\<lambda>l. user_has_role (d\<lparr>grants := gs\<rparr>) r (l_user l) \<and> launch_in_scope ws av l"]
    by (auto simp: d' revoke_role_launches_def user_has_role_def)
  with ok \<open>l_revoked l = None\<close> have a: "authorized d l" by (simp add: launches_ok_def)
  show "authorized d' l"
  proof (rule authorized_mono [OF a])
    fix u g assume u: "find_user d (l_user l) = Some u" and g: "g \<in> set (grants d)" "g_role g = w_role u"
      "scope_match (Some (l_workspace l)) (l_view l) g"
    have "\<not> (g_role g = r \<and> g_workspace g = ws \<and> g_view g = av)"
      using l(2) u g(2,3) find_SomeD [of _ "users d"]
      by (auto simp: user_has_role_def launch_in_scope_def scope_match_def find_user_def split: option.splits)
    with gs [OF g(1)] show "g \<in> set (grants d')"
      by (auto simp: d' revoke_role_launches_def)
  qed (auto simp: d' revoke_role_launches_def find_user_def)
qed

lemma edited_authorized:
  assumes ok: "launches_ok d" and u: "update_user env salt i r a p actor d = Inr d'"
  shows "launches_ok d'"
  unfolding launches_ok_def
proof (intro ballI impI)
  fix l assume l: "l \<in> set (launches d')" "l_revoked l = None"
  obtain hash where users: "users d' = update_where (\<lambda>u. w_id u = i) (edited_user r a hash) (users d)"
    and gs: "grants d' = grants d"
    and ls: "launches d' = (if r \<noteq> None \<or> a = Some False
       then update_where (\<lambda>l. l_user l = i \<and> l_revoked l = None) (\<lambda>l. l\<lparr>l_revoked := Some (clock d)\<rparr>) (launches d)
       else launches d)"
    by (rule update_user_effect [OF u]) (rule that, assumption+)
  have old: "l \<in> set (launches d) \<and> (l_user l = i \<longrightarrow> r = None \<and> a \<noteq> Some False)"
    using l left_unrevoked [where p = "\<lambda>l. l_user l = i"] by (auto simp: ls split: if_splits)
  with ok l have a: "authorized d l" by (simp add: launches_ok_def)
  have f: "find_user d' j = map_option (\<lambda>u. if w_id u = i then edited_user r a hash u else u) (find_user d j)" for j
    unfolding find_user_def users by (rule find_update_where) (simp add: edited_user_def)
  show "authorized d' l"
  proof (rule authorized_mono [OF a])
    fix u assume u: "find_user d (l_user l) = Some u"
    then have "w_id u = l_user l" using find_SomeD [of _ "users d"] by (auto simp: find_user_def)
    with u old show "\<exists>v. find_user d' (l_user l) = Some v \<and> w_role v = w_role u \<and> (w_active u \<longrightarrow> w_active v)"
      by (auto simp: f edited_user_def split: option.splits)
  qed (simp_all add: gs)
qed

text \<open>A step that changes neither users nor grants to their loss keeps what is authorized.\<close>

lemma launches_ok_same:
  assumes "launches_ok d" and "users d' = users d" "set (grants d) \<subseteq> set (grants d')"
    and "\<And>l'. l' \<in> set (launches d') \<Longrightarrow> l_revoked l' = None \<Longrightarrow> authorized d' l'
      \<or> (\<exists>l \<in> set (launches d). l_revoked l = None \<and> later_launch l l')"
  shows "launches_ok d'"
  unfolding launches_ok_def
proof (intro ballI impI)
  fix l' assume "l' \<in> set (launches d')" "l_revoked l' = None"
  then consider "authorized d' l'" | l where "l \<in> set (launches d)" "l_revoked l = None" "later_launch l l'"
    using assms(4) by blast
  then show "authorized d' l'"
  proof cases
    case 2
    with assms(1) have "authorized d l" by (simp add: launches_ok_def)
    then show ?thesis using assms(2,3) 2(3) by (auto intro: authorized_same simp: later_launch_def)
  qed
qed

section \<open>Users, roles and grants stay well formed\<close>

text \<open>Every step is one of the account operations or leaves users, roles and grants alone.\<close>

lemma access_step_cases:
  assumes "access_step env d d'"
  obtains (same) "users d' = users d" "next_user d' = next_user d" "roles d' = roles d"
      "grants d' = grants d" "next_grant d' = next_grant d"
    | (create) salt n r p actor u where "create_user env salt n r p actor d = Inr (u, d')"
    | (update) salt i r a p actor where "update_user env salt i r a p actor d = Inr d'"
    | (grant) got r k n ws av i where "add_grant env got r k n ws av d = Inr (i, d')"
    | (ungrant) i where "remove_grant i d = Inr d'"
    | (set) got r ws av ts os actor n where "set_role_grants env got r ws av ts os actor d = Inr (n, d')"
    | (role) c l actor where "create_role c l actor d = Inr d'"
    | (rename) c l actor where "rename_role c l actor d = Inr d'"
    | (unrole) c actor where "delete_role c actor d = Inr d'"
  using assms
proof (cases rule: access_step.cases)
  case (t_sign_in cfg si t n p x)
  show ?thesis by (rule same) (use sign_in_effect [OF t_sign_in] in auto)
next
  case (t_create_launch cfg raw li t c auth i q l x)
  show ?thesis by (rule create_launch_effect [OF t_create_launch], rule same) auto
next
  case (t_redeem t li c x)
  show ?thesis by (rule same) (simp_all add: redeem_effect [OF t_redeem])
next
  case (t_revoke_launch u li b)
  show ?thesis by (rule same) (use t_revoke_launch in \<open>auto simp: revoke_launch_def Let_def\<close>)
next
  case (t_revoke_artifact c)
  show ?thesis by (rule same) (simp_all add: t_revoke_artifact revoke_artifact_launches_def)
next
  case (t_revoke_session si)
  show ?thesis by (rule same) (simp_all add: t_revoke_session revoke_session_def)
next
  case (t_clock s)
  show ?thesis by (rule same) (simp_all add: t_clock)
next
  case (t_views vs ws)
  show ?thesis by (rule same) (simp_all add: t_views)
qed (auto intro: create update grant ungrant set role rename unrole)

definition roles_ok :: "access \<Rightarrow> bool" where
  "roles_ok d \<longleftrightarrow> distinct (map fst (roles d)) \<and> distinct (map snd (roles d))
     \<and> set BUILTIN_ROLES \<subseteq> fst ` set (roles d)"

definition users_ok :: "access \<Rightarrow> bool" where
  "users_ok d \<longleftrightarrow> distinct (map w_id (users d)) \<and> (\<forall>u \<in> set (users d). w_id u < next_user d)
     \<and> distinct (map w_name (users d)) \<and> w_role ` set (users d) \<subseteq> fst ` set (roles d)"

definition scoped_at :: "access_env \<Rightarrow> nat option \<Rightarrow> nat option \<Rightarrow> string \<times> string \<Rightarrow> bool" where
  "scoped_at env ws av k \<longleftrightarrow>
     (if ws = None \<and> av = None
      then fst k = ''operation'' \<and> snd k \<in> set (acl_resources (ae_acl env))
      else (ws = None) \<noteq> (av = None)
        \<and> (fst k = ''operation'' \<and> snd k \<in> fst ` set (acl_operations (ae_acl env))
           \<or> fst k = ''tool'' \<and> snd k \<in> set (ae_declared env)))"

definition grant_scoped :: "access_env \<Rightarrow> grant_row \<Rightarrow> bool" where
  "grant_scoped env g \<longleftrightarrow> scoped_at env (g_workspace g) (g_view g) (kn g)"

definition grant_key :: "grant_row \<Rightarrow> string \<times> (string \<times> string) \<times> nat option \<times> nat option" where
  "grant_key g = (g_role g, kn g, g_workspace g, g_view g)"

definition grants_ok :: "access_env \<Rightarrow> access \<Rightarrow> bool" where
  "grants_ok env d \<longleftrightarrow> distinct (map g_id (grants d)) \<and> (\<forall>g \<in> set (grants d). g_id g < next_grant d)
     \<and> distinct (map grant_key (grants d)) \<and> g_role ` set (grants d) \<subseteq> fst ` set (roles d)
     \<and> (\<forall>g \<in> set (grants d). grant_scoped env g)"

lemma update_user_frame:
  assumes "update_user env salt i r a p actor d = Inr d'"
  shows "roles d' = roles d" "grants d' = grants d" "next_grant d' = next_grant d"
    "next_user d' = next_user d" "clock d' = clock d"
  by (rule update_user_effect [OF assms], assumption)+

lemma set_role_grants_frame:
  assumes "set_role_grants env got r ws av ts os actor d = Inr (n, d')"
  shows "users d' = users d" "roles d' = roles d" "next_user d' = next_user d"
    "sessions d' = sessions d" "clock d' = clock d"
  by (rule set_role_grants_tables [OF assms], simp add: add_grants_eq revoke_role_launches_def)+

lemma edited_frame [simp]: "w_id (edited_user r a h u) = w_id u" "w_name (edited_user r a h u) = w_name u"
  by (simp_all add: edited_user_def)

lemma codes_renamed: "map fst (map (\<lambda>r. if fst r = c then (c, m) else r) rs) = map fst rs"
  by auto

lemma labels_renamed:
  assumes "distinct (map fst rs)" "distinct (map snd rs)" "\<forall>r \<in> set rs. fst r \<noteq> c \<longrightarrow> snd r \<noteq> m"
  shows "distinct (map snd (map (\<lambda>r. if fst r = c then (c, m) else r) rs))"
  using assms by (induction rs) (auto simp: image_iff split: if_splits)

interpretation role_table: access_invariant env roles_ok
proof
  fix d d' assume "roles_ok d" and s: "access_step env d d'"
  from s show "roles_ok d'"
  proof (cases rule: access_step_cases)
    case (update salt i r a p actor)
    with \<open>roles_ok d\<close> show ?thesis by (simp add: roles_ok_def update_user_frame)
  next
    case (set got r ws av ts os actor n)
    with \<open>roles_ok d\<close> show ?thesis by (simp add: roles_ok_def set_role_grants_frame)
  next
    case (rename c l actor)
    then obtain m where m: "\<forall>r \<in> set (roles d). fst r \<noteq> c \<longrightarrow> snd r \<noteq> m"
      and d': "roles d' = map (\<lambda>r. if fst r = c then (c, m) else r) (roles d)"
      by (auto dest!: role_effects(2))
    have "map fst (roles d') = map fst (roles d)" unfolding d' by (rule codes_renamed)
    moreover have "distinct (map snd (roles d'))"
      unfolding d' by (rule labels_renamed) (use \<open>roles_ok d\<close> m in \<open>simp_all add: roles_ok_def\<close>)
    ultimately show ?thesis using \<open>roles_ok d\<close> unfolding roles_ok_def by (metis list.set_map)
  next
    case (unrole c actor)
    note d' = delete_role_effect(1,2) [OF unrole]
    from \<open>roles_ok d\<close> d'(2) show ?thesis
      unfolding d'(1) by (auto simp: roles_ok_def BUILTIN_ROLES_def distinct_map_filter)
  qed (use \<open>roles_ok d\<close> in \<open>auto simp: roles_ok_def BUILTIN_ROLES_def revoke_role_launches_def
      dest!: create_user_effect(1) add_grant_effect role_effects(1) elim!: remove_grant_effect\<close>)
qed (simp add: roles_ok_def fresh_access_def BUILTIN_ROLES_def)

lemma renamed_codes:
  assumes "rename_role c l actor d = Inr d'"
  shows "fst ` set (roles d') = fst ` set (roles d)" "users d' = users d" "next_user d' = next_user d"
    "grants d' = grants d" "next_grant d' = next_grant d"
proof -
  from role_effects(2) [OF assms] obtain m
    where d': "d' = d\<lparr>roles := map (\<lambda>r. if fst r = c then (c, m) else r) (roles d)\<rparr>" by blast
  have "map fst (roles d') = map fst (roles d)" using codes_renamed [of c m "roles d"] by (simp add: d')
  then show "fst ` set (roles d') = fst ` set (roles d)" by (metis list.set_map)
qed (use role_effects(2) [OF assms] in auto)

interpretation user_table: access_invariant env users_ok
proof
  fix d d' assume ok: "users_ok d" and s: "access_step env d d'"
  from s show "users_ok d'"
  proof (cases rule: access_step_cases)
    case (create salt n r p actor u)
    note e = create_user_effect [OF create]
    have "distinct (map w_id (users d @ [u])) \<and> (\<forall>v \<in> set (users d @ [u]). w_id v < next_user d + 1)"
      by (rule fresh_append) (use ok e(2) in \<open>simp_all add: users_ok_def\<close>)
    with ok e show ?thesis by (auto simp: users_ok_def role_known_def)
  next
    case (update salt i r a p actor)
    obtain h where u: "users d' = update_where (\<lambda>u. w_id u = i) (edited_user r a h) (users d)"
      and k: "\<And>c. r = Some c \<Longrightarrow> role_known d c"
      by (rule update_user_effect [OF update]) (rule that, assumption+)
    have "map w_id (users d') = map w_id (users d)" "map w_name (users d') = map w_name (users d)"
      unfolding u by (rule map_update_where, simp)+
    moreover have "\<forall>v \<in> set (users d'). w_id v < next_user d \<and> w_role v \<in> fst ` set (roles d)"
    proof
      fix v assume "v \<in> set (users d')"
      then obtain q where q: "q \<in> set (users d)" "v = (if w_id q = i then edited_user r a h q else q)"
        unfolding u in_update_where by blast
      with ok have "w_id q < next_user d" "w_role q \<in> fst ` set (roles d)" by (auto simp: users_ok_def)
      with q(2) k show "w_id v < next_user d \<and> w_role v \<in> fst ` set (roles d)"
        by (auto simp: edited_user_def role_known_def split: option.splits)
    qed
    ultimately show ?thesis
      using ok by (auto simp: users_ok_def update_user_frame [OF update])
  next
    case (set got r ws av ts os actor n)
    with ok show ?thesis by (simp add: users_ok_def set_role_grants_frame)
  next
    case (rename c l actor)
    with ok show ?thesis by (simp add: users_ok_def renamed_codes)
  next
    case (unrole c actor)
    note d' = delete_role_effect(1) [OF unrole]
    have "w_role u \<in> fst ` set (filter (\<lambda>r. fst r \<noteq> c) (roles d))" if u: "u \<in> set (users d)" for u
    proof -
      from ok u obtain x where "x \<in> set (roles d)" "w_role u = fst x" by (auto simp: users_ok_def)
      with delete_role_effect(3) [OF unrole u] show ?thesis by (intro image_eqI [of _ _ x]) auto
    qed
    with ok show ?thesis unfolding d' users_ok_def by (simp add: image_subset_iff)
  qed (use ok in \<open>auto simp: users_ok_def revoke_role_launches_def image_subset_iff
      dest!: add_grant_effect role_effects(1) elim!: remove_grant_effect\<close>)
qed (simp add: users_ok_def fresh_access_def)

lemma grants_made_ids: "map g_id (grants_made role ws av n ks) = [n..<n + length ks]"
proof (induction ks arbitrary: n)
  case (Cons k ks)
  have "[n..<n + length (k # ks)] = n # [n + 1..<n + 1 + length ks]"
    by (subst upt_conv_Cons) simp_all
  with Cons.IH [of "n + 1"] show ?case by (simp add: grants_made_Cons del: upt_Suc)
qed (simp add: grants_made_def)

lemma distinct_key_of_kn: "distinct (map kn gs) \<Longrightarrow> distinct (map grant_key gs)"
  by (induction gs) (auto simp: grant_key_def)

text \<open>Grants that are dropped and then new ones under fresh ids and keys.\<close>

lemma grants_ok_subset:
  assumes "grants_ok env d" and "grants d' = filter p (grants d)" "next_grant d' = next_grant d" "roles d' = roles d"
  shows "grants_ok env d'"
  using assms by (auto simp: grants_ok_def distinct_map_filter)

lemma grants_ok_append:
  assumes ok: "grants_ok env d" and "grants d' = grants d @ grants_made r ws av (next_grant d) ks"
    "next_grant d' = next_grant d + length ks" "roles d' = roles d"
    and r: "r \<in> fst ` set (roles d)" and ks: "distinct ks"
    and new: "\<And>g k. g \<in> set (grants d) \<Longrightarrow> at_scope r ws av g \<Longrightarrow> kn g \<notin> set ks"
    and scoped: "\<And>k. k \<in> set ks \<Longrightarrow> scoped_at env ws av k"
  shows "grants_ok env d'"
proof -
  let ?new = "grants_made r ws av (next_grant d) ks"
  have n: "g_role g = r \<and> g_workspace g = ws \<and> g_view g = av \<and> kn g \<in> set ks
      \<and> next_grant d \<le> g_id g \<and> g_id g < next_grant d + length ks" if "g \<in> set ?new" for g
    using in_grants_made [OF that] by simp
  have "distinct (map g_id (grants d @ ?new))"
    using ok by (auto simp: grants_made_ids grants_ok_def dest: n)
  moreover have "distinct (map grant_key (grants d @ ?new))"
  proof -
    have "distinct (map grant_key ?new)"
      using ks grants_made_kn [of r ws av "next_grant d" ks]
      by (metis distinct_key_of_kn)
    moreover have "grant_key g \<noteq> grant_key h" if "g \<in> set (grants d)" "h \<in> set ?new" for g h
      using new [OF that(1)] n [OF that(2)] by (auto simp: grant_key_def at_scope_def)
    ultimately show ?thesis using ok by (auto simp: grants_ok_def) (metis image_eqI)
  qed
  moreover have "grant_scoped env g" if "g \<in> set ?new" for g
    using scoped [of "kn g"] n [OF that] by (simp add: grant_scoped_def)
  ultimately show ?thesis
    using ok assms(2-5) n by (auto simp: grants_ok_def)
qed

lemma want_scoped:
  assumes "set_role_grants env got r ws av ts os actor d = Inr (n, d')"
    and "k \<in> set (map (Pair ''tool'') ts @ map (Pair ''operation'') os)"
  shows "scoped_at env ws av k"
proof -
  have "\<not> (\<not> (ws = None \<and> av = None) \<and> (ws = None) = (av = None))"
    and "set os \<subseteq> set (if ws = None \<and> av = None then acl_resources (ae_acl env) else map fst (acl_operations (ae_acl env)))"
    and "\<not> (ws = None \<and> av = None \<and> ts \<noteq> [])"
    and "ws = None \<and> av = None \<or> set ts \<subseteq> set (ae_declared env)"
    using assms(1) by (auto simp: set_role_grants_def Let_def split: if_splits)
  with assms(2) show ?thesis by (cases "ws = None \<and> av = None") (auto simp: scoped_at_def)
qed

lemma check_grant_scoped:
  assumes "check_grant env k n ws av = None"
  shows "scoped_at env ws av (k, n)"
proof -
  have "k = ''tool'' \<or> k = ''operation''"
    using assms by (auto simp: check_grant_def GRANT_KINDS_def simp del: char_of_eq_iff split: if_splits)
  then show ?thesis
  proof
    assume k: "k = ''tool''"
    show ?thesis
      using assms unfolding k check_grant_def scoped_at_def GRANT_KINDS_def
      by (cases ws; cases av) (simp_all split: if_splits)
  next
    assume k: "k = ''operation''"
    show ?thesis
      using assms unfolding k check_grant_def scoped_at_def GRANT_KINDS_def
      by (cases ws; cases av) (simp_all split: if_splits)
  qed
qed

interpretation grant_table: access_invariant env "grants_ok env"
proof
  fix d d' assume ok: "grants_ok env d" and s: "access_step env d d'"
  from s show "grants_ok env d'"
  proof (cases rule: access_step_cases)
    case same
    with ok show ?thesis by (simp add: grants_ok_def)
  next
    case (update salt i r a p actor)
    with ok show ?thesis by (simp add: grants_ok_def update_user_frame)
  next
    case (grant got r k n ws av i)
    show ?thesis
    proof (cases "d' = d")
      case False
      with add_grant_effect [OF grant] have "role_known d r" and c: "check_grant env k n ws av = None"
        and f: "find (same_grant r k n ws av) (grants d) = None"
        and d': "d' = d\<lparr>grants := grants d @ [\<lparr>g_id = next_grant d, g_role = r, g_kind = k, g_name = n,
          g_workspace = ws, g_view = av\<rparr>], next_grant := next_grant d + 1\<rparr>" by auto
      show ?thesis
      proof (rule grants_ok_append [OF ok, where ks = "[(k, n)]"])
        show "kn g \<notin> set [(k, n)]" if "g \<in> set (grants d)" "at_scope r ws av g" for g
          using f that by (auto simp: find_None_iff same_grant_def at_scope_def kn_def)
        show "scoped_at env ws av x" if "x \<in> set [(k, n)]" for x
          using check_grant_scoped [OF c] that by simp
      qed (use \<open>role_known d r\<close> in \<open>simp_all add: d' grants_made_def role_known_def\<close>)
    qed (use ok in simp)
  next
    case (ungrant i)
    show ?thesis
      by (rule remove_grant_effect [OF ungrant], rule grants_ok_subset [OF ok]) (simp_all add: revoke_role_launches_def)
  next
    case (set got r ws av ts os actor n)
    obtain add inh and gone :: "grant_row list" where r: "role_known d r"
      and add: "add = filter (\<lambda>k. k \<notin> kn ` set (filter (at_scope r ws av) (grants d)) \<and> k \<notin> inh)
        (sort (remdups (map (Pair ''tool'') ts @ map (Pair ''operation'') os)))"
      and d': "d' = add_grants r ws av add (if gone = [] then d else revoke_role_launches r ws av
       (d\<lparr>grants := filter (\<lambda>g. g_id g \<notin> g_id ` set gone) (grants d)\<rparr>))"
      by (rule set_role_grants_effect [OF set]) (rule that, assumption+)
    let ?d1 = "if gone = [] then d else revoke_role_launches r ws av
       (d\<lparr>grants := filter (\<lambda>g. g_id g \<notin> g_id ` set gone) (grants d)\<rparr>)"
    have g1: "grants ?d1 = filter (\<lambda>g. g_id g \<notin> g_id ` set gone) (grants d)"
      and f1: "next_grant ?d1 = next_grant d" "roles ?d1 = roles d"
      by (simp_all add: revoke_role_launches_def)
    have ok1: "grants_ok env ?d1" by (rule grants_ok_subset [OF ok g1 f1])
    show ?thesis
    proof (rule grants_ok_append [OF ok1, where ks = add])
      show "distinct add" unfolding add by simp
      show "kn g \<notin> set add" if "g \<in> set (grants ?d1)" "at_scope r ws av g" for g
        using that unfolding g1 add by auto
      show "scoped_at env ws av k" if "k \<in> set add" for k
        by (rule want_scoped [OF set]) (use that in \<open>simp add: add\<close>)
    qed (use r f1(2) in \<open>simp_all add: d' add_grants_eq role_known_def\<close>)
  next
    case (rename c l actor)
    with ok show ?thesis by (simp add: grants_ok_def renamed_codes)
  next
    case (unrole c actor)
    note d' = delete_role_effect(1) [OF unrole]
    have "g_role g \<in> fst ` set (filter (\<lambda>r. fst r \<noteq> c) (roles d))" if g: "g \<in> set (grants d)" "g_role g \<noteq> c" for g
    proof -
      from ok g obtain x where "x \<in> set (roles d)" "g_role g = fst x" by (auto simp: grants_ok_def)
      with g(2) show ?thesis by (intro image_eqI [of _ _ x]) auto
    qed
    with ok show ?thesis unfolding d' grants_ok_def by (simp add: image_subset_iff distinct_map_filter)
  qed (use ok in \<open>auto simp: grants_ok_def image_subset_iff dest!: create_user_effect(1) role_effects(1)\<close>)
qed (simp add: grants_ok_def fresh_access_def)

text \<open>The steps that only add users, or grants.\<close>

lemma launches_ok_grown:
  assumes ok: "launches_ok d" and "users d' = users d @ us" "set (grants d) \<subseteq> set (grants d')"
    "launches d' = launches d"
  shows "launches_ok d'"
  unfolding launches_ok_def
proof (intro ballI impI)
  fix l assume "l \<in> set (launches d')" "l_revoked l = None"
  with ok assms(4) have a: "authorized d l" by (simp add: launches_ok_def)
  show "authorized d' l"
    by (rule authorized_mono [OF a]) (use assms(2,3) in \<open>auto simp: find_user_def find_append\<close>)
qed

lemma launches_ok_revoked:
  assumes ok: "launches_ok d" and "users d' = users d" "grants d' = grants d"
    and ls: "launches d' = update_where p (\<lambda>l. l\<lparr>l_revoked := Some t\<rparr>) (launches d)"
  shows "launches_ok d'"
proof (rule launches_ok_same [OF ok])
  fix l' assume "l' \<in> set (launches d')" and n: "l_revoked l' = None"
  then obtain q where q: "q \<in> set (launches d)" "l' = (if p q then q\<lparr>l_revoked := Some t\<rparr> else q)"
    unfolding ls in_update_where by blast
  with n have "l' = q" by (cases "p q") auto
  with q(1) n show "authorized d' l' \<or> (\<exists>l \<in> set (launches d). l_revoked l = None \<and> later_launch l l')"
    by (auto intro: later_refl)
qed (use assms in auto)

lemma set_grants_ok:
  assumes s: "set_role_grants env got r ws av ts os actor d = Inr (n, d')"
    and ok: "launches_ok d" and g: "grants_ok env d"
  shows "launches_ok d'"
proof -
  obtain add and gone :: "grant_row list"
    where gone: "set gone \<subseteq> set (filter (at_scope r ws av) (grants d))"
      and d': "d' = add_grants r ws av add (if gone = [] then d else revoke_role_launches r ws av
       (d\<lparr>grants := filter (\<lambda>g. g_id g \<notin> g_id ` set gone) (grants d)\<rparr>))"
    by (rule set_role_grants_effect [OF s]) (rule that, assumption+)
  let ?d1 = "if gone = [] then d else revoke_role_launches r ws av
       (d\<lparr>grants := filter (\<lambda>g. g_id g \<notin> g_id ` set gone) (grants d)\<rparr>)"
  have "launches_ok (revoke_role_launches r ws av
       (d\<lparr>grants := filter (\<lambda>g. g_id g \<notin> g_id ` set gone) (grants d)\<rparr>))"
  proof (rule revoked_role_authorized [OF HOL.refl _ ok])
    fix g assume a: "g \<in> set (grants d)"
    have "at_scope r ws av g" if "h \<in> set gone" "g_id g = g_id h" for h
      using gone that a distinct_key_eq [of g_id "grants d" g h] \<open>grants_ok env d\<close>
      by (auto simp: grants_ok_def)
    then show "g \<in> set (filter (\<lambda>g. g_id g \<notin> g_id ` set gone) (grants d))
        \<or> g_role g = r \<and> g_workspace g = ws \<and> g_view g = av"
      using a by (auto simp: at_scope_def)
  qed
  with ok have "launches_ok ?d1" by simp
  then show ?thesis
    by (rule launches_ok_grown [where us = "[]"]) (simp_all only: d' add_grants_eq, simp_all)
qed

lemma step_launches_ok:
  assumes ok: "launches_ok d" and g: "grants_ok env d" and s: "access_step env d d'"
  shows "launches_ok d'"
  using s
proof (cases rule: access_step.cases)
  case (t_create_user salt n r p actor u)
  show ?thesis
    by (rule launches_ok_grown [OF ok, of _ "[u]"]) (simp_all add: create_user_effect(1) [OF t_create_user])
next
  case (t_update_user salt i r a p actor)
  show ?thesis by (rule edited_authorized [OF ok t_update_user])
next
  case (t_add_grant got r k n ws av i)
  show ?thesis
    by (rule launches_ok_grown [OF ok, of _ "[]"]) (use add_grant_effect [OF t_add_grant] in auto)
next
  case (t_remove_grant i)
  show ?thesis
  proof (rule remove_grant_effect [OF t_remove_grant])
    fix x assume x: "find (\<lambda>g. g_id g = i) (grants d) = Some x"
      and d': "d' = revoke_role_launches (g_role x) (g_workspace x) (g_view x)
       (d\<lparr>grants := filter (\<lambda>g. g_id g \<noteq> i) (grants d)\<rparr>)"
    have x': "x \<in> set (grants d)" "g_id x = i" using find_SomeD [OF x] by auto
    show ?thesis
    proof (rule revoked_role_authorized [OF d' _ ok])
      fix h assume h: "h \<in> set (grants d)"
      have "h = x" if "g_id h = i"
        by (rule distinct_key_eq [of g_id "grants d"]) (use g h x' that in \<open>simp_all add: grants_ok_def\<close>)
      with h show "h \<in> set (filter (\<lambda>g. g_id g \<noteq> i) (grants d))
          \<or> g_role h = g_role x \<and> g_workspace h = g_workspace x \<and> g_view h = g_view x" by auto
    qed
  qed
next
  case (t_set_grants got r ws av ts os actor n)
  show ?thesis by (rule set_grants_ok [OF t_set_grants ok g])
next
  case (t_create_role c l actor)
  show ?thesis
    by (rule launches_ok_grown [OF ok, of _ "[]"]) (use role_effects(1) [OF t_create_role] in auto)
next
  case (t_rename_role c l actor)
  show ?thesis
    by (rule launches_ok_grown [OF ok, of _ "[]"]) (use role_effects(2) [OF t_rename_role] in auto)
next
  case (t_delete_role c actor)
  note e = delete_role_effect [OF t_delete_role]
  show ?thesis unfolding launches_ok_def
  proof (intro ballI impI)
    fix l assume "l \<in> set (launches d')" "l_revoked l = None"
    with ok have a: "authorized d l" by (simp add: launches_ok_def e(1))
    show "authorized d' l"
      by (rule authorized_mono [OF a])
        (use e(3) find_SomeD [of _ "users d"] in \<open>auto simp: e(1) find_user_def\<close>)
  qed
next
  case (t_sign_in cfg si t n p x)
  show ?thesis
    by (rule launches_ok_grown [OF ok, of _ "[]"]) (use sign_in_effect [OF t_sign_in] in auto)
next
  case (t_create_launch cfg raw li t c auth i q l x)
  obtain ttl cap u where u: "find_user d i = Some u" "may_launch d u (q_workspace q) (q_view q)"
    and l: "l = new_launch env li t c i q ttl d"
    and d': "d' = d\<lparr>launches := update_where (\<lambda>k. l_id k \<in> set (evict_ids li i cap (d\<lparr>launches := launches d @ [l]\<rparr>)))
         (\<lambda>k. k\<lparr>l_revoked := Some (clock d)\<rparr>) (launches d @ [l])\<rparr>"
    by (rule create_launch_effect [OF t_create_launch]) (rule that, assumption+)
  show ?thesis
  proof (rule launches_ok_same [OF ok])
    fix l' assume "l' \<in> set (launches d')" "l_revoked l' = None"
    then have "l' \<in> set (launches d) \<or> l' = l"
      by (auto simp: d' in_update_where split: if_splits)
    moreover have "authorized d' l" using u by (simp add: authorized_def l new_launch_def d' find_user_def
        may_launch_def has_operation_def granted_def)
    ultimately show "authorized d' l' \<or> (\<exists>l \<in> set (launches d). l_revoked l = None \<and> later_launch l l')"
      using \<open>l_revoked l' = None\<close> by (metis later_refl)
  qed (simp_all add: d')
next
  case (t_redeem t li c x)
  show ?thesis
    by (rule launches_ok_same [OF ok])
      (auto simp: redeem_effect [OF t_redeem] in_update_where later_launch_def redeemable_def split: if_splits)
next
  case (t_revoke_launch u li b)
  show ?thesis
    by (rule launches_ok_revoked [OF ok])
      (use t_revoke_launch in \<open>auto simp: revoke_launch_def Let_def\<close>)
next
  case (t_revoke_artifact c)
  show ?thesis
    by (rule launches_ok_revoked [OF ok]) (simp_all add: t_revoke_artifact revoke_artifact_launches_def)
next
  case (t_revoke_session si)
  then show ?thesis by (intro launches_ok_same [OF ok]) (auto simp: revoke_session_def)
next
  case (t_clock s)
  then show ?thesis by (intro launches_ok_same [OF ok]) auto
next
  case (t_views vs ws)
  then show ?thesis by (intro launches_ok_same [OF ok]) auto
qed

interpretation launch_table: access_invariant env "\<lambda>d. grants_ok env d \<and> launches_ok d"
  by unfold_locales
    (auto intro: grant_table.fresh grant_table.step step_launches_ok, simp add: launches_ok_def fresh_access_def)

text \<open>A session that is not revoked belongs to an active user.\<close>

lemma sessions_ok_same:
  assumes "sessions_ok d" "users d' = users d @ us"
    and "\<And>s. s \<in> set (sessions d') \<Longrightarrow> e_revoked s = None \<Longrightarrow> s \<in> set (sessions d)"
  shows "sessions_ok d'"
  using assms by (fastforce simp: sessions_ok_def find_user_def find_append)

lemma edited_sessions_ok:
  assumes ok: "sessions_ok d" and u: "update_user env salt i r a p actor d = Inr d'"
  shows "sessions_ok d'"
  unfolding sessions_ok_def
proof (intro ballI impI)
  fix s assume s: "s \<in> set (sessions d')" "e_revoked s = None"
  obtain h where users: "users d' = update_where (\<lambda>u. w_id u = i) (edited_user r a h) (users d)"
    and ss: "sessions d' = (if r \<noteq> None \<or> a = Some False \<or> h \<noteq> None
       then update_where (\<lambda>s. e_user s = i \<and> e_revoked s = None) (\<lambda>s. s\<lparr>e_revoked := Some (clock d)\<rparr>) (sessions d)
       else sessions d)"
    by (rule update_user_effect [OF u]) (rule that, assumption+)
  have old: "s \<in> set (sessions d) \<and> (e_user s = i \<longrightarrow> a \<noteq> Some False)"
  proof (cases "r \<noteq> None \<or> a = Some False \<or> h \<noteq> None")
    case True
    with s(1) obtain q where "q \<in> set (sessions d)"
      "s = (if e_user q = i \<and> e_revoked q = None then q\<lparr>e_revoked := Some (clock d)\<rparr> else q)"
      by (auto simp: ss in_update_where)
    with s(2) show ?thesis by (cases "e_user q = i \<and> e_revoked q = None") auto
  qed (use s ss in auto)
  with ok s obtain w where w: "find_user d (e_user s) = Some w" "w_active w" by (auto simp: sessions_ok_def)
  have "find_user d' (e_user s) = map_option (\<lambda>u. if w_id u = i then edited_user r a h u else u) (find_user d (e_user s))"
    unfolding find_user_def users by (rule find_update_where) simp
  moreover have "w_id w = e_user s" using w find_SomeD [of _ "users d"] by (auto simp: find_user_def)
  ultimately show "\<exists>u. find_user d' (e_user s) = Some u \<and> w_active u"
    using w old by (auto simp: edited_user_def split: option.splits)
qed

lemma authenticated:
  "authenticate_in env n p d = Some u \<Longrightarrow> u \<in> set (users d) \<and> w_active u \<and> w_name u = n"
  by (auto simp: authenticate_in_def Let_def split: if_splits option.splits dest!: find_SomeD)

interpretation session_table: access_invariant env "\<lambda>d. users_ok d \<and> sessions_ok d"
proof
  fix d d' assume ok: "users_ok d \<and> sessions_ok d" and s: "access_step env d d'"
  from s have "sessions_ok d'"
  proof (cases rule: access_step.cases)
    case (t_create_user salt n r p actor u)
    show ?thesis
      by (rule sessions_ok_same [of _ _ "[u]"]) (use ok in \<open>simp_all add: create_user_effect(1) [OF t_create_user]\<close>)
  next
    case (t_update_user salt i r a p actor)
    show ?thesis using edited_sessions_ok [OF _ t_update_user] ok by blast
  next
    case (t_set_grants got r ws av ts os actor n)
    show ?thesis
      by (rule sessions_ok_same [of _ _ "[]"]) (use ok in \<open>simp_all add: set_role_grants_frame [OF t_set_grants]\<close>)
  next
    case (t_sign_in cfg si t n p x)
    show ?thesis
    proof (cases "x = None")
      case True
      with ok sign_in_effect [OF t_sign_in] show ?thesis by auto
    next
      case False
      with sign_in_effect [OF t_sign_in] obtain s u ttl where u: "authenticate_in env n p d = Some u"
        and r: "s = \<lparr>e_id = si, e_hash = ae_hash env t, e_user = w_id u, e_expires = clock d + ttl, e_revoked = None\<rparr>"
        and d': "d' = d\<lparr>sessions := sessions d @ [s]\<rparr>" by blast
      from r d' have s: "e_user s = w_id u" "d' = d\<lparr>sessions := sessions d @ [s]\<rparr>" by simp_all
      have "find_user d (w_id u) = Some u"
        unfolding find_user_def by (rule find_unique) (use ok authenticated [OF u] in \<open>simp_all add: users_ok_def\<close>)
      with ok s authenticated [OF u] show ?thesis by (auto simp: sessions_ok_def find_user_def)
    qed
  next
    case (t_create_launch cfg raw li t c auth i q l x)
    show ?thesis
      by (rule create_launch_effect [OF t_create_launch], rule sessions_ok_same [of _ _ "[]"]) (use ok in simp_all)
  next
    case (t_remove_grant i)
    show ?thesis
      by (rule remove_grant_effect [OF t_remove_grant], rule sessions_ok_same [of _ _ "[]"])
        (use ok in \<open>simp_all add: revoke_role_launches_def\<close>)
  next
    case (t_revoke_session si)
    show ?thesis
      by (rule sessions_ok_same [of _ _ "[]"])
        (use ok in \<open>auto simp: t_revoke_session revoke_session_def in_update_where split: if_splits\<close>)
  qed (use ok in \<open>auto simp: sessions_ok_def find_user_def revoke_artifact_launches_def revoke_launch_def Let_def
      dest!: add_grant_effect role_effects delete_role_effect(1) redeem_effect\<close>)
  with ok s user_table.step show "users_ok d' \<and> sessions_ok d'" by blast
qed (simp_all add: users_ok_def sessions_ok_def fresh_access_def)

section \<open>The cap on live launches\<close>

text \<open>Only \<open>create_launch\<close> adds a launch; every other step changes the ones that are there.\<close>

lemma launch_step_cases:
  assumes "access_step env d d'"
  obtains (kept) f where "launches d' = map f (launches d)" "\<And>l. later_launch l (f l)" "clock d \<le> clock d'"
    | (new) cfg raw li t c auth i q l x where "create_launch env cfg raw li t c auth i q d = Inr (l, x, d')"
proof -
  have c: "length (launches d') = length (launches d) \<and> clock d \<le> clock d'
      \<or> (\<exists>cfg raw li t c auth i q l x. create_launch env cfg raw li t c auth i q d = Inr (l, x, d'))"
    using assms
  proof (cases rule: access_step.cases)
    case (t_create_user salt n r p actor u)
    then show ?thesis by (simp add: create_user_effect(1) [OF t_create_user])
  next
    case (t_update_user salt i r a p actor)
    show ?thesis by (rule update_user_effect [OF t_update_user]) simp
  next
    case (t_remove_grant i)
    show ?thesis by (rule remove_grant_effect [OF t_remove_grant]) (simp add: revoke_role_launches_def)
  next
    case (t_set_grants got r ws av ts os actor n)
    show ?thesis
      by (rule set_role_grants_tables [OF t_set_grants]) (simp add: add_grants_eq revoke_role_launches_def)
  next
    case (t_create_launch cfg raw li t c auth i q l x)
    then show ?thesis by blast
  qed (auto simp: revoke_artifact_launches_def revoke_launch_def Let_def revoke_session_def
      dest!: add_grant_effect role_effects delete_role_effect(1) redeem_effect sign_in_effect)
  from step_evolves [OF assms] obtain f new where f: "launches d' = map f (launches d) @ new"
    "\<And>l. later_launch l (f l)" unfolding launches_evolve_def by blast
  from c show ?thesis
  proof
    assume "length (launches d') = length (launches d) \<and> clock d \<le> clock d'"
    with f show ?thesis by (intro kept [of f]) simp_all
  qed (blast intro: new)
qed

lemma later_live:
  assumes "later_launch l l'" "clock d \<le> clock d'" "live d' l'"
  shows "live d l"
  using assms by (auto simp: later_launch_def live_def)

lemma filter_map_le:
  assumes "\<And>x. x \<in> set xs \<Longrightarrow> P (f x) \<Longrightarrow> Q x"
  shows "length (filter P (map f xs)) \<le> length (filter Q xs)"
  using assms by (induction xs) auto

definition launches_capped :: "access \<Rightarrow> bool" where
  "launches_capped d \<longleftrightarrow> distinct (map l_id (launches d)) \<and> distinct (map l_xhash (launches d))
     \<and> (\<forall>l \<in> set (launches d). l_created l \<le> clock d \<and> l_expires l \<le> l_created l + ttl_ceiling ''launch_max_ttl'')
     \<and> (\<forall>i. length (live_of i d) \<le> MAX_CONCURRENT_CEILING)"

lemma newest_first_perm: "set (newest_first li ls) = set ls" "length (newest_first li ls) = length ls"
  "distinct ls \<Longrightarrow> distinct (newest_first li ls)"
  by (simp_all add: newest_first_def)

text \<open>The new launch comes first, so the eviction never takes it.\<close>

lemma last_sort_key:
  assumes "x \<in> set xs"
  shows "key x \<le> key (last (sort_key key xs))" "last (sort_key key xs) \<in> set xs"
proof -
  let ?s = "sort_key key xs"
  have x: "x \<in> set ?s" using assms by simp
  then have ne: "?s \<noteq> []" by (cases ?s) simp_all
  have "last ?s \<in> set ?s" by (rule last_in_set [OF ne])
  then show "last ?s \<in> set xs" by simp
  obtain j where j: "j < length ?s" "?s ! j = x" using x unfolding in_set_conv_nth by blast
  have "map key ?s ! j \<le> map key ?s ! (length ?s - 1)"
    by (rule sorted_nth_mono) (use j(1) in simp_all)
  with j ne show "key x \<le> key (last ?s)" by (simp add: last_conv_nth)
qed

lemma newest_first_hd:
  assumes l: "l \<in> set ls" "l_id l = li" and ids: "distinct (map l_id ls)"
    and old: "\<And>k. k \<in> set ls \<Longrightarrow> l_created k \<le> l_created l"
  shows "ls \<noteq> [] \<and> hd (newest_first li ls) = l"
proof -
  let ?key = "\<lambda>l. (l_created l, l_id l = li, l_id l)"
  let ?m = "last (sort_key ?key ls)"
  note m = last_sort_key [where key = ?key, OF l(1)]
  from m(1) old [OF m(2)] l(2) have "l_id ?m = li"
    by (auto simp: less_eq_prod_def less_prod_def)
  then have "?m = l" using distinct_key_eq [OF ids m(2) l(1)] l(2) by simp
  moreover have "ls \<noteq> []" using l(1) by auto
  ultimately show ?thesis by (simp add: newest_first_def hd_rev)
qed

lemma live_after_revoke:
  assumes "clock d' = clock d"
    and "launches d' = update_where p (\<lambda>l. l\<lparr>l_revoked := Some t\<rparr>) ls"
  shows "live_of i d' = filter (\<lambda>l. \<not> p l \<and> l_user l = i \<and> live d l) ls"
  unfolding live_of_def assms(2) by (induction ls) (auto simp: table_simps live_def assms(1))

lemma max_concurrent_bounds: "max_concurrent raw = Some cap \<Longrightarrow> 1 \<le> cap \<and> cap \<le> MAX_CONCURRENT_CEILING"
  by (auto simp: max_concurrent_def Let_def MAX_CONCURRENT_CEILING_def split: if_splits)

lemma cap_holds:
  assumes ok: "launches_capped d" and c: "create_launch env cfg raw li t c auth i q d = Inr (l, x, d')"
    and cap: "max_concurrent raw = Some cap"
  shows "length (live_of i d') \<le> cap" "l \<in> set (launches d')"
    "\<And>j. j \<noteq> i \<Longrightarrow> live_of j d' = live_of j d"
proof -
  obtain ttl where l: "l = new_launch env li t c i q ttl d" and id: "li \<notin> l_id ` set (launches d)"
    and d': "d' = d\<lparr>launches := update_where (\<lambda>k. l_id k \<in> set (evict_ids li i cap (d\<lparr>launches := launches d @ [l]\<rparr>)))
         (\<lambda>k. k\<lparr>l_revoked := Some (clock d)\<rparr>) (launches d @ [l])\<rparr>"
    by (rule create_launch_effect [OF c]) (use cap that in auto)
  let ?d1 = "d\<lparr>launches := launches d @ [l]\<rparr>"
  let ?L = "live_of i ?d1" and ?evict = "set (evict_ids li i cap ?d1)"
  let ?N = "newest_first li ?L"
  have cap1: "1 \<le> cap" "cap \<le> MAX_CONCURRENT_CEILING" using max_concurrent_bounds [OF cap] by auto
  have ids: "distinct (map l_id (launches d @ [l]))"
    using ok id by (auto simp: launches_capped_def l new_launch_def)
  have idsL: "distinct (map l_id ?L)" unfolding live_of_def
    by (rule distinct_map_filter) (use ids in simp)
  have idsN: "distinct (map l_id ?N)"
    using idsL by (simp add: newest_first_def distinct_map rev_map)
  have "length ?L \<le> length (live_of i d) + 1" by (simp add: live_of_def live_def)
  also have "\<dots> \<le> MAX_CONCURRENT_CEILING + 1" using ok by (simp add: launches_capped_def)
  finally have short: "length ?N \<le> 21" by (simp add: newest_first_perm MAX_CONCURRENT_CEILING_def)
  have evict: "evict_ids li i cap ?d1 = map l_id (drop cap ?N)"
    using short by (simp add: evict_ids_def)
  have N: "set ?N = set ?L" by (rule newest_first_perm)
  have N_old: "k \<in> set (launches d @ [l]) \<and> l_user k = i" if "k \<in> set (drop cap ?N)" for k
    using in_set_dropD [OF that] unfolding N by (auto simp: live_of_def split: if_splits)
  have evicted: "l_id k \<in> ?evict \<longleftrightarrow> k \<in> set (drop cap ?N)" if k: "k \<in> set (launches d @ [l])" for k
  proof
    assume "l_id k \<in> ?evict"
    then obtain h where h: "h \<in> set (drop cap ?N)" "l_id k = l_id h" by (auto simp: evict)
    with distinct_key_eq [OF ids k] N_old [OF h(1)] have "k = h" by blast
    with h show "k \<in> set (drop cap ?N)" by simp
  qed (simp add: evict)
  have after: "live_of j d' = filter (\<lambda>k. l_id k \<notin> ?evict \<and> l_user k = j \<and> live d k) (launches d @ [l])" for j
    by (rule live_after_revoke) (simp_all add: d')
  have mine: "live_of i d' = filter (\<lambda>k. l_id k \<notin> ?evict) ?L"
    unfolding after by (simp add: live_of_def live_def conj_commute)
  have "set (live_of i d') \<subseteq> set (take cap ?N)"
  proof
    fix k assume "k \<in> set (live_of i d')"
    then have "k \<in> set ?N" "k \<notin> set (drop cap ?N)" unfolding mine N by (auto simp: evict)
    then show "k \<in> set (take cap ?N)" by (metis Un_iff append_take_drop_id set_append)
  qed
  then have "card (set (live_of i d')) \<le> length (take cap ?N)"
    by (meson card_length card_mono finite_set le_trans)
  moreover have "distinct (live_of i d')" using idsL by (simp add: mine distinct_map)
  ultimately show "length (live_of i d') \<le> cap"
    by (simp add: distinct_card)
  show "live_of j d' = live_of j d" if "j \<noteq> i" for j
  proof -
    have "l_id k \<notin> ?evict" if "k \<in> set (launches d @ [l])" "l_user k = j" for k
      using evicted [OF that(1)] N_old [of k] that(2) \<open>j \<noteq> i\<close> by blast
    then have "live_of j d' = filter (\<lambda>k. l_user k = j \<and> live d k) (launches d @ [l])"
      unfolding after by (auto intro!: filter_cong)
    then show ?thesis using \<open>j \<noteq> i\<close> by (simp add: live_of_def l new_launch_def)
  qed
  show "l \<in> set (launches d')"
  proof -
    have "l \<notin> set (drop cap ?N)"
    proof
      assume drop: "l \<in> set (drop cap ?N)"
      then have L: "l \<in> set ?L" using in_set_dropD N by fast
      have new: "l_id l = li" "l_created l = clock d" by (simp_all add: l new_launch_def)
      have "l_created k \<le> l_created l" if "k \<in> set ?L" for k
      proof -
        have "k \<in> set (launches d @ [l])" using that by (auto simp: live_of_def split: if_splits)
        with ok new show ?thesis by (auto simp: launches_capped_def)
      qed
      then have "?L \<noteq> [] \<and> hd ?N = l" by (rule newest_first_hd [OF L new(1) idsL])
      moreover obtain c where "cap = Suc c" using cap1(1) by (cases cap) auto
      ultimately have "l \<in> set (take cap ?N)" using L N by (cases ?N) auto
      moreover have "distinct (take cap ?N @ drop cap ?N)" using idsN by (simp add: distinct_map)
      ultimately show False using drop by (simp only: distinct_append) blast
    qed
    then have "l_id l \<notin> ?evict" using evicted [of l] by simp
    then show ?thesis by (auto simp: d' in_update_where)
  qed
qed

lemma launch_ttl_bound:
  assumes "ttl_of cfg (Some w) ''launch_max_ttl'' = Some ttl"
  shows "ttl \<le> ttl_ceiling ''launch_max_ttl''"
proof -
  obtain t where t: "resolve_auth_ttls cfg (Some w) = Some t" "ttl = nat (int_of (py_get t ''launch_max_ttl''))"
    using assms by (auto simp: ttl_of_def)
  then obtain e a b c where "compute_auth_ttls e a b c = Some t"
    by (auto simp: resolve_auth_ttls_def split: option.splits)
  from compute_auth_ttls_get [OF this, of "''launch_max_ttl''"] t(2) show ?thesis
    by (auto simp: AUTH_TTL_KEYS_def)
qed

lemma create_launch_ttl:
  assumes "create_launch env cfg raw li t c auth i q d = Inr (l, x, d')"
  shows "l_created l = clock d" "l_expires l \<le> clock d + ttl_ceiling ''launch_max_ttl''"
  using assms launch_ttl_bound
  by (auto simp: create_launch_def new_launch_def Let_def split: option.splits if_splits)

interpretation cap_table: access_invariant env launches_capped
proof
  fix d d' assume ok: "launches_capped d" and s: "access_step env d d'"
  from s show "launches_capped d'"
  proof (cases rule: launch_step_cases)
    case (kept f)
    have ids: "map l_id (launches d') = map l_id (launches d)" "map l_xhash (launches d') = map l_xhash (launches d)"
      using kept(2) by (simp_all add: kept(1) later_launch_def)
    have "distinct (map l_id (launches d'))" "distinct (map l_xhash (launches d'))"
      using ok unfolding ids launches_capped_def by blast+
    moreover have "l_created l \<le> clock d' \<and> l_expires l \<le> l_created l + ttl_ceiling ''launch_max_ttl''"
      if l: "l \<in> set (launches d')" for l
    proof -
      obtain k where k: "k \<in> set (launches d)" "l = f k" using l by (auto simp: kept(1))
      with ok kept(2) [of k] kept(3) show ?thesis by (auto simp: launches_capped_def later_launch_def)
    qed
    moreover have "length (live_of i d') \<le> length (live_of i d)" for i
      unfolding live_of_def kept(1)
    proof (rule filter_map_le)
      fix l assume "l_user (f l) = i \<and> live d' (f l)"
      moreover have "l_user (f l) = l_user l" using kept(2) [of l] by (simp add: later_launch_def)
      ultimately show "l_user l = i \<and> live d l"
        using later_live [OF kept(2) kept(3)] by simp
    qed
    moreover have "length (live_of i d) \<le> MAX_CONCURRENT_CEILING" for i
      using ok by (simp add: launches_capped_def)
    ultimately show ?thesis unfolding launches_capped_def by (meson le_trans)
  next
    case (new cfg raw li t c auth i q l x)
    obtain cap where cap: "max_concurrent raw = Some cap"
      by (rule create_launch_effect [OF new]) (rule that)
    obtain p where d': "clock d' = clock d"
      "launches d' = update_where p (\<lambda>k. k\<lparr>l_revoked := Some (clock d)\<rparr>) (launches d @ [l])"
      and fresh: "l_id l \<notin> l_id ` set (launches d)" "l_xhash l \<notin> l_xhash ` set (launches d)"
      by (rule create_launch_effect [OF new]) (use that in \<open>simp add: new_launch_def\<close>)
    have "map l_id (launches d') = map l_id (launches d @ [l])"
      "map l_xhash (launches d') = map l_xhash (launches d @ [l])"
      unfolding d'(2) by (rule map_update_where, simp)+
    then have "distinct (map l_id (launches d'))" "distinct (map l_xhash (launches d'))"
      using ok fresh by (simp_all add: launches_capped_def)
    moreover have "l_created k \<le> clock d' \<and> l_expires k \<le> l_created k + ttl_ceiling ''launch_max_ttl''"
      if k: "k \<in> set (launches d')" for k
    proof -
      obtain h where h: "h \<in> set (launches d @ [l])" "l_created k = l_created h" "l_expires k = l_expires h"
        using k unfolding d'(2) in_update_where by fastforce
      with ok create_launch_ttl [OF new] show ?thesis by (auto simp: launches_capped_def d'(1))
    qed
    moreover have "length (live_of j d') \<le> MAX_CONCURRENT_CEILING" for j
      using cap_holds [OF ok new cap] max_concurrent_bounds [OF cap] ok
      by (cases "j = i") (auto simp: launches_capped_def)
    ultimately show ?thesis by (simp add: launches_capped_def)
  qed
qed (simp add: launches_capped_def fresh_access_def live_of_def)

text \<open>A launch of an earlier state is found again under its id.\<close>

lemma launch_kept:
  assumes "launches_evolve d d'" and "l \<in> set (launches d)"
  obtains l' where "l' \<in> set (launches d')" "later_launch l l'"
proof -
  obtain f new where "launches d' = map f (launches d) @ new" "later_launch l (f l)"
    using assms(1) unfolding launches_evolve_def by blast
  with assms(2) show ?thesis by (intro that [of "f l"]) auto
qed

lemma launch_kept_id:
  assumes "launches_evolve d d'" and "l \<in> set (launches d)" and "distinct (map l_id (launches d'))"
    and "l' \<in> set (launches d')" "l_id l' = l_id l"
  shows "later_launch l l'"
proof -
  obtain k where k: "k \<in> set (launches d')" "later_launch l k" by (rule launch_kept [OF assms(1,2)])
  then have "l_id k = l_id l'" using assms(5) by (simp add: later_launch_def)
  then have "k = l'" by (rule distinct_key_eq [OF assms(3) k(1) assms(4)])
  with k show ?thesis by simp
qed

end
