(* ===== verification/Access_Samples.thy ===== *)
theory Access_Samples
  imports Access_Laws
begin

text \<open>
  A small panel, built by the operations themselves: an admin and a user \<open>bob\<close> whose role may
  launch miniapps in one workspace, his session, his launch and its redemption. Its states are
  reachable; the witnesses of the properties are taken from them.
\<close>

definition panel_env :: access_env where
  "panel_env = \<lparr>ae_acl = \<lparr>acl_screens = [], acl_leaf_owners = [(''users'', ''core''), (''runs'', ''core'')],
       acl_operations = [(''artifact.launch'', ''miniapps'')], acl_core_operations = []\<rparr>,
     ae_declared = [''search'', ''send''], ae_enabled = [''search'', ''send''],
     ae_derive = (\<lambda>p salt. map of_char p @ salt), ae_hash = (\<lambda>s. CHR ''h'' # s)\<rparr>"

definition panel_ttls :: auth_config where
  "panel_ttls = \<lparr>ac_env = (\<lambda>_. None), ac_default = [], ac_workspace = (\<lambda>_. []), ac_defaults = (\<lambda>_. None)\<rparr>"

lemmas decimal_eval = ttl_value_def Let_def str_nat.simps digit_char_def re_match_dollar_def positive_decimal_def
  is_digit_def nat_of_str_def digit_value_def

lemma sample_ttl_values:
  "ttl_value (PyInt 43200) ''session_max_ttl'' = Some 43200"
  "ttl_value (PyInt 3600) ''launch_max_ttl'' = Some 3600"
  "ttl_value (PyInt 30) ''capability_ttl'' = Some 30"
  by (simp_all add: decimal_eval)

lemma sample_ttl_of:
  "ttl_of panel_ttls None ''session_max_ttl'' = Some 43200"
  "ttl_of panel_ttls (Some w) ''launch_max_ttl'' = Some 3600"
  by (simp_all add: ttl_of_def panel_ttls_def resolve_auth_ttls_def plain_rows_def compute_auth_ttls_def
      AUTH_TTL_KEYS_def raw_ttl_def sample_ttl_values)
lemma panel_cap: "max_concurrent (PyInt 2) = Some 2"
  by (simp add: max_concurrent_def decimal_eval MAX_CONCURRENT_CEILING_def)

definition sample_admin :: user_row where
  "sample_admin = \<lparr>w_id = 1, w_name = ''root'',
     w_hash = Some ''scrypt$16384$8$1$0102$636f727265637420686f7273650102'', w_role = ''admin'', w_active = True\<rparr>"

definition sample_bob :: user_row where
  "sample_bob = \<lparr>w_id = 2, w_name = ''bob'',
     w_hash = Some ''scrypt$16384$8$1$03$6261747465727920737461706c6503'', w_role = ''ops'', w_active = True\<rparr>"

definition sample_grant :: grant_row where
  "sample_grant = \<lparr>g_id = 1, g_role = ''ops'', g_kind = ''operation'', g_name = ''artifact.launch'',
     g_workspace = Some 3, g_view = None\<rparr>"

definition sample_session :: session_row where
  "sample_session = \<lparr>e_id = ''s1'', e_hash = ''htoken1'', e_user = 2, e_expires = 44200, e_revoked = None\<rparr>"

definition sample_request :: launch_request where
  "sample_request = \<lparr>q_workspace = 3, q_view = Some 7, q_code = ''map'', q_version = ''v1'', q_actions = []\<rparr>"

definition sample_launch :: launch_row where
  "sample_launch = \<lparr>l_id = ''l1'', l_hash = ''htok'', l_user = 2, l_code = ''map'', l_version = ''v1'',
     l_fingerprint = ''h'', l_actions = [], l_workspace = 3, l_view = Some 7, l_created = 1000,
     l_expires = 4600, l_revoked = None, l_xhash = ''hcode1'', l_xexpires = 1030, l_redeemed = None\<rparr>"

definition sample_redeemed :: launch_row where
  "sample_redeemed = sample_launch\<lparr>l_hash := ''hcookie'', l_redeemed := Some 1000\<rparr>"

definition panel_0 :: access where
  "panel_0 = (fresh_access 1000)\<lparr>aviews := [\<lparr>av_id = 7, av_code = ''desk'', av_label = ''Desk'',
     av_workspace = 3, av_active = True\<rparr>], workspaces := [(3, True)]\<rparr>"

definition panel_1 :: access where
  "panel_1 = panel_0\<lparr>users := [sample_admin], next_user := 2\<rparr>"

definition panel_2 :: access where
  "panel_2 = panel_1\<lparr>roles := [(''admin'', ''Administrator''), (''user'', ''User''), (''ops'', ''Operations'')]\<rparr>"

definition panel_3 :: access where
  "panel_3 = panel_2\<lparr>users := [sample_admin, sample_bob], next_user := 3\<rparr>"

definition panel_4 :: access where
  "panel_4 = panel_3\<lparr>grants := [sample_grant], next_grant := 2\<rparr>"

definition panel_5 :: access where
  "panel_5 = panel_4\<lparr>sessions := [sample_session]\<rparr>"

definition panel_6 :: access where
  "panel_6 = panel_5\<lparr>launches := [sample_launch]\<rparr>"

definition panel_7 :: access where
  "panel_7 = panel_5\<lparr>launches := [sample_redeemed]\<rparr>"

lemmas panel_defs = panel_7_def panel_6_def panel_5_def panel_4_def panel_3_def panel_2_def panel_1_def
  panel_0_def fresh_access_def
lemmas row_defs = sample_admin_def sample_bob_def sample_grant_def sample_session_def sample_redeemed_def
  sample_launch_def sample_request_def

lemma panel_views [simp]:
  "users panel_4 = [sample_admin, sample_bob]" "sessions panel_4 = []" "clock panel_4 = 1000"
  "users panel_5 = [sample_admin, sample_bob]" "clock panel_5 = 1000" "launches panel_5 = []"
  "grants panel_5 = [sample_grant]" "sessions panel_5 = [sample_session]"
  "users panel_6 = [sample_admin, sample_bob]" "clock panel_6 = 1000" "launches panel_6 = [sample_launch]"
  "users panel_7 = [sample_admin, sample_bob]" "clock panel_7 = 1000" "launches panel_7 = [sample_redeemed]"
  "ref_known panel_5 (Some 3) (Some 7)"
  by (simp_all add: panel_defs ref_known_def)

lemma access_reachable_step:
  "access_reachable env d \<Longrightarrow> access_step env d d' \<Longrightarrow> access_reachable env d'"
  unfolding access_reachable_def by (blast intro: rtranclp.rtrancl_into_rtrancl)

lemma panel_0_reachable: "access_reachable env panel_0"
proof -
  have "access_step env (fresh_access 1000) panel_0"
    using t_views [of env "fresh_access 1000" "workspaces panel_0" "aviews panel_0"]
    by (simp add: panel_0_def fresh_access_def)
  then show ?thesis unfolding access_reachable_def by blast
qed

lemma panel_1_step: "create_user panel_env [1, 2] ''root'' ''admin'' (Some ''correct horse'') None panel_0
    = Inr (sample_admin, panel_1)"
  by code_simp

lemma panel_1_reachable: "access_reachable panel_env panel_1"
  by (rule access_reachable_step [OF panel_0_reachable t_create_user [OF panel_1_step]])

lemma panel_2_step: "create_role ''ops'' ''Operations'' (Some (1, ''admin'')) panel_1 = Inr panel_2"
  by code_simp

lemma panel_2_reachable: "access_reachable panel_env panel_2"
  by (rule access_reachable_step [OF panel_1_reachable t_create_role [OF panel_2_step]])

lemma panel_3_step: "create_user panel_env [3] ''bob'' ''ops'' (Some ''battery staple'') (Some (1, ''admin'')) panel_2
    = Inr (sample_bob, panel_3)"
  by code_simp

lemma panel_3_reachable: "access_reachable panel_env panel_3"
  by (rule access_reachable_step [OF panel_2_reachable t_create_user [OF panel_3_step]])

lemma panel_4_step: "add_grant panel_env True ''ops'' ''operation'' ''artifact.launch'' (Some 3) None panel_3
    = Inr (1, panel_4)"
  by code_simp

lemma panel_4_reachable: "access_reachable panel_env panel_4"
  by (rule access_reachable_step [OF panel_3_reachable t_add_grant [OF panel_4_step]])

lemma panel_5_step:
  "sign_in panel_env panel_ttls ''s1'' ''token1'' ''bob'' ''battery staple'' panel_4
     = Inr (Some (sample_session, ''token1''), panel_5)"
proof -
  have "authenticate_in panel_env ''bob'' ''battery staple'' panel_4 = Some sample_bob" by code_simp
  then show ?thesis
    by (simp add: sign_in_def sample_ttl_of insert_session_def Let_def panel_5_def sample_session_def)
      (simp add: panel_env_def sample_bob_def)
qed

lemma panel_5_reachable: "access_reachable panel_env panel_5"
  by (rule access_reachable_step [OF panel_4_reachable t_sign_in [OF panel_5_step]])

lemma panel_6_step:
  "create_launch panel_env panel_ttls (PyInt 2) ''l1'' ''tok'' ''code1'' (\<lambda>_. True) 2 sample_request panel_5
     = Inr (sample_launch, ''code1'', panel_6)"
proof -
  have "find_user panel_5 2 = Some sample_bob" by (simp add: find_user_def sample_admin_def sample_bob_def)
  moreover have "may_launch panel_5 sample_bob 3 (Some 7)"
    by (simp add: may_launch_def granted_iff scope_match_def sample_grant_def sample_bob_def)
  moreover have "new_launch panel_env ''l1'' ''tok'' ''code1'' 2 sample_request 3600 panel_5 = sample_launch"
    by (simp add: new_launch_def panel_env_def sample_request_def sample_launch_def EXCHANGE_TTL_SECONDS_def)
  moreover have "evict_ids ''l1'' 2 2 (panel_5\<lparr>launches := [sample_launch]\<rparr>) = []"
    by (simp add: evict_ids_def live_of_def newest_first_def)
  ultimately show ?thesis
    by (simp add: create_launch_def sample_ttl_of panel_cap Let_def panel_6_def)
      (simp add: sample_request_def table_simps)
qed

lemma panel_6_reachable: "access_reachable panel_env panel_6"
  by (rule access_reachable_step [OF panel_5_reachable t_create_launch [OF panel_6_step]])

lemma panel_7_step:
  "redeem panel_env ''cookie'' ''l1'' ''code1'' panel_6 = (Some (sample_redeemed, ''cookie''), panel_7)"
proof -
  have "redeemable panel_env ''l1'' ''code1'' panel_6 sample_launch"
    by (simp add: redeemable_def live_def active_owner_def) (simp add: sample_launch_def sample_bob_def panel_env_def)
  moreover have "sample_launch\<lparr>l_redeemed := Some 1000, l_hash := ae_hash panel_env ''cookie''\<rparr> = sample_redeemed"
    "sample_redeemed \<noteq> sample_launch" "l_id sample_redeemed = ''l1''"
    by (simp_all add: panel_env_def row_defs)
  ultimately show ?thesis
    by (simp add: redeem_def Let_def changed_def table_simps panel_6_def panel_7_def)
qed

lemma panel_7_reachable: "access_reachable panel_env panel_7"
  by (rule access_reachable_step [OF panel_6_reachable t_redeem [OF panel_7_step]])

end
