(* ===== verification/Access_Properties.thy ===== *)
theory Access_Properties
  imports Access_Samples
begin

text \<open>
  What the accounts, sessions and launches promise: who may hold a session or a launch at any
  time, what a demotion, a deactivation and a removed grant end, the cap on live launches, the
  single use of an exchange code, and who may make an admin or pass a panel leaf on.
\<close>

text \<open>
  C32. The access tables stay well formed through any sequence of transactions: user ids and names
  are unique and every user has a role that exists; role codes and labels are unique and the
  built-in roles are there; no grant is stored twice, every grant belongs to a role that exists,
  and it is either a panel leaf without a scope or an operation or a declared tool in one scope.
\<close>

theorem access_tables_well_formed:
  assumes "access_reachable env d"
  shows "users_ok d \<and> roles_ok d \<and> grants_ok env d"
  using user_table.holds role_table.holds grant_table.holds assms by blast

theorem access_tables_well_formed_witness: "users_ok panel_7 \<and> roles_ok panel_7 \<and> grants_ok panel_env panel_7"
  by (rule access_tables_well_formed [OF panel_7_reachable])

text \<open>
  C26. At any time, the user of every launch that is not revoked is active and is an admin or has,
  by a grant of his present role, \<open>artifact.launch\<close> in the scope of the launch.
\<close>

theorem live_launches_are_authorized:
  assumes "access_reachable env d" and "l \<in> set (launches d)" "l_revoked l = None"
  shows "\<exists>u \<in> set (users d). w_id u = l_user l \<and> w_active u
    \<and> (w_role u = ''admin'' \<or> has_operation (w_role u) ''artifact.launch'' (Some (l_workspace l)) (l_view l) d)"
proof -
  have "authorized d l" using launch_table.holds [OF assms(1)] assms(2,3) by (simp add: launches_ok_def)
  then show ?thesis
    by (auto simp: authorized_def may_launch_def find_user_def dest!: find_SomeD)
qed

theorem live_launches_are_authorized_witness:
  "\<exists>u \<in> set (users panel_6). w_id u = 2 \<and> w_active u
    \<and> (w_role u = ''admin'' \<or> has_operation (w_role u) ''artifact.launch'' (Some 3) (Some 7) panel_6)"
  using live_launches_are_authorized [OF panel_6_reachable, of sample_launch]
  by (simp add: sample_launch_def)

text \<open>
  C25. A file of a miniapp is served only for a launch of that version that was redeemed, is not
  revoked and has not expired, and whose user may launch in its scope now, by his present role.
\<close>

theorem served_files_are_authorized:
  assumes "access_reachable env d" and "authorize_files env tokens code version d"
  shows "\<exists>l \<in> set (launches d). \<exists>t \<in> set tokens. \<exists>u \<in> set (users d).
    l_hash l = ae_hash env t \<and> l_code l = code \<and> l_version l = version \<and> l_redeemed l \<noteq> None
    \<and> live d l \<and> w_id u = l_user l \<and> may_launch d u (l_workspace l) (l_view l)"
proof -
  obtain l t where l: "l \<in> set (launches d)" "t \<in> set tokens" "l_hash l = ae_hash env t" "l_code l = code"
    "l_version l = version" "l_redeemed l \<noteq> None" "live d l"
    using assms(2) by (auto simp: authorize_files_def Let_def dest!: in_set_takeD)
  have "authorized d l"
    using launch_table.holds [OF assms(1)] l(1,7) by (simp add: launches_ok_def live_def)
  then obtain u where "u \<in> set (users d)" "w_id u = l_user l" "may_launch d u (l_workspace l) (l_view l)"
    by (auto simp: authorized_def find_user_def dest!: find_SomeD)
  with l show ?thesis by blast
qed

lemma sample_served: "authorize_files panel_env [''cookie''] ''map'' ''v1'' panel_7"
  by (simp add: authorize_files_def MAX_CONCURRENT_CEILING_def live_def active_owner_def)
    (simp add: row_defs panel_env_def)

theorem served_files_are_authorized_witness:
  "\<exists>l \<in> set (launches panel_7). \<exists>t \<in> set [''cookie'']. \<exists>u \<in> set (users panel_7).
    l_hash l = ae_hash panel_env t \<and> l_code l = ''map'' \<and> l_version l = ''v1'' \<and> l_redeemed l \<noteq> None
    \<and> live panel_7 l \<and> w_id u = l_user l \<and> may_launch panel_7 u (l_workspace l) (l_view l)"
  by (rule served_files_are_authorized [OF panel_7_reachable sample_served])

definition panel_8 :: access where
  "panel_8 = projr (update_user panel_env [] 2 None (Some False) None (Some (1, ''admin'')) panel_7)"

lemma panel_8_step:
  "update_user panel_env [] 2 None (Some False) None (Some (1, ''admin'')) panel_7 = Inr panel_8"
  by (simp add: panel_8_def update_user_def hash_of_def check_actor_def find_user_def Let_def)
    (simp add: row_defs)


text \<open>
  C33. An exchange code works once: after a redemption that succeeded, no later redemption of that
  launch, with any code, succeeds.
\<close>

theorem redeem_is_single_use:
  assumes "access_reachable env d" and r: "redeem env t li c d = (Some x, d')"
    and steps: "rtranclp (access_step env) d' d''"
  shows "fst (redeem env t' li c' d'') = None"
proof -
  let ?p = "\<lambda>l. c \<noteq> [] \<and> redeemable env li c d l"
  let ?f = "\<lambda>l. l\<lparr>l_redeemed := Some (clock d), l_hash := ae_hash env t\<rparr>"
  have d': "launches d' = update_where ?p ?f (launches d)"
    using redeem_effect [OF r] by simp
  have "changed (redeemable env li c d) ?f (launches d) = 1" "c \<noteq> []"
    using r by (auto simp: redeem_def Let_def split: if_splits)
  then obtain l where l: "l \<in> set (launches d)" "redeemable env li c d l"
    by (auto simp: changed_def dest!: length_pos_if_in_set) (metis (no_types, lifting) One_nat_def
        filter_empty_conv length_0_conv zero_neq_one)
  have k: "?f l \<in> set (launches d')"
    unfolding d' in_update_where using l \<open>c \<noteq> []\<close> by (intro bexI [of _ l]) auto
  have "rtranclp (access_step env) d d''"
    by (rule converse_rtranclp_into_rtranclp [OF t_redeem [OF r] steps])
  then have ids: "distinct (map l_id (launches d''))"
    using cap_table.steps cap_table.holds [OF assms(1)] by (auto simp: launches_capped_def)
  have "\<not> redeemable env li c' d'' l'" if l': "l' \<in> set (launches d'')" for l'
  proof
    assume a: "redeemable env li c' d'' l'"
    have "later_launch (?f l) l'"
      by (rule launch_kept_id [OF launch_progress.later [OF steps] k ids l'])
        (use a l(2) in \<open>simp add: redeemable_def\<close>)
    with a show False by (simp add: later_launch_def redeemable_def)
  qed
  then have "filter (\<lambda>r. redeemable env li c' d'' r \<and> g r \<noteq> r) (launches d'') = []" for g
    by (simp add: filter_empty_conv)
  then show ?thesis by (simp add: redeem_def Let_def changed_def)
qed

theorem redeem_is_single_use_witness: "fst (redeem panel_env ''other'' ''l1'' ''code1'' panel_7) = None"
  by (rule redeem_is_single_use [OF panel_6_reachable panel_7_step rtranclp.rtrancl_refl])

text \<open>
  A new launch leaves its user with at most the configured number of live launches (20 at
  most), is itself kept, and ends no launch of anybody else; it lives twelve hours at most.
\<close>

theorem create_launch_keeps_the_cap:
  assumes "access_reachable env d" and c: "create_launch env cfg raw li t c auth i q d = Inr (l, x, d')"
    and cap: "max_concurrent raw = Some cap"
  shows "length (live_of i d') \<le> cap \<and> cap \<le> 20 \<and> l \<in> set (launches d') \<and> l_revoked l = None
    \<and> l_expires l \<le> clock d' + 43200 \<and> (\<forall>j. j \<noteq> i \<longrightarrow> live_of j d' = live_of j d)"
proof -
  have "launches_capped d" by (rule cap_table.holds [OF assms(1)])
  note h = cap_holds [OF this c cap]
  have "clock d' = clock d \<and> l_revoked l = None"
    by (rule create_launch_effect [OF c]) (simp add: new_launch_def)
  with h create_launch_ttl [OF c] max_concurrent_bounds [OF cap] show ?thesis
    by (auto simp: MAX_CONCURRENT_CEILING_def)
qed

theorem create_launch_keeps_the_cap_witness:
  "length (live_of 2 panel_6) \<le> 2 \<and> sample_launch \<in> set (launches panel_6)
    \<and> l_expires sample_launch \<le> clock panel_6 + 43200 \<and> live_of 1 panel_6 = live_of 1 panel_5"
  using create_launch_keeps_the_cap [OF panel_5_reachable panel_6_step panel_cap] by auto

lemma filter_update_untouched:
  "\<forall>v \<in> set vs. p v \<longrightarrow> \<not> q v \<and> \<not> q (f v) \<Longrightarrow> filter q (update_where p f vs) = filter q vs"
  by (induction vs) (auto simp: table_simps)

text \<open>
  Only an admin makes or changes an admin: a request whose actor holds another role leaves
  the list of admin accounts as it was, and no request of an actor goes through unless he is
  stored as active with the role that his session showed.
\<close>

theorem only_admins_touch_admins:
  assumes "(\<exists>u salt n p c. create_user env salt n c p (Some (j, r)) d = Inr (u, d'))
      \<or> (\<exists>salt i c a p. update_user env salt i c a p (Some (j, r)) d = Inr d')"
    and "access_reachable env d"
  shows "(\<exists>v \<in> set (users d). w_id v = j \<and> w_role v = r \<and> w_active v)
    \<and> (r \<noteq> ''admin'' \<longrightarrow>
        filter (\<lambda>v. w_role v = ''admin'') (users d') = filter (\<lambda>v. w_role v = ''admin'') (users d))"
proof -
  have stored: "\<exists>v \<in> set (users d). w_id v = j \<and> w_role v = r \<and> w_active v"
    if "check_actor d (Some (j, r))"
    using that by (auto simp: check_actor_def find_user_def split: option.splits dest!: find_SomeD)
  from assms(1) show ?thesis
  proof (elim disjE exE)
    fix u salt n p c assume c: "create_user env salt n c p (Some (j, r)) d = Inr (u, d')"
    note e = create_user_effect [OF c]
    then show ?thesis using stored by (auto simp: admin_only_def)
  next
    fix salt i c a p assume c: "update_user env salt i c a p (Some (j, r)) d = Inr d'"
    obtain h u where f: "check_actor d (Some (j, r))" "find_user d i = Some u"
      and g: "w_role u = ''admin'' \<or> c = Some ''admin'' \<Longrightarrow> admin_only (Some (j, r))"
      and us: "users d' = update_where (\<lambda>u. w_id u = i) (edited_user c a h) (users d)"
      by (rule update_user_effect [OF c]) (rule that, assumption+)
    have u: "u \<in> set (users d)" "w_id u = i" using f(2) by (auto simp: find_user_def dest!: find_SomeD)
    have "users_ok d" by (rule user_table.holds [OF assms(2)])
    then have i: "v = u" if "v \<in> set (users d)" "w_id v = i" for v
      using distinct_key_eq [of w_id "users d" v u] u that by (simp add: users_ok_def)
    have "filter (\<lambda>v. w_role v = ''admin'') (users d') = filter (\<lambda>v. w_role v = ''admin'') (users d)"
      if "r \<noteq> ''admin''"
    proof -
      have "w_role u \<noteq> ''admin''" "c \<noteq> Some ''admin''" using g that by (auto simp: admin_only_def)
      then have "\<forall>v \<in> set (users d). w_id v = i \<longrightarrow> w_role v \<noteq> ''admin'' \<and> w_role (edited_user c a h v) \<noteq> ''admin''"
        using i by (auto simp: edited_user_def split: option.splits)
      then show ?thesis unfolding us by (rule filter_update_untouched)
    qed
    with stored f(1) show ?thesis by blast
  qed
qed

definition panel_bob_off :: access where
  "panel_bob_off = projr (update_user panel_env [] 2 None (Some False) None (Some (2, ''ops'')) panel_7)"

lemma panel_bob_off_step:
  "update_user panel_env [] 2 None (Some False) None (Some (2, ''ops'')) panel_7 = Inr panel_bob_off"
  by (simp add: panel_bob_off_def update_user_def hash_of_def check_actor_def find_user_def Let_def)
    (simp add: row_defs)

theorem only_admins_touch_admins_witness:
  "filter (\<lambda>v. w_role v = ''admin'') (users panel_bob_off) = filter (\<lambda>v. w_role v = ''admin'') (users panel_7)"
  using only_admins_touch_admins [of panel_env 2 "''ops''" panel_7 panel_bob_off]
    panel_bob_off_step panel_7_reachable by blast

text \<open>
  A user signs in with the password he was made with and with no other: after
  \<open>create_user\<close>, the name and a password authenticate exactly when the password passes the
  policy and scrypt gives the same digest under the stored salt.
\<close>

theorem password_round_trip:
  assumes "access_reachable env d" and c: "create_user env salt n r (Some p) actor d = Inr (u, d')"
    and bytes: "\<And>q. \<forall>b \<in> set (ae_derive env q salt). b < 256" "\<forall>b \<in> set salt. b < 256"
  shows "authenticate_in env n q d'
    = (if password_policy q \<and> ae_derive env q salt = ae_derive env p salt then Some u else None)"
proof -
  note e = create_user_effect [OF c]
  have name: "username_ok n" using c by (auto simp: create_user_def split: if_splits)
  obtain h where h: "hash_password (ae_derive env) salt p = Some h" "w_hash u = Some h"
    using e(10) by (auto simp: hash_of_def split: option.splits)
  have "find (\<lambda>v. w_name v = n) (users d') = Some u"
    using e(7,8) by (auto simp: e(1) find_append find_None_iff image_iff split: option.splits dest!: find_SomeD)
  moreover have "verify_password (ae_derive env) q (Some h)
      \<longleftrightarrow> password_policy q \<and> ae_derive env q salt = ae_derive env p salt"
    by (rule verify_hashed [OF bytes(2) bytes(1) h(1)])
  ultimately show ?thesis
    using name e(9) h(2) by (auto simp: authenticate_in_def Let_def)
qed

lemma sample_bytes: "\<forall>b \<in> set (ae_derive panel_env q [3]). b < 256"
  by (auto simp: panel_env_def)

theorem password_round_trip_witness:
  "authenticate_in panel_env ''bob'' ''battery staple'' panel_3 = Some sample_bob
    \<and> authenticate_in panel_env ''bob'' ''another secret'' panel_3 = None"
  using password_round_trip [OF panel_2_reachable panel_3_step sample_bytes, of "''battery staple''"]
    password_round_trip [OF panel_2_reachable panel_3_step sample_bytes, of "''another secret''"]
  by (simp add: password_policy_def MIN_PASSWORD_def MAX_PASSWORD_def panel_env_def)

text \<open>
  Setting the grants of a role in one scope: the pairs it then has there are the requested
  ones that the role does not inherit, with those stored before that were requested again, are
  inherited, or belong to a kind the form does not manage; every grant of another role or scope
  stays.
\<close>

theorem set_role_grants_result:
  assumes s: "set_role_grants env got r ws av ts os actor d = Inr (n, d')"
    and ok: "access_reachable env d" and inh: "inherited_grants r av d = Inr inherited"
  shows "kn ` {g \<in> set (grants d'). at_scope r ws av g}
      = (let want = set (map (Pair ''tool'') ts @ map (Pair ''operation'') os);
             managed = Pair ''operation'' ` set (if ws = None \<and> av = None
                 then acl_resources (ae_acl env) else map fst (acl_operations (ae_acl env)))
               \<union> (if ws = None \<and> av = None then {} else Pair ''tool'' ` set (ae_enabled env)) in
         {k \<in> kn ` {g \<in> set (grants d). at_scope r ws av g}. k \<in> want \<or> k \<in> inherited \<or> k \<notin> managed}
         \<union> (want - inherited))
    \<and> {g \<in> set (grants d'). \<not> at_scope r ws av g} = {g \<in> set (grants d). \<not> at_scope r ws av g}"
proof -
  let ?want = "set (map (Pair ''tool'') ts @ map (Pair ''operation'') os)"
  let ?managed = "Pair ''operation'' ` set (if ws = None \<and> av = None
       then acl_resources (ae_acl env) else map fst (acl_operations (ae_acl env)))
     \<union> (if ws = None \<and> av = None then {} else Pair ''tool'' ` set (ae_enabled env))"
  obtain add and gone :: "grant_row list" where
      add: "add = filter (\<lambda>k. k \<notin> kn ` set (filter (at_scope r ws av) (grants d)) \<and> k \<notin> inherited)
        (sort (remdups (map (Pair ''tool'') ts @ map (Pair ''operation'') os)))"
    and gone: "gone = filter (\<lambda>g. kn g \<notin> ?want \<and> kn g \<notin> inherited \<and> kn g \<in> ?managed)
        (filter (at_scope r ws av) (grants d))"
    and d': "d' = add_grants r ws av add (if gone = [] then d else revoke_role_launches r ws av
       (d\<lparr>grants := filter (\<lambda>g. g_id g \<notin> g_id ` set gone) (grants d)\<rparr>))"
  proof (rule set_role_grants_effect [OF s])
    fix a g i assume "inherited_grants r av d = Inr i"
    with inh have "i = inherited" by simp
    assume "a = filter (\<lambda>k. k \<notin> kn ` set (filter (at_scope r ws av) (grants d)) \<and> k \<notin> i)
        (sort (remdups (map (Pair ''tool'') ts @ map (Pair ''operation'') os)))"
      "g = filter (\<lambda>g. kn g \<notin> ?want \<and> kn g \<notin> i \<and> kn g \<in> ?managed) (filter (at_scope r ws av) (grants d))"
      "d' = add_grants r ws av a (if g = [] then d else revoke_role_launches r ws av
         (d\<lparr>grants := filter (\<lambda>x. g_id x \<notin> g_id ` set g) (grants d)\<rparr>))"
    then show thesis unfolding \<open>i = inherited\<close> by (rule that)
  qed
  define W where "W = ?want"
  define M where "M = ?managed"
  note gone = gone [folded W_def M_def]
  have ids: "distinct (map g_id (grants d))"
    using grant_table.holds [OF ok] by (simp add: grants_ok_def)
  have same_id: "g_id g \<notin> g_id ` set gone \<longleftrightarrow> g \<notin> set gone" if "g \<in> set (grants d)" for g
    using distinct_key_eq [OF ids that] by (auto simp: gone)
  have gs: "set (grants d') = {g \<in> set (grants d). g \<notin> set gone} \<union> set (grants_made r ws av (next_grant d) add)"
    using same_id by (auto simp: d' add_grants_eq revoke_role_launches_def)
  have made: "kn ` set (grants_made r ws av (next_grant d) add) = set add"
    using grants_made_kn [of r ws av "next_grant d" add] by (metis list.set_map)
  have made_at: "\<forall>g \<in> set (grants_made r ws av (next_grant d) add). at_scope r ws av g"
    using in_grants_made by (fastforce simp: at_scope_def)
  have added: "set add = W - inherited - kn ` {g \<in> set (grants d). at_scope r ws av g}"
    unfolding add W_def by auto
  have here: "{g \<in> set (grants d'). at_scope r ws av g} = {g \<in> set (grants d). at_scope r ws av g
      \<and> (kn g \<in> W \<or> kn g \<in> inherited \<or> kn g \<notin> M)} \<union> set (grants_made r ws av (next_grant d) add)"
    unfolding gs gone using made_at by auto
  have "kn ` {g \<in> set (grants d'). at_scope r ws av g}
      = {k \<in> kn ` {g \<in> set (grants d). at_scope r ws av g}. k \<in> W \<or> k \<in> inherited \<or> k \<notin> M}
        \<union> (W - inherited)"
    unfolding here image_Un made added by blast
  moreover have "{g \<in> set (grants d'). \<not> at_scope r ws av g} = {g \<in> set (grants d). \<not> at_scope r ws av g}"
    unfolding gs gone using made_at by auto
  ultimately show ?thesis unfolding Let_def W_def M_def by (rule conjI)
qed

definition panel_9 :: access where
  "panel_9 = panel_4\<lparr>grants := [sample_grant, \<lparr>g_id = 2, g_role = ''ops'', g_kind = ''tool'',
     g_name = ''search'', g_workspace = Some 3, g_view = None\<rparr>], next_grant := 3\<rparr>"

lemma panel_9_step:
  "set_role_grants panel_env True ''ops'' (Some 3) None [''search''] [''artifact.launch''] (Some (1, ''admin'')) panel_4
     = Inr ((1, 0), panel_9)"
  by code_simp

theorem set_role_grants_result_witness:
  "kn ` {g \<in> set (grants panel_9). at_scope ''ops'' (Some 3) None g}
     = {(''tool'', ''search''), (''operation'', ''artifact.launch'')}"
proof -
  have inh: "inherited_grants ''ops'' None panel_4 = Inr {}" by (simp add: inherited_grants_def)
  have "kn ` {g \<in> set (grants panel_4). at_scope ''ops'' (Some 3) None g} = {(''operation'', ''artifact.launch'')}"
    by (simp add: panel_4_def at_scope_def sample_grant_def kn_def conj_commute cong: conj_cong)
  with set_role_grants_result [OF panel_9_step panel_4_reachable inh] show ?thesis
    by (auto simp: Let_def)
qed

text \<open>
  C35. Nobody who is not an admin passes on more panel access than his own role holds: in the
  panel scope, he adds to a role, and takes from it, only leaves that his role holds.
\<close>

theorem panel_grants_do_not_escalate:
  assumes s: "set_role_grants env got r None None ts os (Some (j, q)) d = Inr (n, d')" and "q \<noteq> ''admin''"
    and ok: "access_reachable env d"
  shows "held env r d' \<subseteq> held env r d \<union> held env q d \<and> held env r d - held env r d' \<subseteq> held env q d"
proof -
  obtain add and gone :: "grant_row list" where
      sub: "set gone \<subseteq> set (filter (at_scope r None None) (grants d))"
    and lim: "admin_only (Some (j, q)) \<or> snd ` set add \<union> g_name ` set gone \<subseteq> held env (snd (the (Some (j, q)))) d"
    and d': "d' = add_grants r None None add (if gone = [] then d else revoke_role_launches r None None
       (d\<lparr>grants := filter (\<lambda>g. g_id g \<notin> g_id ` set gone) (grants d)\<rparr>))"
  proof (rule set_role_grants_effect [OF s])
    fix a i and g :: "grant_row list"
    assume "set g \<subseteq> set (filter (at_scope r None None) (grants d))"
      and "(None :: nat option) = None \<Longrightarrow> (None :: nat option) = None \<Longrightarrow> admin_only (Some (j, q))
        \<or> snd ` set a \<union> g_name ` set g \<subseteq> held env (snd (the (Some (j, q)))) d"
      and "d' = add_grants r None None a (if g = [] then d else revoke_role_launches r None None
       (d\<lparr>grants := filter (\<lambda>x. g_id x \<notin> g_id ` set g) (grants d)\<rparr>))"
    then show thesis by (intro that [of g a]) simp_all
  qed
  from lim assms(2) have lim: "snd ` set add \<union> g_name ` set gone \<subseteq> held env q d" by (simp add: admin_only_def)
  have gs: "set (grants d') = {g \<in> set (grants d). g_id g \<notin> g_id ` set gone} \<union> set (grants_made r None None (next_grant d) add)"
    by (auto simp: d' add_grants_eq revoke_role_launches_def)
  have made: "g_name g \<in> held env q d" if "g \<in> set (grants_made r None None (next_grant d) add)" for g
  proof -
    have "snd (kn g) \<in> snd ` set add" using in_grants_made [OF that] by blast
    with lim show ?thesis by (auto simp: kn_def)
  qed
  have "held env r d' \<subseteq> held env r d \<union> held env q d"
    unfolding held_def [of env r] set_filter gs using made by blast
  moreover have "held env r d - held env r d' \<subseteq> held env q d"
  proof
    fix x assume x: "x \<in> held env r d - held env r d'"
    then obtain g where g: "g \<in> set (grants d)" "g \<notin> set (grants d')" "x = g_name g"
      by (auto simp: held_def)
    then obtain h where h: "h \<in> set gone" "g_id g = g_id h" unfolding gs by auto
    have "distinct (map g_id (grants d))" using grant_table.holds [OF ok] by (simp add: grants_ok_def)
    then have "g = h" by (rule distinct_key_eq [OF _ g(1)]) (use sub h in auto)
    with h(1) g(3) lim show "x \<in> held env q d" by blast
  qed
  ultimately show ?thesis by blast
qed

definition panel_a :: access where
  "panel_a = panel_4\<lparr>grants := [sample_grant, \<lparr>g_id = 2, g_role = ''ops'', g_kind = ''operation'',
     g_name = ''users'', g_workspace = None, g_view = None\<rparr>], next_grant := 3\<rparr>"

definition panel_b :: access where
  "panel_b = panel_a\<lparr>grants := grants panel_a @ [\<lparr>g_id = 3, g_role = ''user'', g_kind = ''operation'',
     g_name = ''users'', g_workspace = None, g_view = None\<rparr>], next_grant := 4\<rparr>"

lemma panel_a_reachable: "access_reachable panel_env panel_a"
proof -
  have "add_grant panel_env True ''ops'' ''operation'' ''users'' None None panel_4 = Inr (2, panel_a)" by code_simp
  then show ?thesis by (rule access_reachable_step [OF panel_4_reachable t_add_grant])
qed

lemma panel_b_step:
  "set_role_grants panel_env True ''user'' None None [] [''users''] (Some (2, ''ops'')) panel_a
     = Inr ((1, 0), panel_b)"
  by code_simp

theorem panel_grants_do_not_escalate_witness:
  "held panel_env ''user'' panel_b \<subseteq> held panel_env ''user'' panel_a \<union> held panel_env ''ops'' panel_a"
  using panel_grants_do_not_escalate [OF panel_b_step _ panel_a_reachable] by simp

end
