(* ===== verification/Access_Panel.thy ===== *)
theory Access_Panel
  imports Access_Launches
begin

text \<open>
  The reads of \<open>access/accounts.py\<close> that the panel's user and role pages show, its single-field
  updates, and the sessions of tests and tooling with their CSRF tokens.
\<close>

definition get_user :: "nat \<Rightarrow> access \<Rightarrow> user_row option" where
  "get_user i d = find_user d i"

definition list_users :: "access \<Rightarrow> user_row list" where
  "list_users d = sort_key w_name (users d)"

definition set_role :: "access_env \<Rightarrow> nat \<Rightarrow> string \<Rightarrow> actor \<Rightarrow> access \<Rightarrow> access_error + access" where
  "set_role env i role actor d = update_user env [] i (Some role) None None actor d"

definition set_active :: "access_env \<Rightarrow> nat \<Rightarrow> bool \<Rightarrow> actor \<Rightarrow> access \<Rightarrow> access_error + access" where
  "set_active env i active actor d = update_user env [] i None (Some active) None actor d"

definition set_password ::
    "access_env \<Rightarrow> nat list \<Rightarrow> nat \<Rightarrow> string \<Rightarrow> actor \<Rightarrow> access \<Rightarrow> access_error + access" where
  "set_password env salt i password actor d = update_user env salt i None None (Some password) actor d"

definition create_session ::
    "access_env \<Rightarrow> auth_config \<Rightarrow> string \<Rightarrow> string \<Rightarrow> user_row \<Rightarrow> access
      \<Rightarrow> access_error + (session_row \<times> string \<times> access)" where
  "create_session env cfg session_id token u d =
     (case ttl_of cfg None ''session_max_ttl'' of None \<Rightarrow> Inl AuthTtlError
      | Some ttl \<Rightarrow> insert_session env session_id token u ttl d)"

text \<open>\<open>mac\<close> is HMAC-SHA256 under the session token.\<close>

definition csrf_token :: "(string \<Rightarrow> string \<Rightarrow> string) \<Rightarrow> string \<Rightarrow> string" where
  "csrf_token mac token = mac token ''agento-csrf''"

definition csrf_valid :: "(string \<Rightarrow> string \<Rightarrow> string) \<Rightarrow> string \<Rightarrow> string option \<Rightarrow> bool" where
  "csrf_valid mac token presented \<longleftrightarrow> truthy presented \<and> csrf_token mac token = the presented"

section \<open>Roles and their scopes\<close>

text \<open>The rows a role page counts: one scope, or none for a panel operation.\<close>

definition counted :: "grant_row \<Rightarrow> bool" where
  "counted g \<longleftrightarrow> (g_workspace g = None) \<noteq> (g_view g = None)
     \<or> (g_workspace g = None \<and> g_view g = None \<and> g_kind g = ''operation'')"

definition counted_grants :: "string \<Rightarrow> access \<Rightarrow> grant_row list" where
  "counted_grants role d = filter (\<lambda>g. g_role g = role \<and> counted g) (grants d)"

text \<open>\<open>COUNT(DISTINCT workspace_id) + COUNT(DISTINCT agent_view_id) + MAX(both NULL)\<close>.\<close>

definition scope_count :: "string \<Rightarrow> access \<Rightarrow> nat" where
  "scope_count role d =
     length (remdups (List.map_filter g_workspace (counted_grants role d)))
     + length (remdups (List.map_filter g_view (counted_grants role d)))
     + (if \<exists>g \<in> set (counted_grants role d). g_workspace g = None \<and> g_view g = None then 1 else 0)"

record role_page =
  rp_code :: string
  rp_label :: string
  rp_builtin :: bool
  rp_users :: nat
  rp_scopes :: nat

definition list_roles :: "access \<Rightarrow> role_page list" where
  "list_roles d = map (\<lambda>(code, label). \<lparr>rp_code = code, rp_label = label,
       rp_builtin = (code \<in> set BUILTIN_ROLES),
       rp_users = length (filter (\<lambda>u. w_role u = code) (users d)),
       rp_scopes = scope_count code d\<rparr>) (sort_key snd (roles d))"

text \<open>A NULL id sorts first.\<close>

definition role_scopes :: "string \<Rightarrow> access \<Rightarrow> (nat option \<times> nat option \<times> nat \<times> nat) list" where
  "role_scopes role d =
     map (\<lambda>(ws, av). let gs = filter (\<lambda>g. g_workspace g = ws \<and> g_view g = av) (counted_grants role d) in
            (ws, av, length (filter (\<lambda>g. g_kind g = ''tool'') gs),
             length (filter (\<lambda>g. g_kind g = ''operation'') gs)))
       (sort (remdups (map (\<lambda>g. (g_workspace g, g_view g)) (counted_grants role d))))"

definition list_grants :: "string option \<Rightarrow> access \<Rightarrow> grant_row list" where
  "list_grants role d = sort_key (\<lambda>g. (g_role g, g_kind g, g_name g, g_id g))
     (filter (\<lambda>g. case role of None \<Rightarrow> True | Some r \<Rightarrow> g_role g = r) (grants d))"

section \<open>The two counts agree\<close>

text \<open>A set of scopes splits into workspaces, views and the panel.\<close>

lemma card_scopes:
  fixes S :: "(nat option \<times> nat option) set"
  assumes "finite S" and "\<And>a b. (a, b) \<in> S \<Longrightarrow> a = None \<or> b = None"
  shows "card S = card {a. (Some a, None) \<in> S} + card {b. (None, Some b) \<in> S}
    + (if (None, None) \<in> S then 1 else 0)"
proof -
  let ?W = "(\<lambda>a. (Some a, None :: nat option)) ` {a. (Some a, None) \<in> S}"
  let ?V = "(\<lambda>b. (None :: nat option, Some b)) ` {b. (None, Some b) \<in> S}"
  let ?P = "if (None, None) \<in> S then {(None :: nat option, None :: nat option)} else {}"
  have S: "S = ?W \<union> ?V \<union> ?P"
  proof (intro set_eqI)
    fix x :: "nat option \<times> nat option"
    show "x \<in> S \<longleftrightarrow> x \<in> ?W \<union> ?V \<union> ?P"
      using assms(2) [of "fst x" "snd x"] by (cases x; cases "fst x"; cases "snd x") auto
  qed
  have fin: "finite ?W" by (rule finite_subset [OF _ assms(1)]) auto
  have fin2: "finite ?V" by (rule finite_subset [OF _ assms(1)]) auto
  note fin = fin fin2
  have "card (?W \<union> ?V \<union> ?P) = card ?W + card ?V + card ?P"
    by (subst card_Un_disjoint, (use fin in auto)[3], subst card_Un_disjoint) (use fin in auto)
  moreover have "card ?W = card {a. (Some a, None) \<in> S}" "card ?V = card {b. (None, Some b) \<in> S}"
    by (rule card_image, simp add: inj_on_def)+
  ultimately show ?thesis by (subst S) auto
qed

lemma set_map_filter: "set (List.map_filter f xs) = {y. \<exists>x \<in> set xs. f x = Some y}"
  by (auto simp: List.map_filter_def image_iff) (metis option.sel option.discI)

lemma map_filter_scopes:
  assumes "\<And>g. g \<in> set gs \<Longrightarrow> f g \<noteq> None \<Longrightarrow> h g = None"
  shows "y \<in> set (List.map_filter f gs) \<longleftrightarrow> (\<exists>g \<in> set gs. f g = Some y \<and> h g = None)"
    "y \<in> set (List.map_filter f gs) \<longleftrightarrow> (\<exists>g \<in> set gs. h g = None \<and> f g = Some y)"
  using assms by (auto simp: set_map_filter)

text \<open>
  The role page and the role list agree: the number of scopes the list shows for a role,
  three counts in SQL, is the number of scopes its page has.
\<close>

theorem scope_count_is_page_length: "scope_count role d = length (role_scopes role d)"
proof -
  let ?gs = "counted_grants role d"
  let ?S = "set (map (\<lambda>g. (g_workspace g, g_view g)) ?gs)"
  have one: "a = None \<or> b = None" if "(a, b) \<in> ?S" for a b
    using that by (auto simp: counted_grants_def counted_def)
  have one': "g_workspace g = None \<or> g_view g = None" if "g \<in> set ?gs" for g
    using one that by simp
  have in_W: "(Some a, None) \<in> ?S \<longleftrightarrow> (\<exists>g \<in> set ?gs. g_workspace g = Some a \<and> g_view g = None)"
    and in_V: "(None, Some b) \<in> ?S \<longleftrightarrow> (\<exists>g \<in> set ?gs. g_workspace g = None \<and> g_view g = Some b)" for a b
    unfolding set_map image_iff by (rule bex_cong [OF HOL.refl], (auto)[1])+
  have w: "g_view g = None" if "g \<in> set ?gs" "g_workspace g \<noteq> None" for g using one' [OF that(1)] that(2) by simp
  have v: "g_workspace g = None" if "g \<in> set ?gs" "g_view g \<noteq> None" for g using one' [OF that(1)] that(2) by simp
  have W: "set (List.map_filter g_workspace ?gs) = {a. (Some a, None) \<in> ?S}"
    by (rule set_eqI) (unfold mem_Collect_eq in_W, rule map_filter_scopes(1), rule w)
  have V: "set (List.map_filter g_view ?gs) = {b. (None, Some b) \<in> ?S}"
    by (rule set_eqI) (unfold mem_Collect_eq in_V, rule map_filter_scopes(2), rule v)
  have P: "(None, None) \<in> ?S \<longleftrightarrow> (\<exists>g \<in> set ?gs. g_workspace g = None \<and> g_view g = None)"
    unfolding set_map image_iff by (rule bex_cong [OF HOL.refl]) auto
  have "length (role_scopes role d) = card ?S"
    by (simp add: role_scopes_def length_remdups_card_conv)
  also have "\<dots> = card {a. (Some a, None) \<in> ?S} + card {b. (None, Some b) \<in> ?S}
      + (if (None, None) \<in> ?S then 1 else 0)"
    by (rule card_scopes [OF finite_set one])
  also have "\<dots> = scope_count role d"
    unfolding scope_count_def length_remdups_card_conv W V P by (rule HOL.refl)
  finally show ?thesis by simp
qed

end
