(* ===== verification/Dependency_Resolver.thy ===== *)
theory Dependency_Resolver
  imports Agento_Prelude "HOL-Library.Multiset"
begin

text \<open>
  \<open>dependency_resolver.py\<close>: the load order of modules. Of a manifest only the name, the
  \<open>sequence\<close> (the modules it depends on) and the \<open>order\<close> matter here. A dict is the association
  list of its items in insertion order. The loops are total functions; the reference the order
  is proved equal to picks, again and again, the least module that is ready.
\<close>

section \<open>Manifests\<close>

record manifest =
  mf_name :: string
  mf_sequence :: "string list"
  mf_order :: int

type_synonym modules = "(string \<times> manifest) list"

datatype dependency_error = DisabledDependency string string | Cyclic "string list"

text \<open>\<open>{m.name: m for m in manifests}\<close>: a later manifest of the same name replaces the value.\<close>

definition by_name :: "manifest list \<Rightarrow> modules" where
  "by_name ms = fold (\<lambda>m d. dict_put (mf_name m, m) d) ms []"

definition seq_of :: "modules \<Rightarrow> string \<Rightarrow> string list" where
  "seq_of valid n = (case map_of valid n of None \<Rightarrow> [] | Some m \<Rightarrow> mf_sequence m)"

section \<open>\<open>validate_dependencies\<close>\<close>

text \<open>The first module and dependency that raise.\<close>

definition validate_dependencies :: "manifest list \<Rightarrow> manifest list \<Rightarrow> dependency_error option" where
  "validate_dependencies enabled all_scanned =
     (let enabled_names = mf_name ` set enabled; all_names = mf_name ` set all_scanned in
      map_option (\<lambda>(m, dep). DisabledDependency m dep)
        (find (\<lambda>(m, dep). dep \<in> all_names \<and> dep \<notin> enabled_names)
          (concat (map (\<lambda>m. map (Pair (mf_name m)) (mf_sequence m)) enabled))))"

section \<open>Modules whose dependencies are there\<close>

text \<open>
  One pass over \<open>remaining\<close>: a module with a dependency outside \<open>available - skipped\<close> is
  skipped, at once for the modules after it in the same pass.
\<close>

definition missing :: "string set \<Rightarrow> string set \<Rightarrow> manifest \<Rightarrow> string list" where
  "missing available skipped m = filter (\<lambda>dep. dep \<notin> available - skipped) (mf_sequence m)"

fun prune_pass :: "string set \<Rightarrow> modules \<Rightarrow> string set \<Rightarrow> modules \<times> string set" where
  "prune_pass available [] skipped = ([], skipped)"
| "prune_pass available ((n, m) # rest) skipped =
     (if missing available skipped m \<noteq> [] then prune_pass available rest (insert n skipped)
      else apfst (Cons (n, m)) (prune_pass available rest skipped))"

lemma length_prune_pass: "length (fst (prune_pass available rest skipped)) \<le> length rest"
  by (induction available rest skipped rule: prune_pass.induct) (simp_all add: le_SucI)

lemma prune_pass_shorter:
  "prune_pass available remaining skipped = (kept, skipped') \<Longrightarrow> length kept \<noteq> length remaining \<Longrightarrow>
    length kept < length remaining"
  using length_prune_pass [of available remaining skipped] by simp

function prune :: "string set \<Rightarrow> modules \<Rightarrow> string set \<Rightarrow> modules" where
  "prune available remaining skipped =
     (let (kept, skipped') = prune_pass available remaining skipped in
      if length kept = length remaining then kept else prune available kept skipped')"
  by pat_completeness auto

termination
proof (relation "measure (\<lambda>(a, remaining, s). length remaining)", goal_cases)
  case (2 available remaining skipped x kept skipped')
  then have "prune_pass available remaining skipped = (kept, skipped')" by simp
  then have "length kept < length remaining" using 2(3) by (rule prune_pass_shorter)
  then show ?case by simp
qed simp

declare prune.simps [simp del]

definition valid_modules :: "manifest list \<Rightarrow> modules" where
  "valid_modules ms = (let d = by_name ms in prune (fst ` set d) d {})"

section \<open>Kahn's algorithm\<close>

text \<open>\<open>dependents[dep]\<close>: a module once for each time it names \<open>dep\<close>, in the order of \<open>valid\<close>.\<close>

definition dependents :: "modules \<Rightarrow> string \<Rightarrow> string list" where
  "dependents valid dep = (if dep \<in> fst ` set valid
     then concat (map (\<lambda>(n, m). replicate (count_list (mf_sequence m) dep) n) valid) else [])"

definition in_degree :: "modules \<Rightarrow> string \<Rightarrow> int" where
  "in_degree valid n = int (length (filter (\<lambda>dep. dep \<in> fst ` set valid) (seq_of valid n)))"

text \<open>The sort key \<open>(order, name)\<close>.\<close>

definition queue_key :: "modules \<Rightarrow> string \<Rightarrow> int \<times> string" where
  "queue_key valid n = (case map_of valid n of None \<Rightarrow> (0, n) | Some m \<Rightarrow> (mf_order m, n))"

text \<open>The inner loop over the sorted dependents of the module that was placed.\<close>

fun relax :: "string list \<Rightarrow> (string \<Rightarrow> int) \<Rightarrow> string list \<Rightarrow> (string \<Rightarrow> int) \<times> string list" where
  "relax [] deg queue = (deg, queue)"
| "relax (dep # deps) deg queue =
     (let deg' = deg(dep := deg dep - 1) in
      relax deps deg' (if deg' dep = 0 then queue @ [dep] else queue))"

text \<open>Each time a module enters the queue its degree leaves the positive numbers, for good.\<close>

definition positive :: "modules \<Rightarrow> (string \<Rightarrow> int) \<Rightarrow> nat" where
  "positive valid deg = card {n \<in> fst ` set valid. 0 < deg n}"

lemma relax_measure:
  assumes "set deps \<subseteq> fst ` set valid"
  shows "length (snd (relax deps deg queue)) + positive valid (fst (relax deps deg queue))
    \<le> length queue + positive valid deg"
  using assms
proof (induction deps arbitrary: deg queue)
  case (Cons dep deps)
  let ?deg = "deg(dep := deg dep - 1)"
  let ?P = "\<lambda>g. {n \<in> fst ` set valid. (0 :: int) < g n}"
  have fin: "finite (?P g)" for g by simp
  have "?P ?deg \<subseteq> ?P deg" by auto
  then have le: "positive valid ?deg \<le> positive valid deg"
    unfolding positive_def by (rule card_mono [OF fin])
  have "positive valid ?deg < positive valid deg" if "?deg dep = 0"
    unfolding positive_def
  proof (rule psubset_card_mono [OF fin])
    have "dep \<in> ?P deg" "dep \<notin> ?P ?deg" using that Cons.prems by auto
    with \<open>?P ?deg \<subseteq> ?P deg\<close> show "?P ?deg \<subset> ?P deg" by blast
  qed
  moreover have "length (snd (relax deps ?deg queue')) + positive valid (fst (relax deps ?deg queue'))
      \<le> length queue' + positive valid ?deg" for queue' using Cons by simp
  note this [of "queue @ [dep]"] this [of queue]
  ultimately show ?case using le by (cases "?deg dep = 0") (simp_all add: Let_def)
qed simp

lemma dependents_valid: "set (dependents valid dep) \<subseteq> fst ` set valid"
  by (force simp: dependents_def)

lemma kahn_measure:
  assumes "relax (sort (dependents valid current)) deg queue = (deg', queue')"
  shows "length queue' + positive valid deg' < Suc (length queue + positive valid deg)"
  using relax_measure [of "sort (dependents valid current)" valid deg queue] dependents_valid [of valid current]
    assms by simp

function kahn :: "modules \<Rightarrow> string list \<Rightarrow> (string \<Rightarrow> int) \<Rightarrow> string list \<Rightarrow> string list" where
  "kahn valid [] deg result = result"
| "kahn valid (current # queue) deg result =
     (let (deg', queue') = relax (sort (dependents valid current)) deg queue in
      kahn valid (sort_key (queue_key valid) queue') deg' (result @ [current]))"
  by pat_completeness auto

termination
  by (relation "measure (\<lambda>(valid, queue, deg, r). length queue + positive valid deg)") (simp_all add: kahn_measure)

text \<open>One round of \<open>while queue\<close>, on the three variables the loop changes.\<close>

fun kahn_body :: "modules \<Rightarrow> string list \<times> (string \<Rightarrow> int) \<times> string list \<Rightarrow> string list \<times> (string \<Rightarrow> int) \<times> string list" where
  "kahn_body valid ([], deg, result) = ([], deg, result)"
| "kahn_body valid (current # queue, deg, result) =
     (let (deg', queue') = relax (sort (dependents valid current)) deg queue in
      (sort_key (queue_key valid) queue', deg', result @ [current]))"

definition start_queue :: "modules \<Rightarrow> string list" where
  "start_queue valid = sort_key (queue_key valid) (filter (\<lambda>n. in_degree valid n = 0) (map fst valid))"

text \<open>\<open>resolve_order\<close>.\<close>

definition resolve_order :: "manifest list \<Rightarrow> dependency_error + manifest list" where
  "resolve_order manifests =
     (let valid = valid_modules manifests in
      if valid = [] then Inr []
      else let result = kahn valid (start_queue valid) (in_degree valid) [] in
           if length result \<noteq> length valid
           then Inl (Cyclic (filter (\<lambda>n. n \<notin> set result) (map fst valid)))
           else Inr (map (\<lambda>n. the (map_of valid n)) result))"

section \<open>\<open>get_transitive_dependents\<close>\<close>

definition reverse_of :: "manifest list \<Rightarrow> string \<Rightarrow> string list" where
  "reverse_of ms dep = (if dep \<in> mf_name ` set ms
     then concat (map (\<lambda>m. replicate (count_list (mf_sequence m) dep) (mf_name m)) ms) else [])"

text \<open>A visit takes a name out of the unvisited ones or, once, a name nobody has.\<close>

lemma reverse_of_names: "set (reverse_of ms dep) \<subseteq> mf_name ` set ms"
  by (auto simp: reverse_of_def)

lemma bfs_measure:
  assumes "current \<notin> visited"
  shows "card (mf_name ` set ms \<union> set (queue @ reverse_of ms current) - insert current visited)
    < card (mf_name ` set ms \<union> set (current # queue) - visited)"
proof (rule psubset_card_mono)
  show "mf_name ` set ms \<union> set (queue @ reverse_of ms current) - insert current visited
      \<subset> mf_name ` set ms \<union> set (current # queue) - visited"
    using assms reverse_of_names [of ms current] by auto
qed simp

function bfs :: "manifest list \<Rightarrow> string list \<Rightarrow> string set \<Rightarrow> string set" where
  "bfs ms [] visited = visited"
| "bfs ms (current # queue) visited =
     (if current \<in> visited then bfs ms queue visited
      else bfs ms (queue @ reverse_of ms current) (insert current visited))"
  by pat_completeness auto

termination
proof (relation "measures [\<lambda>(ms, queue, visited). card (mf_name ` set ms \<union> set queue - visited),
    \<lambda>(ms, queue, visited). length queue]", goal_cases)
  case (2 ms current queue visited)
  then have "mf_name ` set ms \<union> set (current # queue) - visited = mf_name ` set ms \<union> set queue - visited" by auto
  then show ?case by simp
next
  case (3 ms current queue visited)
  then show ?case using bfs_measure [of current visited ms queue] by simp
qed simp

definition get_transitive_dependents :: "string \<Rightarrow> manifest list \<Rightarrow> string list" where
  "get_transitive_dependents module_name manifests =
     sorted_list_of_set (bfs manifests (reverse_of manifests module_name) {})"

section \<open>Lookup in a dict of modules\<close>

definition names :: "modules \<Rightarrow> string set" where
  "names d = fst ` set d"

definition dict_ok :: "modules \<Rightarrow> bool" where
  "dict_ok d \<longleftrightarrow> distinct (map fst d) \<and> (\<forall>(n, m) \<in> set d. mf_name m = n)"

lemma by_name_ok: "dict_ok (by_name ms)"
proof -
  have "dict_ok d \<Longrightarrow> dict_ok (fold (\<lambda>m d. dict_put (mf_name m, m) d) ms d)" for d
  proof (induction ms arbitrary: d)
    case (Cons m ms)
    then have "dict_ok (dict_put (mf_name m, m) d)"
      by (auto simp: dict_ok_def dict_put_distinct dest: dict_put_item)
    then show ?case using Cons.IH by simp
  qed simp
  from this [of "[]"] show ?thesis by (simp add: by_name_def dict_ok_def)
qed

lemma seq_of_item: "dict_ok valid \<Longrightarrow> (n, m) \<in> set valid \<Longrightarrow> seq_of valid n = mf_sequence m"
  by (simp add: seq_of_def dict_ok_def)

lemma in_names: "n \<in> names d \<longleftrightarrow> (\<exists>m. (n, m) \<in> set d)"
  by (force simp: names_def)

section \<open>The pruned dict\<close>

lemma missing_Nil: "missing available skipped m = [] \<longleftrightarrow> set (mf_sequence m) \<subseteq> available - skipped"
  by (auto simp: missing_def filter_empty_conv)

text \<open>What a pass takes out goes to \<open>skipped\<close>; it keeps the order, and a pass that takes nothing
  out has seen every module with its dependencies there.\<close>

lemma prune_pass_effect:
  assumes "prune_pass available rest skipped = (kept, skipped')" "distinct (map fst rest)"
  shows "dict_ok rest \<Longrightarrow> dict_ok kept" "set kept \<subseteq> set rest"
    "skipped' = skipped \<union> (names rest - names kept)" "length kept = length rest \<Longrightarrow> kept = rest"
    "length kept = length rest \<Longrightarrow> \<forall>(n, m) \<in> set rest. missing available skipped m = []"
proof -
  have "(dict_ok rest \<longrightarrow> dict_ok kept) \<and> set kept \<subseteq> set rest \<and> skipped' = skipped \<union> (names rest - names kept)
      \<and> (length kept = length rest \<longrightarrow> kept = rest \<and> (\<forall>(n, m) \<in> set rest. missing available skipped m = []))"
    using assms
  proof (induction available rest skipped arbitrary: kept rule: prune_pass.induct)
    case (2 available n m rest skipped)
    show ?case
    proof (cases "missing available skipped m = []")
      case True
      then obtain k where k: "prune_pass available rest skipped = (k, skipped')" "kept = (n, m) # k"
        using 2(3) by (auto simp: apfst_def map_prod_def split: prod.splits)
      then have "set k \<subseteq> set rest" using True 2 by simp
      with k True 2 show ?thesis by (auto simp: dict_ok_def names_def)
    next
      case False
      then have p: "prune_pass available rest (insert n skipped) = (kept, skipped')" using 2(3) by simp
      then have "length kept \<le> length rest" using length_prune_pass [of available rest "insert n skipped"] by simp
      moreover have "n \<notin> names rest" "distinct (map fst rest)" using 2(4) by (auto simp: names_def)
      moreover have "names kept \<subseteq> names rest" using 2(1) [OF False p] \<open>distinct (map fst rest)\<close>
        by (auto simp: names_def)
      ultimately show ?thesis using 2(1) [OF False p] by (auto simp: dict_ok_def names_def)
    qed
  qed simp
  then show "dict_ok rest \<Longrightarrow> dict_ok kept" "set kept \<subseteq> set rest"
    "skipped' = skipped \<union> (names rest - names kept)" "length kept = length rest \<Longrightarrow> kept = rest"
    "length kept = length rest \<Longrightarrow> \<forall>(n, m) \<in> set rest. missing available skipped m = []" by auto
qed

text \<open>A set of names that holds the dependencies of its own modules.\<close>

definition closed_in :: "modules \<Rightarrow> string set \<Rightarrow> bool" where
  "closed_in d C \<longleftrightarrow> C \<subseteq> names d \<and> (\<forall>(n, m) \<in> set d. n \<in> C \<longrightarrow> set (mf_sequence m) \<subseteq> C)"

lemma prune_pass_closed:
  assumes "prune_pass available rest skipped = (kept, skipped')" "C \<subseteq> available" "C \<inter> skipped = {}"
    "\<forall>(n, m) \<in> set rest. n \<in> C \<longrightarrow> set (mf_sequence m) \<subseteq> C"
  shows "C \<inter> skipped' = {}"
  using assms
proof (induction available rest skipped arbitrary: kept rule: prune_pass.induct)
  case (2 available n m rest skipped)
  show ?case
  proof (cases "missing available skipped m = []")
    case True
    then show ?thesis using 2 by (auto simp: apfst_def map_prod_def split: prod.splits)
  next
    case False
    have "n \<notin> C"
    proof
      assume "n \<in> C"
      then have "set (mf_sequence m) \<subseteq> available - skipped" using 2(4-6) by auto
      with False show False by (simp add: missing_Nil)
    qed
    with False 2 show ?thesis by auto
  qed
qed simp

lemma prune_effect:
  assumes "dict_ok remaining" "available = names d" "names remaining = available - skipped"
    "set remaining \<subseteq> set d" "dict_ok d" "\<forall>C. closed_in d C \<longrightarrow> C \<inter> skipped = {}"
  shows "dict_ok (prune available remaining skipped) \<and> set (prune available remaining skipped) \<subseteq> set d
    \<and> closed_in d (names (prune available remaining skipped))
    \<and> (\<forall>C. closed_in d C \<longrightarrow> C \<subseteq> names (prune available remaining skipped))"
  using assms
proof (induction available remaining skipped rule: prune.induct)
  case (1 available remaining skipped)
  obtain kept skipped' where p: "prune_pass available remaining skipped = (kept, skipped')" by fastforce
  have dist: "distinct (map fst remaining)" using 1(2) by (simp add: dict_ok_def)
  note e = prune_pass_effect [OF p dist]
  show ?case
  proof (cases "length kept = length remaining")
    case True
    then have "kept = remaining" and here: "\<forall>(n, m) \<in> set remaining. missing available skipped m = []"
      using e by auto
    then have out: "prune available remaining skipped = remaining"
      using p by (simp add: prune.simps [of available remaining])
    have sub: "names remaining \<subseteq> names d" using 1(5) by (auto simp: names_def)
    have "set (mf_sequence m) \<subseteq> names remaining" if nm: "(n, m) \<in> set d" "n \<in> names remaining" for n m
    proof -
      obtain m' where "(n, m') \<in> set remaining" using nm(2) by (auto simp: in_names)
      moreover from this have "m' = m" using 1(5,6) nm(1) by (auto simp: dict_ok_def dest: eq_key_imp_eq_value)
      ultimately show ?thesis using here 1(4) by (auto simp: missing_Nil)
    qed
    then have "closed_in d (names remaining)" using sub by (auto simp: closed_in_def)
    moreover have "C \<subseteq> names remaining" if "closed_in d C" for C
      using that 1(3,4,7) by (auto simp: closed_in_def)
    ultimately show ?thesis using out 1(2,5) by simp
  next
    case False
    then have out: "prune available remaining skipped = prune available kept skipped'"
      using p by (simp add: prune.simps [of available remaining])
    have kept: "names kept \<subseteq> names remaining" using e(2) by (auto simp: names_def)
    have "C \<inter> skipped' = {}" if c: "closed_in d C" for C
    proof (rule prune_pass_closed [OF p])
      show "C \<subseteq> available" "C \<inter> skipped = {}" using c 1(3,7) by (auto simp: closed_in_def)
      show "\<forall>(n, m) \<in> set remaining. n \<in> C \<longrightarrow> set (mf_sequence m) \<subseteq> C"
        using c 1(5) by (auto simp: closed_in_def)
    qed
    moreover have "names kept = available - skipped'" using e(3) kept 1(4) by auto
    ultimately show ?thesis
      using 1(1) [OF p [symmetric] refl False] e(1) [OF 1(2)] e(2) 1(3,5,6) unfolding out by blast
  qed
qed

lemma valid_modules_greatest:
  "dict_ok (valid_modules ms)" "set (valid_modules ms) \<subseteq> set (by_name ms)"
  "closed_in (by_name ms) (names (valid_modules ms))"
  "closed_in (by_name ms) C \<Longrightarrow> C \<subseteq> names (valid_modules ms)"
  using prune_effect [OF by_name_ok [of ms] refl, where skipped = "{}" and d = "by_name ms"] by_name_ok [of ms]
  by (simp_all add: valid_modules_def names_def Let_def)

lemma valid_seq_closed: "n \<in> names (valid_modules ms) \<Longrightarrow> set (seq_of (valid_modules ms) n) \<subseteq> names (valid_modules ms)"
  using valid_modules_greatest(1-3) [of ms] by (force simp: closed_in_def in_names seq_of_item)

section \<open>The reference: always the least module that is ready\<close>

definition ready :: "modules \<Rightarrow> string list \<Rightarrow> string list" where
  "ready valid placed = filter (\<lambda>n. n \<notin> set placed \<and> set (seq_of valid n) \<subseteq> set placed) (map fst valid)"

primrec place :: "modules \<Rightarrow> nat \<Rightarrow> string list \<Rightarrow> string list" where
  "place valid 0 placed = placed"
| "place valid (Suc k) placed =
     (case sort_key (queue_key valid) (ready valid placed) of [] \<Rightarrow> placed
      | n # _ \<Rightarrow> place valid k (placed @ [n]))"

text \<open>The degrees are the dependencies not yet placed.\<close>

definition waits_for :: "modules \<Rightarrow> string list \<Rightarrow> string \<Rightarrow> int" where
  "waits_for valid placed n = int (length (filter (\<lambda>dep. dep \<notin> set placed) (seq_of valid n)))"

text \<open>What is placed is distinct, names modules, and holds the dependencies of its members.\<close>

definition placed_ok :: "modules \<Rightarrow> string list \<Rightarrow> bool" where
  "placed_ok valid placed \<longleftrightarrow> distinct placed \<and> set placed \<subseteq> names valid
     \<and> (\<forall>n \<in> set placed. set (seq_of valid n) \<subseteq> set placed)"

definition self_contained :: "modules \<Rightarrow> bool" where
  "self_contained valid \<longleftrightarrow> dict_ok valid \<and> (\<forall>n \<in> names valid. set (seq_of valid n) \<subseteq> names valid)"

lemma queue_key_inj: "inj_on (queue_key valid) A"
  by (auto simp: inj_on_def queue_key_def split: option.splits)

lemma relax_effect:
  assumes "\<forall>n \<in> set deps. int (count_list deps n) \<le> deg n"
  shows "fst (relax deps deg queue) = (\<lambda>n. deg n - int (count_list deps n))
    \<and> (\<exists>new. snd (relax deps deg queue) = queue @ new \<and> distinct new
        \<and> set new = {n \<in> set deps. deg n = int (count_list deps n)})"
  using assms
proof (induction deps arbitrary: deg queue)
  case (Cons dep deps)
  define g where "g = deg(dep := deg dep - 1)"
  define q where "q = (if g dep = 0 then queue @ [dep] else queue)"
  have g: "g n = (if n = dep then deg dep - 1 else deg n)" for n by (simp add: g_def)
  have relax: "relax (dep # deps) deg queue = relax deps g q" by (simp add: g_def q_def Let_def)
  have pre: "\<forall>n \<in> set deps. int (count_list deps n) \<le> g n" using Cons.prems by (auto simp: g split: if_splits)
  obtain new where new: "snd (relax deps g q) = q @ new" "distinct new"
      "set new = {n \<in> set deps. g n = int (count_list deps n)}"
    using Cons.IH [of g q, OF pre] by blast
  have "fst (relax (dep # deps) deg queue) = (\<lambda>n. deg n - int (count_list (dep # deps) n))"
    unfolding relax conjunct1 [OF Cons.IH [of g q, OF pre]] by (auto simp: g)
  moreover have "\<exists>new. snd (relax (dep # deps) deg queue) = queue @ new \<and> distinct new
      \<and> set new = {n \<in> set (dep # deps). deg n = int (count_list (dep # deps) n)}"
  proof (cases "g dep = 0")
    case True
    have "dep \<notin> set deps"
    proof
      assume d: "dep \<in> set deps"
      then have "0 < count_list deps dep" by (metis count_list_0_iff gr0I)
      with True pre d show False by force
    qed
    then have "set (dep # new) = {n \<in> set (dep # deps). deg n = int (count_list (dep # deps) n)}"
      using True by (auto simp: new(3) g split: if_splits)
    moreover have "distinct (dep # new)" using \<open>dep \<notin> set deps\<close> new(2,3) by auto
    moreover have "snd (relax deps g q) = queue @ dep # new" using True new(1) by (simp add: q_def)
    ultimately show ?thesis unfolding relax by blast
  next
    case False
    then have "deg dep = 1 + int (count_list deps dep) \<Longrightarrow> dep \<in> set deps"
      by (cases "dep \<in> set deps") (simp_all add: g)
    then have "set new = {n \<in> set (dep # deps). deg n = int (count_list (dep # deps) n)}"
      unfolding new(3) by (auto simp: g split: if_splits)
    moreover have "snd (relax deps g q) = queue @ new" using False new(1) by (simp add: q_def)
    ultimately show ?thesis unfolding relax using new(2) by blast
  qed
  ultimately show ?case by blast
qed simp

lemma count_filter: "length (filter (\<lambda>dep. dep \<notin> set placed) xs)
    = length (filter (\<lambda>dep. dep \<notin> set (placed @ [c])) xs) + (if c \<in> set placed then 0 else count_list xs c)"
  by (induction xs) auto

lemma count_concat_replicate:
  assumes "distinct (map fst d)"
  shows "count_list (concat (map (\<lambda>(n, m). replicate (f m) n) d)) k = (case map_of d k of None \<Rightarrow> 0 | Some m \<Rightarrow> f m)"
  using assms
proof (induction d)
  case (Cons x d)
  have "count_list (concat (map (\<lambda>(n, m). replicate (f m) n) d)) k = 0" if "k \<notin> fst ` set d"
    using that by (auto simp: count_list_0_iff image_iff)
  moreover have "count_list (replicate c a) k = (if a = k then c else 0)" for a c
    by (induction c) auto
  ultimately show ?case using Cons by (cases x) (auto simp: map_of_eq_None_iff)
qed simp

lemma count_dependents:
  assumes "dict_ok valid" "c \<in> names valid"
  shows "count_list (sort (dependents valid c)) n = count_list (seq_of valid n) c"
proof -
  have "count_list (sort (dependents valid c)) n = count_list (dependents valid c) n"
    by (simp flip: count_mset)
  then show ?thesis using assms
    by (simp add: dependents_def names_def dict_ok_def count_concat_replicate seq_of_def split: option.splits)
qed

lemma readyD: "n \<in> set (ready valid placed) \<longleftrightarrow>
    n \<in> names valid \<and> n \<notin> set placed \<and> set (seq_of valid n) \<subseteq> set placed"
  by (auto simp: ready_def names_def)

lemma placed_ok_snoc:
  "placed_ok valid placed \<Longrightarrow> n \<in> set (ready valid placed) \<Longrightarrow> placed_ok valid (placed @ [n])"
  by (auto simp: placed_ok_def readyD)

text \<open>One round of the loop: the new queue holds the modules that are ready now.\<close>

lemma kahn_round:
  assumes valid: "self_contained valid" and placed: "placed_ok valid placed"
    and queue: "current # queue = sort_key (queue_key valid) (ready valid placed)"
    and step: "relax (sort (dependents valid current)) (waits_for valid placed) queue = (deg', queue')"
  shows "\<forall>n \<in> names valid. deg' n = waits_for valid (placed @ [current]) n"
    "sort_key (queue_key valid) queue' = sort_key (queue_key valid) (ready valid (placed @ [current]))"
proof -
  let ?L = "sort (dependents valid current)" and ?new = "placed @ [current]"
  have dist: "dict_ok valid" using valid by (simp add: self_contained_def)
  have cq: "set (current # queue) = set (ready valid placed)" "distinct (current # queue)"
    using dist by (simp_all add: queue ready_def dict_ok_def distinct_map_filter)
  then have current: "current \<in> set (ready valid placed)" by auto
  have count: "count_list ?L n = count_list (seq_of valid n) current" for n
    using count_dependents [OF dist] current by (simp add: readyD)
  have waits: "waits_for valid placed n = waits_for valid ?new n + int (count_list (seq_of valid n) current)" for n
    using count_filter [of placed "seq_of valid n" current] current by (simp add: waits_for_def readyD)
  have L: "n \<in> set ?L \<longleftrightarrow> current \<in> set (seq_of valid n)" for n
    using count [of n] by (metis count_list_0_iff)
  have "int (count_list ?L n) \<le> waits_for valid placed n" for n
    by (simp only: count waits) (simp add: waits_for_def)
  then obtain more where more: "queue' = queue @ more" "distinct more"
      "set more = {n \<in> set ?L. waits_for valid placed n = int (count_list ?L n)}"
      "deg' = (\<lambda>n. waits_for valid placed n - int (count_list ?L n))"
    using relax_effect [of ?L "waits_for valid placed" queue] step by auto
  show "\<forall>n \<in> names valid. deg' n = waits_for valid ?new n"
    by (simp only: more count waits) simp
  have zero: "waits_for valid ?new n = 0 \<longleftrightarrow> set (seq_of valid n) \<subseteq> set ?new" for n
    by (auto simp: waits_for_def filter_empty_conv)
  have more_set: "set more = {n. current \<in> set (seq_of valid n) \<and> set (seq_of valid n) \<subseteq> set ?new}"
    by (simp only: more(3) L count waits zero [symmetric]) auto
  have known: "n \<in> names valid" if "current \<in> set (seq_of valid n)" for n
    using that by (auto simp: seq_of_def names_def split: option.splits dest: map_of_SomeD)
      (metis fst_conv image_eqI map_of_SomeD)
  have "set queue' = set (ready valid ?new)"
  proof (intro set_eqI iffI)
    fix n assume "n \<in> set queue'"
    then consider "n \<in> set queue" | "n \<in> set more" by (auto simp: more(1))
    then show "n \<in> set (ready valid ?new)"
    proof cases
      case 1
      then have "n \<in> set (ready valid placed)" "n \<noteq> current" using cq by auto
      then show ?thesis by (auto simp: readyD)
    next
      case 2
      then have "current \<in> set (seq_of valid n)" "set (seq_of valid n) \<subseteq> set ?new" by (auto simp: more_set)
      moreover from this have "n \<notin> set ?new" using placed current by (auto simp: placed_ok_def readyD)
      ultimately show ?thesis using known by (auto simp: readyD)
    qed
  next
    fix n assume n: "n \<in> set (ready valid ?new)"
    show "n \<in> set queue'"
    proof (cases "current \<in> set (seq_of valid n)")
      case True
      then show ?thesis using n by (auto simp: more(1) more_set readyD)
    next
      case False
      then have "n \<in> set (ready valid placed)" "n \<noteq> current" using n by (auto simp: readyD)
      then show ?thesis using cq by (auto simp: more(1))
    qed
  qed
  moreover have "current \<notin> set (seq_of valid n)" if "n \<in> set queue" for n
  proof -
    have "n \<in> set (ready valid placed)" using that cq by auto
    then show ?thesis using current by (auto simp: readyD)
  qed
  then have "distinct queue'" using cq more(2) by (auto simp: more(1) more_set)
  moreover have "distinct (ready valid ?new)"
    using dist by (simp add: ready_def dict_ok_def)
  ultimately have "mset queue' = mset (ready valid ?new)" by (simp add: set_eq_iff_mset_eq_distinct)
  then show "sort_key (queue_key valid) queue' = sort_key (queue_key valid) (ready valid ?new)"
    by (intro sort_key_inj_key_eq) (simp_all add: queue_key_inj)
qed

lemma waits_zero: "waits_for valid placed n = 0 \<longleftrightarrow> set (seq_of valid n) \<subseteq> set placed"
  by (auto simp: waits_for_def filter_empty_conv)

lemma placed_length: "self_contained valid \<Longrightarrow> placed_ok valid placed \<Longrightarrow> length placed \<le> length valid"
  using card_mono [of "names valid" "set placed"]
  by (simp add: placed_ok_def self_contained_def dict_ok_def names_def distinct_card)
    (metis card_image_le distinct_card finite_set length_map list.set_map)

lemma ready_Nil_if_full:
  assumes "self_contained valid" "placed_ok valid placed" "length placed = length valid"
  shows "ready valid placed = []"
proof (rule ccontr)
  assume "ready valid placed \<noteq> []"
  then obtain n where "n \<in> set (ready valid placed)" by (meson hd_in_set)
  then have "placed_ok valid (placed @ [n])" using assms placed_ok_snoc by blast
  then show False using placed_length [OF assms(1), of "placed @ [n]"] assms(3) by simp
qed

lemma relax_cong:
  assumes "\<forall>n \<in> set deps. deg n = deg' n"
  shows "snd (relax deps deg queue) = snd (relax deps deg' queue)
    \<and> (\<forall>n. deg n = deg' n \<longrightarrow> fst (relax deps deg queue) n = fst (relax deps deg' queue) n)"
  using assms
proof (induction deps arbitrary: deg deg' queue)
  case (Cons dep deps)
  define g where "g = deg(dep := deg dep - 1)"
  define g' where "g' = deg'(dep := deg' dep - 1)"
  have eq: "g dep = g' dep" using Cons.prems by (simp add: g_def g'_def)
  have "\<forall>n \<in> set deps. g n = g' n" using Cons.prems by (simp add: g_def g'_def)
  note IH = Cons.IH [of g g' "if g dep = 0 then queue @ [dep] else queue", OF this]
  have "relax (dep # deps) deg queue = relax deps g (if g dep = 0 then queue @ [dep] else queue)"
    "relax (dep # deps) deg' queue = relax deps g' (if g dep = 0 then queue @ [dep] else queue)"
    by (simp_all only: relax.simps Let_def g_def [symmetric] g'_def [symmetric] eq)
  moreover have "g n = g' n" if "deg n = deg' n" for n using that Cons.prems by (simp add: g_def g'_def)
  ultimately show ?case using IH by simp
qed simp

lemma kahn_is_place:
  assumes "self_contained valid" "placed_ok valid placed" "\<forall>n \<in> names valid. deg n = waits_for valid placed n"
    "queue = sort_key (queue_key valid) (ready valid placed)" "length valid \<le> k + length placed"
  shows "kahn valid queue deg placed = place valid k placed"
  using assms(2-5)
proof (induction k arbitrary: queue deg placed)
  case 0
  then have "ready valid placed = []" using assms(1) placed_length ready_Nil_if_full by force
  then show ?case using 0 by simp
next
  case (Suc k)
  show ?case
  proof (cases queue)
    case Nil
    then show ?thesis using Suc.prems by (simp add: Nil)
  next
    case (Cons current rest)
    let ?L = "sort (dependents valid current)"
    obtain d q where dq: "relax ?L (waits_for valid placed) rest = (d, q)" by fastforce
    obtain d' q' where dq': "relax ?L deg rest = (d', q')" by fastforce
    have L: "set ?L \<subseteq> names valid" using dependents_valid [of valid current] by (simp add: names_def)
    have same: "q' = q" "\<forall>n \<in> names valid. d' n = d n"
      using relax_cong [of ?L deg "waits_for valid placed" rest] L Suc.prems(2) dq dq' by auto
    have queue: "current # rest = sort_key (queue_key valid) (ready valid placed)"
      using Suc.prems(3) Cons by simp
    note round = kahn_round [OF assms(1) Suc.prems(1) queue dq]
    have "set (current # rest) = set (ready valid placed)" by (simp add: queue)
    then have "current \<in> set (ready valid placed)" by auto
    then have ok: "placed_ok valid (placed @ [current])" using Suc.prems(1) placed_ok_snoc by blast
    have "kahn valid queue deg placed = kahn valid (sort_key (queue_key valid) q) d' (placed @ [current])"
      using Cons dq' same by simp
    also have "\<dots> = place valid k (placed @ [current])"
      using Suc.IH [OF ok _ round(2), of d'] round(1) same(2) Suc.prems(4) by simp
    also have "\<dots> = place valid (Suc k) placed" by (simp flip: queue)
    finally show ?thesis .
  qed
qed

lemma seq_in_valid: "self_contained valid \<Longrightarrow> n \<in> names valid \<Longrightarrow> in_degree valid n = waits_for valid [] n"
proof -
  assume v: "self_contained valid" "n \<in> names valid"
  then have "filter (\<lambda>dep. dep \<in> names valid) (seq_of valid n) = seq_of valid n"
    by (auto simp: self_contained_def filter_id_conv)
  then show ?thesis by (simp add: in_degree_def waits_for_def names_def)
qed

lemma kahn_start:
  assumes "self_contained valid"
  shows "kahn valid (sort_key (queue_key valid) (filter (\<lambda>n. in_degree valid n = 0) (map fst valid)))
      (in_degree valid) [] = place valid (length valid) []"
proof (rule kahn_is_place [OF assms])
  have "in_degree valid n = 0 \<longleftrightarrow> set (seq_of valid n) \<subseteq> set []" if "n \<in> set (map fst valid)" for n
    using that seq_in_valid [OF assms, of n] waits_zero [of valid "[]" n] by (simp add: names_def)
  then show "sort_key (queue_key valid) (filter (\<lambda>n. in_degree valid n = 0) (map fst valid))
      = sort_key (queue_key valid) (ready valid [])"
    by (auto simp: ready_def intro!: arg_cong [of _ _ "sort_key (queue_key valid)"] filter_cong)
qed (simp_all add: placed_ok_def seq_in_valid assms)

lemma valid_self_contained: "self_contained (valid_modules ms)"
  by (simp add: self_contained_def valid_modules_greatest valid_seq_closed)

section \<open>What the reference gives\<close>

lemma place_ok:
  assumes "placed_ok valid placed"
  shows "placed_ok valid (place valid k placed)"
  using assms
proof (induction k arbitrary: placed)
  case (Suc k)
  show ?case
  proof (cases "sort_key (queue_key valid) (ready valid placed)")
    case (Cons n rest)
    then have "n \<in> set (ready valid placed)" by (metis list.set_intros(1) set_sort)
    with Suc.IH [of "placed @ [n]"] Suc.prems placed_ok_snoc Cons show ?thesis by simp
  qed (simp add: Suc.prems)
qed simp

text \<open>A dependency is placed before the module that needs it.\<close>

definition deps_first :: "modules \<Rightarrow> string list \<Rightarrow> bool" where
  "deps_first valid placed \<longleftrightarrow>
     (\<forall>i < length placed. set (seq_of valid (placed ! i)) \<subseteq> set (take i placed))"

lemma place_deps_first:
  assumes "deps_first valid placed"
  shows "deps_first valid (place valid k placed)"
  using assms
proof (induction k arbitrary: placed)
  case (Suc k)
  show ?case
  proof (cases "sort_key (queue_key valid) (ready valid placed)")
    case (Cons n rest)
    then have "n \<in> set (ready valid placed)" by (metis list.set_intros(1) set_sort)
    then have "deps_first valid (placed @ [n])"
      using Suc.prems by (auto simp: deps_first_def readyD nth_append less_Suc_eq)
    with Suc.IH Cons show ?thesis by simp
  qed (simp add: Suc.prems)
qed simp

text \<open>Enough rounds leave nothing ready.\<close>

lemma place_end:
  assumes "self_contained valid" "placed_ok valid placed" "length valid \<le> k + length placed"
  shows "ready valid (place valid k placed) = []"
  using assms(2,3)
proof (induction k arbitrary: placed)
  case 0
  then show ?case using assms(1) placed_length ready_Nil_if_full by force
next
  case (Suc k)
  show ?case
  proof (cases "sort_key (queue_key valid) (ready valid placed)")
    case Nil
    then have "set (ready valid placed) = {}" by (metis empty_set set_sort)
    with Nil show ?thesis by simp
  next
    case (Cons n rest)
    then have "n \<in> set (ready valid placed)" by (metis list.set_intros(1) set_sort)
    with Suc.IH [of "placed @ [n]"] Suc.prems placed_ok_snoc Cons show ?thesis by auto
  qed
qed

definition needs :: "modules \<Rightarrow> (string \<times> string) set" where
  "needs valid = {(n, dep) \<in> names valid \<times> names valid. dep \<in> set (seq_of valid n)}"

lemma finite_needs: "finite (needs valid)"
  by (rule finite_subset [of _ "names valid \<times> names valid"]) (auto simp: needs_def names_def)

text \<open>All modules are placed exactly when the dependencies have no cycle.\<close>

lemma place_all_iff_acyclic:
  assumes valid: "self_contained valid"
  shows "set (place valid (length valid) []) = names valid \<longleftrightarrow> acyclic (needs valid)"
proof
  let ?out = "place valid (length valid) []"
  have ok: "placed_ok valid ?out" and first: "deps_first valid ?out"
    using place_ok [of valid "[]"] place_deps_first [of valid "[]"] by (simp_all add: placed_ok_def deps_first_def)
  assume all: "set ?out = names valid"
  define pos where "pos n = (LEAST i. i < length ?out \<and> ?out ! i = n)" for n
  have pos: "pos n < length ?out \<and> ?out ! (pos n) = n" if "n \<in> names valid" for n
  proof -
    have "n \<in> set ?out" using that all by simp
    then have "\<exists>i. i < length ?out \<and> ?out ! i = n" by (simp add: in_set_conv_nth)
    then show ?thesis unfolding pos_def by (rule LeastI_ex)
  qed
  have "needs valid \<subseteq> (measure pos)\<inverse>"
  proof (clarsimp simp: needs_def)
    fix n dep assume n: "n \<in> names valid" "dep \<in> set (seq_of valid n)" "dep \<in> names valid"
    have "set (seq_of valid (?out ! pos n)) \<subseteq> set (take (pos n) ?out)"
      using first pos [OF n(1)] unfolding deps_first_def by blast
    then have "dep \<in> set (take (pos n) ?out)" using n(2) pos [OF n(1)] by auto
    then obtain i where "i < pos n" "i < length ?out" "?out ! i = dep" by (auto simp: in_set_conv_nth)
    moreover from this have "pos dep \<le> i" unfolding pos_def by (intro Least_le) simp
    ultimately show "pos dep < pos n" by simp
  qed
  then show "acyclic (needs valid)"
    by (meson acyclic_converse acyclic_subset wf_acyclic wf_measure)
next
  let ?out = "place valid (length valid) []"
  assume "acyclic (needs valid)"
  then have wf: "wf ((needs valid)\<inverse>)" by (rule finite_acyclic_wf_converse [OF finite_needs])
  have ok: "placed_ok valid ?out" using place_ok [of valid "[]"] by (simp add: placed_ok_def)
  have fin: "ready valid ?out = []" using place_end [OF valid, of "[]"] by (simp add: placed_ok_def)
  show "set ?out = names valid"
  proof (rule ccontr)
    assume "set ?out \<noteq> names valid"
    then obtain n where "n \<in> names valid - set ?out" using ok by (auto simp: placed_ok_def)
    then obtain z where z: "z \<in> names valid - set ?out"
        "\<And>y. (y, z) \<in> (needs valid)\<inverse> \<Longrightarrow> y \<notin> names valid - set ?out"
      using wf wf_eq_minimal by metis
    have "set (seq_of valid z) \<subseteq> names valid" using valid z(1) by (auto simp: self_contained_def)
    then have "set (seq_of valid z) \<subseteq> set ?out" using z by (auto simp: needs_def)
    then have "z \<in> set (ready valid ?out)" using z(1) by (simp add: readyD)
    with fin show False by simp
  qed
qed

section \<open>The result\<close>

definition reference_order :: "manifest list \<Rightarrow> string list" where
  "reference_order ms = place (valid_modules ms) (length (valid_modules ms)) []"

lemma resolve_order_is_reference:
  "resolve_order ms = (let valid = valid_modules ms; out = reference_order ms in
     if length out \<noteq> length valid then Inl (Cyclic (filter (\<lambda>n. n \<notin> set out) (map fst valid)))
     else Inr (map (\<lambda>n. the (map_of valid n)) out))"
  by (simp add: resolve_order_def reference_order_def start_queue_def kahn_start valid_self_contained Let_def)

lemma reference_ok: "placed_ok (valid_modules ms) (reference_order ms)"
  unfolding reference_order_def by (rule place_ok) (simp add: placed_ok_def)

lemma reference_length: "length (reference_order ms) = length (valid_modules ms) \<longleftrightarrow>
    set (reference_order ms) = names (valid_modules ms)"
proof -
  have d: "card (set (reference_order ms)) = length (reference_order ms)" "set (reference_order ms) \<subseteq> names (valid_modules ms)"
    using reference_ok [of ms] by (simp_all add: placed_ok_def distinct_card)
  have n: "card (names (valid_modules ms)) = length (valid_modules ms)" "finite (names (valid_modules ms))"
    using valid_modules_greatest(1) [of ms] distinct_card [of "map fst (valid_modules ms)"]
    by (simp_all add: dict_ok_def names_def)
  then show ?thesis using d by (metis card_subset_eq)
qed

lemma resolve_order_Inr:
  "(\<exists>out. resolve_order ms = Inr out) \<longleftrightarrow> acyclic (needs (valid_modules ms))"
  using place_all_iff_acyclic [OF valid_self_contained, of ms] reference_length [of ms]
  by (simp add: resolve_order_is_reference Let_def reference_order_def)

lemma valid_lookup: "n \<in> names (valid_modules ms) \<Longrightarrow> mf_name (the (map_of (valid_modules ms) n)) = n"
  using valid_modules_greatest(1) [of ms] by (auto simp: dict_ok_def in_names)

lemma resolved_names: "resolve_order ms = Inr out \<Longrightarrow> map mf_name out = reference_order ms"
proof -
  assume "resolve_order ms = Inr out"
  then have "out = map (\<lambda>n. the (map_of (valid_modules ms) n)) (reference_order ms)"
    by (auto simp: resolve_order_is_reference Let_def split: if_splits)
  moreover have "n \<in> names (valid_modules ms)" if "n \<in> set (reference_order ms)" for n
    using that reference_ok [of ms] unfolding placed_ok_def by blast
  ultimately show ?thesis by (auto simp: valid_lookup intro: map_idI)
qed

lemma resolved_items: "resolve_order ms = Inr out \<Longrightarrow> set out = snd ` set (valid_modules ms)"
proof -
  assume r: "resolve_order ms = Inr out"
  let ?v = "valid_modules ms"
  have "out = map (\<lambda>n. the (map_of ?v n)) (reference_order ms)" "set (reference_order ms) = names ?v"
    using r reference_length by (auto simp: resolve_order_is_reference Let_def split: if_splits)
  moreover have "(\<lambda>n. the (map_of ?v n)) ` names ?v = snd ` set ?v"
    using valid_modules_greatest(1) [of ms] by (force simp: names_def dict_ok_def)
  ultimately show ?thesis by simp
qed

lemma reference_deps_first: "deps_first (valid_modules ms) (reference_order ms)"
  unfolding reference_order_def by (rule place_deps_first) (simp add: deps_first_def)

lemma resolved_dep_before:
  assumes "resolve_order ms = Inr out" "i < length out" "dep \<in> set (mf_sequence (out ! i))"
  shows "\<exists>j < i. mf_name (out ! j) = dep"
proof -
  let ?v = "valid_modules ms" and ?o = "reference_order ms"
  have out: "map mf_name out = ?o" by (rule resolved_names [OF assms(1)])
  have len: "length out = length ?o" by (simp flip: out)
  have "out ! i \<in> snd ` set ?v" using resolved_items [OF assms(1)] assms(2) by auto
  then obtain n where n: "(n, out ! i) \<in> set ?v" by force
  have ok: "dict_ok ?v" by (rule valid_modules_greatest)
  have "mf_name (out ! i) = n" using ok n by (auto simp: dict_ok_def)
  then have "?o ! i = n" using assms(2) by (simp flip: out)
  moreover have "seq_of ?v n = mf_sequence (out ! i)" using seq_of_item [OF ok n] .
  moreover have "set (seq_of ?v (?o ! i)) \<subseteq> set (take i ?o)" 
    using reference_deps_first [of ms] assms(2) len by (simp add: deps_first_def)
  ultimately have "dep \<in> set (take i ?o)" using assms(3) by auto
  then obtain j where j: "j < i" "j < length ?o" "?o ! j = dep" by (auto simp: in_set_conv_nth)
  then have "mf_name (out ! j) = map mf_name out ! j" using len by simp
  with j out show ?thesis by auto
qed

section \<open>The breadth-first search\<close>

definition dependent_on :: "manifest list \<Rightarrow> (string \<times> string) set" where
  "dependent_on ms = {(dep, n). n \<in> set (reverse_of ms dep)}"

lemma reverse_of_iff:
  "n \<in> set (reverse_of ms dep) \<longleftrightarrow> dep \<in> mf_name ` set ms \<and> (\<exists>m \<in> set ms. mf_name m = n \<and> dep \<in> set (mf_sequence m))"
  by (auto simp: reverse_of_def count_list_0_iff)

lemma rtrancl_below:
  assumes "R `` v \<subseteq> v \<union> q" "(x, y) \<in> R\<^sup>*" "x \<in> v"
  shows "y \<in> v \<union> R\<^sup>* `` q"
  using assms(2,3)
proof (induction rule: rtrancl_induct)
  case (step y z)
  then consider "y \<in> v" | "y \<in> R\<^sup>* `` q" by auto
  then show ?case
  proof cases
    case 1
    then have "z \<in> v \<union> q" using assms(1) step(2) by auto
    then show ?thesis by auto
  next
    case 2
    then show ?thesis using step(2) by (auto intro: rtrancl_into_rtrancl)
  qed
qed simp

lemma bfs_reach:
  assumes "dependent_on ms `` visited \<subseteq> visited \<union> set queue"
  shows "bfs ms queue visited = visited \<union> (dependent_on ms)\<^sup>* `` set queue"
  using assms
proof (induction ms queue visited rule: bfs.induct)
  case (2 ms current queue visited)
  let ?R = "dependent_on ms"
  show ?case
  proof (cases "current \<in> visited")
    case True
    then have "?R `` visited \<subseteq> visited \<union> set queue" using 2(3) by auto
    moreover from this have "?R\<^sup>* `` {current} \<subseteq> visited \<union> ?R\<^sup>* `` set queue"
      using True rtrancl_below by fastforce
    ultimately show ?thesis using True 2(1) by auto
  next
    case False
    have next_set: "set (reverse_of ms current) = ?R `` {current}" by (auto simp: dependent_on_def)
    then have "?R `` insert current visited \<subseteq> insert current visited \<union> set (queue @ reverse_of ms current)"
      using 2(3) by auto
    then have "bfs ms (current # queue) visited
        = insert current visited \<union> ?R\<^sup>* `` (set queue \<union> ?R `` {current})"
      using False 2(2) by (simp add: next_set)
    moreover have "?R\<^sup>* `` {current} = insert current (?R\<^sup>* `` (?R `` {current}))"
      by (auto intro: converse_rtrancl_into_rtrancl elim: converse_rtranclE)
    ultimately show ?thesis by auto
  qed
qed simp

lemma transitive_dependents_set:
  "set (get_transitive_dependents target ms) = {n. (target, n) \<in> (dependent_on ms)\<^sup>+}"
proof -
  let ?R = "dependent_on ms" and ?v = "bfs ms (reverse_of ms target) {}"
  have b: "?v = ?R\<^sup>* `` (?R `` {target})"
    using bfs_reach [of ms "{}" "reverse_of ms target"] by (simp add: dependent_on_def Image_def)
  have "?R `` A \<subseteq> mf_name ` set ms" for A by (auto simp: dependent_on_def reverse_of_iff)
  then have "?R\<^sup>* `` (?R `` {target}) \<subseteq> mf_name ` set ms"
    using rtrancl_below [of ?R "mf_name ` set ms" "{}"] by blast
  then have "finite ?v" unfolding b by (rule finite_subset) simp
  moreover have "?R\<^sup>* `` (?R `` {target}) = {n. (target, n) \<in> ?R\<^sup>+}"
    unfolding trancl_unfold_left by auto
  ultimately show ?thesis by (simp add: get_transitive_dependents_def b)
qed

section \<open>The loop ends\<close>

lemma kahn_rounds:
  "\<exists>n deg'. (kahn_body valid ^^ n) (queue, deg, result) = ([], deg', kahn valid queue deg result)
    \<and> length (kahn valid queue deg result) = length result + n"
proof (induction valid queue deg result rule: kahn.induct)
  case (1 valid deg result)
  show ?case by (intro exI [of _ 0]) simp
next
  case (2 valid current queue deg result)
  obtain deg' queue' where r: "relax (sort (dependents valid current)) deg queue = (deg', queue')" by fastforce
  then obtain n d where "(kahn_body valid ^^ n) (sort_key (queue_key valid) queue', deg', result @ [current])
      = ([], d, kahn valid (current # queue) deg result)"
    "length (kahn valid (current # queue) deg result) = Suc (length result) + n"
    using 2 [OF r [symmetric] refl] by auto
  then show ?case using r by (intro exI [of _ "Suc n"]) (auto simp: funpow_Suc_right simp del: funpow.simps)
qed

section \<open>Properties of the load order\<close>

text \<open>
  C38. Kahn's loop ends: from the start queue it is empty after at most as many rounds as there
  are usable modules, also when the dependencies have a cycle, and then holds what
  \<open>resolve_order\<close> goes on with.
\<close>

theorem load_order_loop_ends:
  "\<exists>n \<le> length (valid_modules ms). \<exists>deg.
     (kahn_body (valid_modules ms) ^^ n) (start_queue (valid_modules ms), in_degree (valid_modules ms), [])
       = ([], deg, kahn (valid_modules ms) (start_queue (valid_modules ms)) (in_degree (valid_modules ms)) [])"
proof -
  let ?v = "valid_modules ms"
  obtain n deg where n: "(kahn_body ?v ^^ n) (start_queue ?v, in_degree ?v, []) = ([], deg, kahn ?v (start_queue ?v) (in_degree ?v) [])"
      "length (kahn ?v (start_queue ?v) (in_degree ?v) []) = n"
    using kahn_rounds [of ?v "start_queue ?v" "in_degree ?v" "[]"] by auto
  have "kahn ?v (start_queue ?v) (in_degree ?v) [] = reference_order ms"
    by (simp add: start_queue_def kahn_start valid_self_contained reference_order_def)
  then have "n \<le> length ?v" using n(2) placed_length [OF valid_self_contained reference_ok, of ms] by simp
  with n(1) show ?thesis by blast
qed

text \<open>
  C36. The load order is the reference order: at every position stands the module with the
  least \<open>(order, name)\<close> among those whose dependencies are all placed before it. A result has
  each usable module once, and a cycle is reported with the names that the reference leaves out.
\<close>

theorem load_order_is_greedy:
  "case resolve_order ms of
     Inr out \<Rightarrow> map mf_name out = reference_order ms
   | Inl e \<Rightarrow> e = Cyclic (filter (\<lambda>n. n \<notin> set (reference_order ms)) (map fst (valid_modules ms)))"
  using resolved_names [of ms] by (auto simp: resolve_order_is_reference Let_def split: sum.splits if_splits)


definition sample_manifests :: "manifest list" where
  "sample_manifests =
     [\<lparr>mf_name = ''jira'', mf_sequence = [''core''], mf_order = 5\<rparr>,
      \<lparr>mf_name = ''lost'', mf_sequence = [''gone''], mf_order = 0\<rparr>,
      \<lparr>mf_name = ''core'', mf_sequence = [], mf_order = 10\<rparr>,
      \<lparr>mf_name = ''claude'', mf_sequence = [''core''], mf_order = 5\<rparr>]"

lemma sample_resolved: "resolve_order sample_manifests = Inr
    [\<lparr>mf_name = ''core'', mf_sequence = [], mf_order = 10\<rparr>,
     \<lparr>mf_name = ''claude'', mf_sequence = [''core''], mf_order = 5\<rparr>,
     \<lparr>mf_name = ''jira'', mf_sequence = [''core''], mf_order = 5\<rparr>]"
  by code_simp

text \<open>
  \<open>get_transitive_dependents\<close> is the sorted list, without repeats, of the modules that reach
  the target along \<open>sequence\<close>.
\<close>

theorem transitive_dependents_are_trancl:
  "set (get_transitive_dependents target ms) = {n. (target, n) \<in> (dependent_on ms)\<^sup>+}
     \<and> sorted (get_transitive_dependents target ms) \<and> distinct (get_transitive_dependents target ms)"
  using transitive_dependents_set [of target ms] by (simp add: get_transitive_dependents_def)

lemma target_on_cycle:
  "get_transitive_dependents ''a'' [\<lparr>mf_name = ''a'', mf_sequence = [''b''], mf_order = 0\<rparr>,
      \<lparr>mf_name = ''b'', mf_sequence = [''a''], mf_order = 0\<rparr>] = [''a'', ''b'']"
  by code_simp

end
