(* ===== verification/Config_Paths.thy ===== *)
theory Config_Paths
  imports Agento_Prelude
begin

text \<open>
  Configuration paths and the names they have in the environment and in \<open>core_config_data\<close>
  (\<open>core_config.py\<close>, \<open>config_resolver.py\<close>). A path is \<open>module/field\<close>, where the field may hold
  further slashes, or \<open>module/tools/tool/field\<close>. Letters are Latin-1.
\<close>

section \<open>Text operations\<close>

text \<open>\<open>s.partition(c)\<close>.\<close>

definition partition_at :: "char \<Rightarrow> string \<Rightarrow> string \<times> bool \<times> string" where
  "partition_at c s = (takeWhile (\<lambda>x. x \<noteq> c) s, c \<in> set s, tl (dropWhile (\<lambda>x. x \<noteq> c) s))"

text \<open>\<open>str.upper()\<close>, where the result is Latin-1.\<close>

definition upper_char :: "char \<Rightarrow> string" where
  "upper_char c = (let n = (of_char c :: nat) in
     if (97 \<le> n \<and> n \<le> 122) \<or> (224 \<le> n \<and> n \<le> 254 \<and> n \<noteq> 247) then [char_of (n - 32)]
     else if n = 223 then ''SS'' else [c])"

definition upper :: "string \<Rightarrow> string" where
  "upper s = concat (map upper_char s)"

text \<open>\<open>s.replace(a, b)\<close> for a character \<open>a\<close>.\<close>

definition replace_char :: "char \<Rightarrow> string \<Rightarrow> string \<Rightarrow> string" where
  "replace_char a b s = concat (map (\<lambda>c. if c = a then b else [c]) s)"

text \<open>\<open>s.replace("__", "/")\<close>: from the left, without overlap.\<close>

fun slash_dunders :: "string \<Rightarrow> string" where
  "slash_dunders (c # d # s) =
     (if c = CHR ''_'' \<and> d = CHR ''_'' then CHR ''/'' # slash_dunders s else c # slash_dunders (d # s))"
| "slash_dunders s = s"

definition removeprefix :: "string \<Rightarrow> string \<Rightarrow> string" where
  "removeprefix pre s = (if starts_with pre s then drop (length pre) s else s)"

section \<open>\<open>_parse_config_path\<close>\<close>

definition parse_config_path :: "string \<Rightarrow> (string \<times> string option \<times> string) option" where
  "parse_config_path path =
     (if CHR ''/'' \<notin> set path then None
      else let (m, _, rest) = partition_at (CHR ''/'') path in
        if m = [] \<or> rest = [] \<or> last rest = CHR ''/'' then None
        else let (head, sep, tail) = partition_at (CHR ''/'') rest in
          if head = ''tools'' then
            (if \<not> sep \<or> tail = [] \<or> CHR ''/'' \<notin> set tail then None
             else let (tool, _, field) = partition_at (CHR ''/'') tail in
               if tool = [] \<or> field = [] \<or> CHR ''/'' \<in> set field then None
               else Some (m, Some tool, field))
          else Some (m, None, rest))"

section \<open>Names in the environment and in the database\<close>

definition env_fold :: "string \<Rightarrow> string" where
  "env_fold s = replace_char (CHR ''/'') ''__'' (replace_char (CHR ''-'') ''_'' (upper s))"

definition env_key :: "string \<Rightarrow> string \<Rightarrow> string" where
  "env_key m field = env_fold (''CONFIG__'' @ m @ ''__'' @ field)"

definition env_key_tool :: "string \<Rightarrow> string \<Rightarrow> string \<Rightarrow> string" where
  "env_key_tool m tool field = env_fold (''CONFIG__'' @ m @ ''__TOOLS__'' @ tool @ ''__'' @ field)"

definition path_to_env_key :: "string \<Rightarrow> string" where
  "path_to_env_key path =
     (case parse_config_path path of
        None \<Rightarrow> replace_char (CHR ''-'') ''_'' (upper (''CONFIG__'' @ fst (partition_at (CHR ''/'') path)))
      | Some (m, Some tool, field) \<Rightarrow> env_key_tool m tool field
      | Some (m, None, field) \<Rightarrow> env_key m field)"

definition env_key_to_path :: "string \<Rightarrow> string" where
  "env_key_to_path key = slash_dunders (lower (removeprefix ''CONFIG__'' key))"

definition dash_fold :: "string \<Rightarrow> string" where
  "dash_fold = replace_char (CHR ''-'') ''_''"

definition db_path :: "string \<Rightarrow> string \<Rightarrow> string" where
  "db_path m field = dash_fold (m @ ''/'' @ field)"

definition db_path_tool :: "string \<Rightarrow> string \<Rightarrow> string \<Rightarrow> string" where
  "db_path_tool m tool field = dash_fold (m @ ''/tools/'' @ tool @ ''/'' @ field)"

section \<open>Facts\<close>

lemma partition_at_eq:
  assumes "partition_at c s = (a, True, b)"
  shows "s = a @ c # b" "c \<notin> set a"
proof -
  have a: "a = takeWhile (\<lambda>x. x \<noteq> c) s" "b = tl (dropWhile (\<lambda>x. x \<noteq> c) s)" "c \<in> set s"
    using assms by (simp_all add: partition_at_def)
  then have "dropWhile (\<lambda>x. x \<noteq> c) s \<noteq> []" by (simp add: dropWhile_eq_Nil_conv)
  then obtain d t where d: "dropWhile (\<lambda>x. x \<noteq> c) s = d # t" by (cases "dropWhile (\<lambda>x. x \<noteq> c) s") auto
  then have "d = c" using hd_dropWhile [of "\<lambda>x. x \<noteq> c" s] by auto
  then show "s = a @ c # b" using d a takeWhile_dropWhile_id [of "\<lambda>x. x \<noteq> c" s] by simp
  show "c \<notin> set a" using a(1) by (auto dest: set_takeWhileD)
qed

lemma partition_at_append:
  assumes "c \<notin> set a"
  shows "partition_at c (a @ c # b) = (a, True, b)"
proof -
  have "takeWhile (\<lambda>x. x \<noteq> c) (a @ c # b) = a" "dropWhile (\<lambda>x. x \<noteq> c) (a @ c # b) = c # b"
    using assms by (induction a) auto
  then show ?thesis by (simp add: partition_at_def)
qed

lemma replace_char_append [simp]: "replace_char a b (s @ t) = replace_char a b s @ replace_char a b t"
  by (simp add: replace_char_def)

lemma upper_append [simp]: "upper (s @ t) = upper s @ upper t"
  by (simp add: upper_def)

lemma env_fold_append [simp]: "env_fold (s @ t) = env_fold s @ env_fold t"
  by (simp add: env_fold_def)

lemma env_fold_Nil [simp]: "env_fold [] = []"
  by (simp add: env_fold_def replace_char_def upper_def)

lemma env_fold_slash [simp]: "env_fold (CHR ''/'' # s) = ''__'' @ env_fold s"
  using env_fold_append [of "''/''" s]
  by (simp add: env_fold_def upper_def upper_char_def replace_char_def)

lemma env_fold_const: "env_fold ''CONFIG__'' = ''CONFIG__''" "env_fold ''__'' = ''__''"
    "env_fold ''__TOOLS__'' = ''__'' @ env_fold ''tools'' @ ''__''"
  by code_simp+

lemma env_key_fold: "env_key m field = ''CONFIG__'' @ env_fold m @ ''__'' @ env_fold field"
  by (simp only: env_key_def env_fold_append env_fold_const)

lemma env_key_tool_fold:
  "env_key_tool m tool field = ''CONFIG__'' @ env_fold m @ ''__'' @ env_fold ''tools'' @ ''__'' @ env_fold tool @ ''__'' @ env_fold field"
  by (simp only: env_key_tool_def env_fold_append env_fold_const append_assoc)

text \<open>The key of a path that parses is the folded path itself.\<close>

lemma path_to_env_key_parsed:
  assumes "parse_config_path path \<noteq> None"
  shows "path_to_env_key path = ''CONFIG__'' @ env_fold path"
proof -
  obtain m rest where p: "partition_at (CHR ''/'') path = (m, True, rest)"
    using assms by (auto simp: parse_config_path_def partition_at_def split: if_splits)
  obtain head sep tail where h: "partition_at (CHR ''/'') rest = (head, sep, tail)" by (rule prod_cases3)
  have path: "path = m @ CHR ''/'' # rest" by (rule partition_at_eq [OF p])
  show ?thesis
  proof (cases "head = ''tools''")
    case False
    then have "parse_config_path path = Some (m, None, rest)"
      using assms p h by (auto simp: parse_config_path_def Let_def split: if_splits)
    then show ?thesis by (simp add: path_to_env_key_def env_key_fold path)
  next
    case True
    then have sep: "sep" "CHR ''/'' \<in> set tail" using assms p h by (auto simp: parse_config_path_def split: if_splits)
    then obtain tool field where t: "partition_at (CHR ''/'') tail = (tool, True, field)"
      by (simp add: partition_at_def)
    have "rest = ''tools'' @ CHR ''/'' # tail" using partition_at_eq(1) [of "CHR ''/''" rest head tail] h sep True by simp
    moreover have "tail = tool @ CHR ''/'' # field" by (rule partition_at_eq [OF t])
    moreover have "parse_config_path path = Some (m, Some tool, field)"
      using assms p h t True by (auto simp: parse_config_path_def Let_def split: if_splits)
    moreover from calculation have "env_fold rest
        = env_fold ''tools'' @ ''__'' @ env_fold tool @ ''__'' @ env_fold field"
      by (simp only: env_fold_append env_fold_slash append_assoc)
    ultimately show ?thesis
      by (simp add: path_to_env_key_def env_key_tool_fold path)
  qed
qed

text \<open>A plain path: lower case, digits, \<open>_\<close> and \<open>/\<close>.\<close>

definition plain_char :: "char \<Rightarrow> bool" where
  "plain_char c \<longleftrightarrow> is_lower c \<or> is_digit c \<or> c = CHR ''_'' \<or> c = CHR ''/''"

lemma lower_env_fold_char:
  assumes "plain_char c"
  shows "lower (env_fold [c]) = (if c = CHR ''/'' then ''__'' else [c])"
proof -
  have "c \<in> set ''abcdefghijklmnopqrstuvwxyz0123456789_/''"
    using assms by (auto simp: plain_char_def is_lower_def is_digit_def)
  moreover have "list_all (\<lambda>c. lower (env_fold [c]) = (if c = CHR ''/'' then ''__'' else [c]))
      ''abcdefghijklmnopqrstuvwxyz0123456789_/''" by code_simp
  ultimately show ?thesis unfolding list_all_iff by blast
qed

lemma slash_dunders_fold:
  assumes "\<forall>c \<in> set s. plain_char c" "\<not> contains_str ''__'' s" "\<not> contains_str ''_/'' s"
  shows "slash_dunders (lower (env_fold s)) = s"
  using assms
proof (induction s)
  case (Cons c s)
  have split: "env_fold (c # s) = env_fold [c] @ env_fold s" using env_fold_append [of "[c]" s] by simp
  have lower: "lower (env_fold (c # s)) = (if c = CHR ''/'' then ''__'' else [c]) @ lower (env_fold s)"
    unfolding split using lower_env_fold_char [of c] Cons.prems(1) by (simp add: lower_def)
  have [simp]: "lower [] = []" by (simp add: lower_def)
  have IH: "slash_dunders (lower (env_fold s)) = s" using Cons by simp
  have skip: "slash_dunders (c # y) = c # slash_dunders y" if "c \<noteq> CHR ''_''" for y
    using that by (cases y) simp_all
  show ?case
  proof (cases "c = CHR ''_''")
    case True
    show ?thesis
    proof (cases s)
      case (Cons d t)
      have d: "d \<noteq> CHR ''_''" "d \<noteq> CHR ''/''" "plain_char d"
        using Cons.prems True Cons by (auto simp: starts_with_def)
      then have "lower (env_fold s) = d # lower (env_fold t)"
        using lower_env_fold_char [of d] env_fold_append [of "[d]" t] Cons by (simp add: lower_def)
      then show ?thesis using IH d(1) True lower by simp
    next
      case Nil
      then show ?thesis using lower True by simp
    qed
  next
    case False
    then show ?thesis using IH skip [OF False] by (simp add: lower)
  qed
qed (simp add: lower_def)

theorem env_key_round_trip:
  assumes "parse_config_path path \<noteq> None" "\<forall>c \<in> set path. plain_char c"
    "\<not> contains_str ''__'' path" "\<not> contains_str ''_/'' path"
  shows "env_key_to_path (path_to_env_key path) = path"
  using slash_dunders_fold [OF assms(2-4)]
  by (simp add: env_key_to_path_def path_to_env_key_parsed [OF assms(1)] removeprefix_def starts_with_def)

theorem env_key_round_trip_witness:
  "env_key_to_path (path_to_env_key ''agent_view/codex/approval_mode'') = ''agent_view/codex/approval_mode''"
  by (rule env_key_round_trip) code_simp+

lemma env_key_loses_dunder:
  "env_key_to_path (path_to_env_key ''agent_view/codex__mode'') = ''agent_view/codex/mode''"
  by code_simp

end
