(* ===== verification/Config_Schema.thy ===== *)
theory Config_Schema
  imports Config_Paths
begin

text \<open>
  The schema of a configuration field (\<open>config_schema.py\<close>, \<open>config_validation.py\<close>): who may
  read it, where it may be set, its bounds and its length. A schema is the dict of
  \<open>system.json\<close>. The registry of restricted fields remembers every one that was ever scanned.
\<close>

section \<open>Scopes\<close>

definition DEFAULT :: string where "DEFAULT = ''default''"
definition WORKSPACE :: string where "WORKSPACE = ''workspace''"
definition AGENT_VIEW :: string where "AGENT_VIEW = ''agent_view''"

lemmas scope_defs = DEFAULT_def WORKSPACE_def AGENT_VIEW_def

definition SCOPE_TO_FLAG :: "(string \<times> string) list" where
  "SCOPE_TO_FLAG = [(DEFAULT, ''showInDefault''), (WORKSPACE, ''showInWorkspace''), (AGENT_VIEW, ''showInAgentView'')]"

definition is_scope_allowed :: "pyval \<Rightarrow> string \<Rightarrow> bool" where
  "is_scope_allowed schema scope = (case map_of SCOPE_TO_FLAG scope of None \<Rightarrow> True
     | Some flag \<Rightarrow> py_truth (py_get_or schema flag (PyBool True)))"

definition allowed_scopes :: "pyval \<Rightarrow> string list" where
  "allowed_scopes schema =
     map fst (filter (\<lambda>(scope, flag). py_truth (py_get_or schema flag (PyBool True))) SCOPE_TO_FLAG)"

section \<open>Access\<close>

definition is_toolbox_only :: "pyval \<Rightarrow> bool" where
  "is_toolbox_only schema \<longleftrightarrow> py_get schema ''access'' = PyStr ''toolbox_only''"

definition is_secret_field :: "pyval \<Rightarrow> bool" where
  "is_secret_field schema \<longleftrightarrow>
     \<not> is_py_dict schema \<or> py_get schema ''type'' = PyStr ''obscure'' \<or> is_toolbox_only schema"

definition env_allowed :: "pyval \<Rightarrow> bool" where
  "env_allowed schema \<longleftrightarrow> py_get_or schema ''allowEnv'' (PyBool True) \<noteq> PyBool False"

definition is_restricted :: "pyval \<Rightarrow> bool" where
  "is_restricted schema \<longleftrightarrow> is_toolbox_only schema \<or> \<not> env_allowed schema"

type_synonym field_schemas = "(string \<times> pyval) list"

definition remember_restricted_fields :: "string \<Rightarrow> field_schemas \<Rightarrow> field_schemas \<Rightarrow> field_schemas" where
  "remember_restricted_fields m config reg =
     fold (\<lambda>(field, schema) reg. if is_py_dict schema \<and> is_restricted schema
             then dict_put (m @ ''/'' @ field, schema) reg else reg) config reg"

definition restricted_schema :: "field_schemas \<Rightarrow> string \<Rightarrow> pyval option" where
  "restricted_schema reg path = map_of reg path"

section \<open>Numbers\<close>

text \<open>
  A Python float: a rational, an infinity or NaN. \<open>float(text)\<close> rounds, so it is an argument of
  the definitions; \<open>None\<close> is its \<open>ValueError\<close>. A coerced value is a JSON value or a float.
\<close>

datatype number = Fin rat | PosInf | NegInf | NaN

datatype cvalue = CVal pyval | CFlt number

datatype cfg_error =
    ToolboxOnly string
  | DecryptFailed string
  | MissingBoundedDefault string string
  | ValueErr
  | TypeErr
  | OverflowErr
  | AttrErr
  | IoErr
  | Unreadable
  | ConfigWriteErr string

text \<open>\<open>int(text)\<close>: the interpreter refuses more than 4300 digits.\<close>

definition int_of_str :: "string \<Rightarrow> int option" where
  "int_of_str s = (if 4300 < length (filter is_digit s) then None else int_of_text s)"

definition str_int :: "int \<Rightarrow> string" where
  "str_int n = (if n < 0 then ''-'' @ str_nat (nat (- n)) else str_nat (nat n))"

text \<open>\<open>int(str(value).strip())\<close> or \<open>float(str(value).strip())\<close>; the text of any value but a
  number or a string is no number.\<close>

fun as_number :: "(string \<Rightarrow> number option) \<Rightarrow> bool \<Rightarrow> cvalue \<Rightarrow> number option" where
  "as_number float_of integer (CVal (PyStr s)) =
     (if integer then map_option (\<lambda>n. Fin (rat_of_int n)) (int_of_str (strip s)) else float_of (strip s))"
| "as_number float_of integer (CVal (PyInt n)) =
     (if integer then Some (Fin (rat_of_int n)) else float_of (str_int n))"
| "as_number float_of integer (CVal (PyFloat r)) = (if integer then None else Some (Fin r))"
| "as_number float_of integer (CFlt x) = (if integer then None else Some x)"
| "as_number float_of integer v = None"

text \<open>\<open>math.isfinite\<close> converts an int to a float first, which overflows from halfway past the
  largest float on.\<close>

definition FLOAT_LIMIT :: rat where
  "FLOAT_LIMIT = 2 ^ 1024 - 2 ^ 970"

fun isfinite :: "bool \<Rightarrow> number \<Rightarrow> cfg_error + bool" where
  "isfinite integer (Fin r) = (if integer \<and> FLOAT_LIMIT \<le> \<bar>r\<bar> then Inl OverflowErr else Inr True)"
| "isfinite integer x = Inr False"

text \<open>A declared bound as a number; comparing with anything else is a \<open>TypeError\<close>.\<close>

fun bound_of :: "pyval \<Rightarrow> cfg_error + rat option" where
  "bound_of PyNone = Inr None"
| "bound_of (PyInt n) = Inr (Some (rat_of_int n))"
| "bound_of (PyFloat r) = Inr (Some r)"
| "bound_of (PyBool b) = Inr (Some (if b then 1 else 0))"
| "bound_of v = Inl TypeErr"

datatype bound_message = NotANumber | NotFinite | OutOfRange

definition out_of_range :: "pyval \<Rightarrow> pyval \<Rightarrow> rat \<Rightarrow> cfg_error + bool" where
  "out_of_range minimum maximum r =
     (case bound_of minimum of Inl e \<Rightarrow> Inl e
      | Inr (Some lo) \<Rightarrow> if r < lo then Inr True else
          (case bound_of maximum of Inl e \<Rightarrow> Inl e | Inr None \<Rightarrow> Inr False | Inr (Some hi) \<Rightarrow> Inr (hi < r))
      | Inr None \<Rightarrow>
          (case bound_of maximum of Inl e \<Rightarrow> Inl e | Inr None \<Rightarrow> Inr False | Inr (Some hi) \<Rightarrow> Inr (hi < r)))"

definition is_bounded :: "pyval \<Rightarrow> bool" where
  "is_bounded schema \<longleftrightarrow> py_get schema ''min'' \<noteq> PyNone \<or> py_get schema ''max'' \<noteq> PyNone"

definition numeric_bound_error ::
    "(string \<Rightarrow> number option) \<Rightarrow> pyval \<Rightarrow> cvalue \<Rightarrow> cfg_error + bound_message option" where
  "numeric_bound_error float_of schema v =
     (let integer = (py_get schema ''type'' = PyStr ''integer'') in
      case as_number float_of integer v of
        None \<Rightarrow> Inr (if is_bounded schema then Some NotANumber else None)
      | Some x \<Rightarrow>
          if \<not> is_bounded schema then Inr None
          else (case isfinite integer x of Inl e \<Rightarrow> Inl e
                | Inr False \<Rightarrow> Inr (Some NotFinite)
                | Inr True \<Rightarrow>
                    (case x of Fin r \<Rightarrow>
                       (case out_of_range (py_get schema ''min'') (py_get schema ''max'') r of
                          Inl e \<Rightarrow> Inl e
                        | Inr out \<Rightarrow> Inr (if out then Some OutOfRange else None))
                     | _ \<Rightarrow> Inr None)))"

section \<open>Length\<close>

definition MAX_LENGTH_TYPES :: "pyval list" where
  "MAX_LENGTH_TYPES = [PyStr ''string'', PyStr ''obscure'', PyStr ''textarea'']"

definition max_length_of :: "pyval \<Rightarrow> nat option" where
  "max_length_of field_def =
     (if \<not> is_py_dict field_def then None
      else if py_get_or field_def ''type'' (PyStr ''string'') \<notin> set MAX_LENGTH_TYPES then None
      else (case py_get field_def ''maxLength'' of PyInt n \<Rightarrow> if n \<le> 0 then None else Some (nat n) | _ \<Rightarrow> None))"

text \<open>The UTF-8 bytes of Latin-1 text: one below 128, two from there on.\<close>

definition utf8_size :: "string \<Rightarrow> nat" where
  "utf8_size s = sum_list (map (\<lambda>c. if (of_char c :: nat) < 128 then 1 else 2) s)"

text \<open>The message names the size and the limit.\<close>

definition validate_field_value :: "pyval \<Rightarrow> string \<Rightarrow> (nat \<times> nat) option" where
  "validate_field_value field_def value =
     (case max_length_of field_def of None \<Rightarrow> None
      | Some limit \<Rightarrow> if limit < utf8_size value then Some (utf8_size value, limit) else None)"

section \<open>Facts\<close>

lemma map_sum_Inr [simp]: "map_sum id f x = Inr y \<longleftrightarrow> (\<exists>z. x = Inr z \<and> y = f z)"
  by (cases x) auto

lemma map_sum_Inl [simp]: "map_sum id f x = Inl e \<longleftrightarrow> x = Inl e"
  by (cases x) auto

text \<open>A value that passes is a finite number within the bounds.\<close>

definition in_bounds :: "(string \<Rightarrow> number option) \<Rightarrow> pyval \<Rightarrow> cvalue \<Rightarrow> bool" where
  "in_bounds float_of schema v \<longleftrightarrow>
     (case as_number float_of (py_get schema ''type'' = PyStr ''integer'') v of
        Some (Fin r) \<Rightarrow> (case bound_of (py_get schema ''min'') of Inr (Some lo) \<Rightarrow> lo \<le> r | _ \<Rightarrow> True)
          \<and> (case bound_of (py_get schema ''max'') of Inr (Some hi) \<Rightarrow> r \<le> hi | _ \<Rightarrow> True)
      | _ \<Rightarrow> False)"

lemma isfinite_True: "isfinite integer x = Inr True \<Longrightarrow> \<exists>r. x = Fin r"
  by (cases x) (auto split: if_splits)

lemma in_range: "out_of_range minimum maximum r = Inr False \<Longrightarrow>
    (case bound_of minimum of Inr (Some lo) \<Rightarrow> lo \<le> r | _ \<Rightarrow> True)
    \<and> (case bound_of maximum of Inr (Some hi) \<Rightarrow> r \<le> hi | _ \<Rightarrow> True)"
  by (auto simp: out_of_range_def split: sum.splits option.splits if_splits)

lemma bound_ok_in_bounds:
  assumes "is_bounded schema" "numeric_bound_error float_of schema v = Inr None"
  shows "in_bounds float_of schema v"
proof -
  let ?i = "py_get schema ''type'' = PyStr ''integer''"
  obtain x where x: "as_number float_of ?i v = Some x" "isfinite ?i x = Inr True"
    using assms by (auto simp: numeric_bound_error_def Let_def split: option.splits sum.splits bool.splits)
  then obtain r where r: "x = Fin r" using isfinite_True by blast
  then have "out_of_range (py_get schema ''min'') (py_get schema ''max'') r = Inr False"
    using assms x by (auto simp: numeric_bound_error_def Let_def split: sum.splits if_splits)
  from in_range [OF this] show ?thesis by (simp add: in_bounds_def x(1) r)
qed

text \<open>What was remembered as restricted stays so.\<close>

definition restricted_in :: "field_schemas \<Rightarrow> string \<Rightarrow> bool" where
  "restricted_in reg path \<longleftrightarrow> (\<exists>schema. restricted_schema reg path = Some schema \<and> is_restricted schema)"

lemma remember_restricted: "restricted_in reg path \<Longrightarrow> restricted_in (remember_restricted_fields m config reg) path"
  unfolding remember_restricted_fields_def
  by (induction config arbitrary: reg)
    (auto simp: restricted_in_def restricted_schema_def map_of_dict_put split: if_splits)

lemma remember_declared:
  assumes "(field, schema) \<in> set config" "is_py_dict schema" "is_restricted schema"
  shows "restricted_in (remember_restricted_fields m config reg) (m @ ''/'' @ field)"
  using assms(1)
proof (induction config arbitrary: reg)
  case (Cons c config)
  show ?case
  proof (cases "c = (field, schema)")
    case True
    then have "restricted_in (dict_put (m @ ''/'' @ field, schema) reg) (m @ ''/'' @ field)"
      using assms(3) by (simp add: restricted_in_def restricted_schema_def map_of_dict_put)
    then show ?thesis using remember_restricted [of _ _ m config] True assms(2,3)
      by (simp add: remember_restricted_fields_def)
  next
    case False
    then show ?thesis using Cons by (simp add: remember_restricted_fields_def)
  qed
qed simp

end
