(* ===== verification/Config_Rows.thy ===== *)
theory Config_Rows
  imports Config_Schema
begin

text \<open>
  The table \<open>core_config_data\<close> (\<open>scoped_config.py\<close>, \<open>core_config.py\<close>): a value per scope and path,
  three scopes, the most specific first. Queries compare text verbatim. A connection that is
  absent or fails is \<open>None\<close>.
\<close>

section \<open>The table\<close>

record cfg_row =
  cf_scope :: string
  cf_scope_id :: int
  cf_path :: string
  cf_value :: "string option"
  cf_encrypted :: bool

type_synonym cfg_table = "cfg_row list"

text \<open>A dict of overrides: path to value and encrypted flag.\<close>

type_synonym overrides = "(string \<times> (string option \<times> bool)) list"

definition at_key :: "string \<Rightarrow> int \<Rightarrow> string \<Rightarrow> cfg_row \<Rightarrow> bool" where
  "at_key scope sid path r \<longleftrightarrow> cf_scope r = scope \<and> cf_scope_id r = sid \<and> cf_path r = path"

definition load_scoped_db_overrides :: "bool \<Rightarrow> cfg_table option \<Rightarrow> string \<Rightarrow> int \<Rightarrow> cfg_error + overrides" where
  "load_scoped_db_overrides strict conn scope sid =
     (case conn of
        None \<Rightarrow> if strict then Inl Unreadable else Inr []
      | Some rows \<Rightarrow> Inr (dict_update
          (map (\<lambda>r. (cf_path r, cf_value r, cf_encrypted r))
             (filter (\<lambda>r. cf_scope r = scope \<and> cf_scope_id r = sid) rows)) []))"

definition load_db_overrides :: "cfg_table option \<Rightarrow> overrides" where
  "load_db_overrides conn = (case load_scoped_db_overrides False conn DEFAULT 0 of Inl e \<Rightarrow> [] | Inr d \<Rightarrow> d)"

definition layer :: "bool \<Rightarrow> cfg_table option \<Rightarrow> string \<Rightarrow> int option \<Rightarrow> cfg_error + overrides \<Rightarrow> cfg_error + overrides" where
  "layer strict conn scope sid merged =
     (case merged of Inl e \<Rightarrow> Inl e
      | Inr m \<Rightarrow> (case sid of None \<Rightarrow> Inr m
          | Some i \<Rightarrow> (case load_scoped_db_overrides strict conn scope i of Inl e \<Rightarrow> Inl e
              | Inr d \<Rightarrow> Inr (dict_update d m))))"

definition build_scoped_overrides :: "bool \<Rightarrow> cfg_table option \<Rightarrow> int option \<Rightarrow> int option \<Rightarrow> cfg_error + overrides" where
  "build_scoped_overrides strict conn agent_view_id workspace_id =
     layer strict conn AGENT_VIEW agent_view_id
       (layer strict conn WORKSPACE workspace_id
         (load_scoped_db_overrides strict conn DEFAULT 0))"

section \<open>Writes\<close>

text \<open>\<open>INSERT ... ON DUPLICATE KEY UPDATE\<close>. The cipher text is an argument.\<close>

definition scoped_config_set ::
    "(string \<Rightarrow> string) \<Rightarrow> string \<Rightarrow> string \<Rightarrow> string \<Rightarrow> int \<Rightarrow> bool \<Rightarrow> cfg_table \<Rightarrow> cfg_table" where
  "scoped_config_set encrypt path value scope sid encrypted rows =
     (let stored = Some (if encrypted then encrypt value else value) in
      if \<exists>r \<in> set rows. at_key scope sid path r
      then map (\<lambda>r. if at_key scope sid path r then r\<lparr>cf_value := stored, cf_encrypted := encrypted\<rparr> else r) rows
      else rows @ [\<lparr>cf_scope = scope, cf_scope_id = sid, cf_path = path, cf_value = stored, cf_encrypted = encrypted\<rparr>])"

definition config_set :: "(string \<Rightarrow> string) \<Rightarrow> string \<Rightarrow> string \<Rightarrow> bool \<Rightarrow> cfg_table \<Rightarrow> cfg_table" where
  "config_set encrypt path value encrypted rows = scoped_config_set encrypt path value DEFAULT 0 encrypted rows"

definition config_delete :: "string \<Rightarrow> string \<Rightarrow> int \<Rightarrow> cfg_table \<Rightarrow> cfg_error + (bool \<times> cfg_table)" where
  "config_delete path scope sid rows =
     (if path = [] \<or> CHR ''/'' \<notin> set path then Inl ValueErr
      else if scope \<notin> set [DEFAULT, WORKSPACE, AGENT_VIEW] then Inl ValueErr
      else Inr (\<exists>r \<in> set rows. at_key scope sid path r, filter (\<lambda>r. \<not> at_key scope sid path r) rows))"

section \<open>Listings\<close>

text \<open>\<open>s LIKE pattern\<close>.\<close>

fun sql_like :: "string \<Rightarrow> string \<Rightarrow> bool" where
  "sql_like [] s = (s = [])"
| "sql_like (p # ps) [] = (p = CHR ''%'' \<and> sql_like ps [])"
| "sql_like (p # ps) (c # s) =
     (if p = CHR ''%'' then sql_like ps (c # s) \<or> sql_like (p # ps) s
      else (p = CHR ''_'' \<or> p = c) \<and> sql_like ps s)"

definition row_order :: "cfg_row \<Rightarrow> string \<times> string \<times> int" where
  "row_order r = (cf_path r, cf_scope r, cf_scope_id r)"

text \<open>A listed row with the value as it is shown; \<open>obscure\<close> is \<open>is_path_obscure\<close>.\<close>

record shown_row =
  sh_scope :: string
  sh_scope_id :: int
  sh_path :: string
  sh_value :: "string option"
  sh_encrypted :: bool
  sh_obscure :: bool

definition shown :: "(string \<Rightarrow> bool) \<Rightarrow> cfg_row \<Rightarrow> shown_row" where
  "shown obscure r =
     (let hide = cf_encrypted r \<or> obscure (cf_path r) in
      \<lparr>sh_scope = cf_scope r, sh_scope_id = cf_scope_id r, sh_path = cf_path r,
       sh_value = (if hide then Some ''****'' else cf_value r), sh_encrypted = cf_encrypted r, sh_obscure = hide\<rparr>)"

definition config_list :: "(string \<Rightarrow> bool) \<Rightarrow> string \<Rightarrow> cfg_table \<Rightarrow> shown_row list" where
  "config_list obscure prefix rows =
     map (shown obscure) (sort_key row_order
       (if prefix = [] then rows else filter (\<lambda>r. sql_like (dash_fold prefix @ ''%'') (cf_path r)) rows))"

text \<open>\<open>config_get\<close> shows the stored value; the caller looks at the flags.\<close>

definition config_get :: "(string \<Rightarrow> bool) \<Rightarrow> string \<Rightarrow> cfg_table \<Rightarrow> shown_row list" where
  "config_get obscure path rows =
     map (\<lambda>r. (shown obscure r)\<lparr>sh_value := cf_value r\<rparr>)
       (sort_key (\<lambda>r. (cf_scope r, cf_scope_id r)) (filter (\<lambda>r. cf_path r = path) rows))"

text \<open>\<open>config_get_tree\<close>: the label of a scope is the code of the workspace or the agent view.\<close>

definition config_get_tree ::
    "(string \<Rightarrow> bool) \<Rightarrow> (string \<Rightarrow> int \<Rightarrow> string option) \<Rightarrow> string \<Rightarrow> cfg_table \<Rightarrow> (shown_row \<times> string) list" where
  "config_get_tree obscure codes prefix rows =
     map (\<lambda>r. (shown obscure r,
            if cf_scope r \<in> {WORKSPACE, AGENT_VIEW}
            then (case codes (cf_scope r) (cf_scope_id r) of None \<Rightarrow> [] | Some c \<Rightarrow> c) else []))
       (sort_key row_order (filter (\<lambda>r. sql_like (dash_fold prefix @ ''%'') (cf_path r)) rows))"

section \<open>\<open>resolve_with_origin\<close>\<close>

datatype origin = OriginEnv | OriginAgentView | OriginWorkspace | OriginDefault | OriginConfigJson | OriginAbsent

fun origin_rank :: "origin \<Rightarrow> int" where
  "origin_rank OriginEnv = 40"
| "origin_rank OriginAgentView = 30"
| "origin_rank OriginWorkspace = 20"
| "origin_rank OriginDefault = 10"
| "origin_rank OriginConfigJson = 0"
| "origin_rank OriginAbsent = - 1"

text \<open>The loop over the scopes: the first row with a value.\<close>

fun first_scope ::
    "cfg_table option \<Rightarrow> string \<Rightarrow> (string \<times> int option \<times> origin) list \<Rightarrow> (string \<times> origin) option" where
  "first_scope conn path [] = None"
| "first_scope conn path ((scope, sid, rank) # rest) =
     (case sid of None \<Rightarrow> first_scope conn path rest
      | Some i \<Rightarrow>
          (case load_scoped_db_overrides False conn scope i of Inl e \<Rightarrow> None
           | Inr rows \<Rightarrow> (case map_of rows path of
               Some (Some v, encrypted) \<Rightarrow> Some (v, rank)
             | _ \<Rightarrow> first_scope conn path rest)))"

definition resolve_with_origin ::
    "(string \<Rightarrow> string option) \<Rightarrow> cfg_table option \<Rightarrow> string \<Rightarrow> int option \<Rightarrow> int option \<Rightarrow> string option
     \<Rightarrow> string option \<times> origin" where
  "resolve_with_origin environ conn path agent_view_id workspace_id config_json =
     (case environ (path_to_env_key path) of Some v \<Rightarrow> (Some v, OriginEnv)
      | None \<Rightarrow>
          (case first_scope conn path [(AGENT_VIEW, agent_view_id, OriginAgentView),
                  (WORKSPACE, workspace_id, OriginWorkspace), (DEFAULT, Some 0, OriginDefault)] of
             Some (v, rank) \<Rightarrow> (Some v, rank)
           | None \<Rightarrow> (case config_json of Some v \<Rightarrow> (Some v, OriginConfigJson) | None \<Rightarrow> (None, OriginAbsent))))"

section \<open>Facts\<close>

lemma map_of_dict_update: "map_of (dict_update new d) k = (case map_of (rev new) k of None \<Rightarrow> map_of d k | Some v \<Rightarrow> Some v)"
proof (induction new arbitrary: d)
  case (Cons x new)
  have "map_of (dict_update (x # new) d) k = map_of (dict_update new (dict_put x d)) k"
    by (simp add: dict_update_def)
  also have "\<dots> = (case map_of (rev new) k of None \<Rightarrow> map_of (dict_put x d) k | Some v \<Rightarrow> Some v)"
    by (rule Cons.IH)
  finally show ?case by (cases x) (auto simp: map_of_dict_put map_add_def split: option.splits)
qed (simp add: dict_update_def)

lemma load_lenient: "\<exists>d. load_scoped_db_overrides False conn scope sid = Inr d"
  by (auto simp: load_scoped_db_overrides_def split: option.splits)

text \<open>The row a scope has at a path, as the dict of that scope holds it.\<close>

definition scope_entry :: "cfg_table option \<Rightarrow> string \<Rightarrow> int \<Rightarrow> string \<Rightarrow> (string option \<times> bool) option" where
  "scope_entry conn scope sid path =
     (case load_scoped_db_overrides False conn scope sid of Inl e \<Rightarrow> None | Inr d \<Rightarrow> map_of d path)"

lemma map_of_distinct_keys: "distinct (map fst d) \<Longrightarrow> map_of (rev d) = map_of d"
  by (rule map_of_inject_set [THEN iffD2]) (auto simp: rev_map [symmetric])

lemma dict_update_distinct: "distinct (map fst d) \<Longrightarrow> distinct (map fst (dict_update new d))"
  unfolding dict_update_def by (induction new arbitrary: d) (simp_all add: dict_put_distinct)

lemma load_distinct: "load_scoped_db_overrides strict conn scope sid = Inr d \<Longrightarrow> distinct (map fst d)"
  using dict_update_distinct [of "[]"] by (auto simp: load_scoped_db_overrides_def split: option.splits if_splits)

lemma layer_lookup:
  assumes "layer strict conn scope sid (Inr m) = Inr d"
  shows "map_of d path = (case sid of None \<Rightarrow> map_of m path
    | Some i \<Rightarrow> (case scope_entry conn scope i path of None \<Rightarrow> map_of m path | Some e \<Rightarrow> Some e))"
proof (cases sid)
  case (Some i)
  obtain s where s: "load_scoped_db_overrides strict conn scope i = Inr s" "d = dict_update s m"
    using assms Some by (auto simp: layer_def split: sum.splits)
  have "load_scoped_db_overrides False conn scope i = Inr s"
    using s(1) by (auto simp: load_scoped_db_overrides_def split: option.splits if_splits)
  then have "scope_entry conn scope i path = map_of s path" by (simp add: scope_entry_def)
  then show ?thesis using Some s(2) map_of_distinct_keys [OF load_distinct [OF s(1)]]
    by (simp add: map_of_dict_update)
qed (use assms in \<open>simp add: layer_def\<close>)

text \<open>The merged dict holds the entry of the most specific scope that has one.\<close>

definition effective_entry :: "cfg_table option \<Rightarrow> int option \<Rightarrow> int option \<Rightarrow> string \<Rightarrow> (string option \<times> bool) option" where
  "effective_entry conn agent_view_id workspace_id path =
     coalesce (Option.bind agent_view_id (\<lambda>i. scope_entry conn AGENT_VIEW i path))
       (coalesce (Option.bind workspace_id (\<lambda>i. scope_entry conn WORKSPACE i path))
         (scope_entry conn DEFAULT 0 path))"

lemma build_lookup:
  assumes "build_scoped_overrides strict conn av ws = Inr d"
  shows "map_of d path = effective_entry conn av ws path"
proof -
  obtain d0 where d0: "load_scoped_db_overrides strict conn DEFAULT 0 = Inr d0"
    using assms by (auto simp: build_scoped_overrides_def layer_def split: sum.splits)
  obtain d1 where d1: "layer strict conn WORKSPACE ws (Inr d0) = Inr d1"
    using assms d0 by (auto simp: build_scoped_overrides_def layer_def split: sum.splits)
  have d: "layer strict conn AGENT_VIEW av (Inr d1) = Inr d"
    using assms d0 d1 by (simp add: build_scoped_overrides_def)
  have "load_scoped_db_overrides False conn DEFAULT 0 = Inr d0"
    using d0 by (auto simp: load_scoped_db_overrides_def split: option.splits if_splits)
  then have e0: "map_of d0 path = scope_entry conn DEFAULT 0 path" by (simp add: scope_entry_def)
  show ?thesis
    unfolding layer_lookup [OF d] layer_lookup [OF d1] e0 effective_entry_def
    by (cases av; cases ws) (auto split: option.splits)
qed

lemma build_lenient: "\<exists>d. build_scoped_overrides False conn av ws = Inr d"
  using load_lenient [of conn] unfolding build_scoped_overrides_def layer_def
  by (auto split: sum.splits option.splits) (metis sum.distinct(1))+

lemma loaded_entry: "load_scoped_db_overrides False (Some rows) scope sid = Inr d \<Longrightarrow>
    map_of d path = Some e \<Longrightarrow> \<exists>r \<in> set rows. e = (cf_value r, cf_encrypted r)"
proof -
  assume l: "load_scoped_db_overrides False (Some rows) scope sid = Inr d" "map_of d path = Some e"
  let ?new = "map (\<lambda>r. (cf_path r, cf_value r, cf_encrypted r)) (filter (\<lambda>r. cf_scope r = scope \<and> cf_scope_id r = sid) rows)"
  have "map_of (rev ?new) path = Some e"
    using l by (auto simp: load_scoped_db_overrides_def map_of_dict_update split: option.splits)
  then show ?thesis by (auto dest!: map_of_SomeD)
qed

lemma first_scope_entry:
  assumes "\<forall>r \<in> set rows. cf_value r \<noteq> None"
  shows "map_option fst (first_scope (Some rows) path ((scope, sid, rank) # rest))
    = (case Option.bind sid (\<lambda>i. scope_entry (Some rows) scope i path) of
         Some (v, encrypted) \<Rightarrow> v
       | None \<Rightarrow> map_option fst (first_scope (Some rows) path rest))"
proof (cases sid)
  case (Some i)
  obtain d where d: "load_scoped_db_overrides False (Some rows) scope i = Inr d" using load_lenient by blast
  then show ?thesis
    using Some assms loaded_entry [OF d, of path]
    by (auto simp: scope_entry_def split: option.splits prod.splits) fastforce+
qed simp

lemma scope_entry_value:
  assumes "\<forall>r \<in> set rows. cf_value r \<noteq> None"
  shows "scope_entry (Some rows) scope sid path \<noteq> Some (None, encrypted)"
proof -
  obtain d where d: "load_scoped_db_overrides False (Some rows) scope sid = Inr d" using load_lenient by blast
  have "map_of d path \<noteq> Some (None, encrypted)"
  proof
    assume "map_of d path = Some (None, encrypted)"
    then obtain r where "r \<in> set rows" "cf_value r = None" using loaded_entry [OF d] by fastforce
    with assms show False by blast
  qed
  then show ?thesis by (simp add: scope_entry_def d)
qed

lemma coalesce_cases: "coalesce a b = Some x \<Longrightarrow> (a = Some x \<Longrightarrow> P) \<Longrightarrow> (a = None \<Longrightarrow> b = Some x \<Longrightarrow> P) \<Longrightarrow> P"
  by (cases a) auto

section \<open>One read, two ways\<close>


definition sample_table :: cfg_table where
  "sample_table =
     [\<lparr>cf_scope = ''default'', cf_scope_id = 0, cf_path = ''agent_view/model'', cf_value = Some ''small'', cf_encrypted = False\<rparr>,
      \<lparr>cf_scope = ''agent_view'', cf_scope_id = 7, cf_path = ''agent_view/model'', cf_value = Some ''large'', cf_encrypted = False\<rparr>,
      \<lparr>cf_scope = ''workspace'', cf_scope_id = 2, cf_path = ''agent_view/model'', cf_value = Some ''medium'', cf_encrypted = False\<rparr>,
      \<lparr>cf_scope = ''default'', cf_scope_id = 0, cf_path = ''outlook/client_secret'', cf_value = Some ''#secret'', cf_encrypted = True\<rparr>]"

lemma sample_merged: "build_scoped_overrides True (Some sample_table) (Some 7) (Some 2) = Inr
    [(''agent_view/model'', (Some ''large'', False)), (''outlook/client_secret'', (Some ''#secret'', True))]"
  by code_simp


text \<open>With NULL in the more specific row the two ways differ.\<close>

definition null_table :: cfg_table where
  "null_table =
     [\<lparr>cf_scope = ''default'', cf_scope_id = 0, cf_path = ''core/x'', cf_value = Some ''v'', cf_encrypted = False\<rparr>,
      \<lparr>cf_scope = ''agent_view'', cf_scope_id = 7, cf_path = ''core/x'', cf_value = None, cf_encrypted = False\<rparr>]"

lemma null_row_hides_value:
  "fst (resolve_with_origin (\<lambda>_. None) (Some null_table) ''core/x'' (Some 7) None None) = Some ''v''
     \<and> build_scoped_overrides False (Some null_table) (Some 7) None = Inr [(''core/x'', (None, False))]"
  by code_simp

end
