(* ===== verification/Config_Resolver.thy ===== *)
theory Config_Resolver
  imports Config_Rows
begin

text \<open>
  The resolver ENV, then database, then \<open>config.json\<close> (\<open>config_resolver.py\<close>): one field, one tool
  field, and \<open>ScopedConfigService\<close>. What the process holds outside the database is one record:
  the environment, the decryptor, the number and JSON parsers of the standard library, the live
  modules and the registry of restricted fields.
\<close>

section \<open>Surroundings\<close>

record live_module =
  lm_name :: string
  lm_config :: field_schemas
  lm_defaults :: pyval

record cfg_env =
  ce_environ :: "(string \<times> string) list"
  ce_decrypt :: "string \<Rightarrow> string option"
  ce_float :: "string \<Rightarrow> number option"
  ce_loads :: "string \<Rightarrow> pyval option"
  ce_str :: "pyval \<Rightarrow> string"
  ce_modules :: "live_module list"
  ce_restricted :: field_schemas

definition environ :: "cfg_env \<Rightarrow> string \<Rightarrow> string option" where
  "environ env k = map_of (ce_environ env) k"

record resolved =
  rv_value :: cvalue
  rv_source :: string

abbreviation no_value :: cvalue where "no_value \<equiv> CVal PyNone"

section \<open>One field\<close>

definition coerce_type :: "cfg_env \<Rightarrow> string \<Rightarrow> pyval \<Rightarrow> cfg_error + cvalue" where
  "coerce_type env value field_type =
     (if field_type = PyStr ''integer'' then
        (case int_of_str value of None \<Rightarrow> Inl ValueErr | Some n \<Rightarrow> Inr (CVal (PyInt n)))
      else if field_type = PyStr ''number'' then
        (case ce_float env value of None \<Rightarrow> Inl ValueErr | Some x \<Rightarrow> Inr (CFlt x))
      else if field_type = PyStr ''boolean'' then
        Inr (CVal (PyBool (lower value \<in> set [''1'', ''true'', ''yes''])))
      else if field_type = PyStr ''json'' then
        (case ce_loads env value of None \<Rightarrow> Inl ValueErr | Some v \<Rightarrow> Inr (CVal v))
      else Inr (CVal (PyStr value)))"

text \<open>\<open>_resolve_from_db\<close>: the value and whether there is one.\<close>

definition resolve_from_db ::
    "cfg_env \<Rightarrow> string \<Rightarrow> overrides \<Rightarrow> bool \<Rightarrow> cfg_error + (string option \<times> bool)" where
  "resolve_from_db env path over strict =
     (case map_of over path of
        None \<Rightarrow> Inr (None, False)
      | Some (value, encrypted) \<Rightarrow>
          if encrypted then
            (case Option.bind value (ce_decrypt env) of
               Some plain \<Rightarrow> Inr (Some plain, True)
             | None \<Rightarrow> if strict then Inl (DecryptFailed path) else Inr (None, False))
          else Inr (value, True))"

text \<open>\<open>_checked_dynamic\<close>: \<open>None\<close> is \<open>_REJECT\<close>.\<close>

definition checked_dynamic :: "cfg_env \<Rightarrow> pyval \<Rightarrow> string \<Rightarrow> cfg_error + cvalue option" where
  "checked_dynamic env schema raw =
     (case coerce_type env raw (py_get_or schema ''type'' (PyStr ''string'')) of
        Inl e \<Rightarrow> if is_bounded schema then Inr None else Inl e
      | Inr v \<Rightarrow>
          if is_bounded schema then
            (case numeric_bound_error (ce_float env) schema v of
               Inl e \<Rightarrow> Inl e
             | Inr (Some msg) \<Rightarrow> Inr None
             | Inr None \<Rightarrow> Inr (Some v))
          else Inr (Some v))"

definition from_default :: "string \<Rightarrow> string \<Rightarrow> pyval \<Rightarrow> pyval \<Rightarrow> cfg_error + resolved" where
  "from_default m field schema defaults =
     (if py_get defaults field \<noteq> PyNone
      then Inr \<lparr>rv_value = CVal (py_get defaults field), rv_source = ''config.json''\<rparr>
      else if is_bounded schema then Inl (MissingBoundedDefault m field)
      else Inr \<lparr>rv_value = no_value, rv_source = ''none''\<rparr>)"

definition from_db ::
    "cfg_env \<Rightarrow> string \<Rightarrow> string \<Rightarrow> pyval \<Rightarrow> pyval \<Rightarrow> overrides \<Rightarrow> cfg_error + resolved" where
  "from_db env m field schema defaults over =
     (case resolve_from_db env (db_path m field) over False of
        Inl e \<Rightarrow> Inl e
      | Inr (Some raw, True) \<Rightarrow>
          (case checked_dynamic env schema raw of
             Inl e \<Rightarrow> Inl e
           | Inr (Some v) \<Rightarrow> Inr \<lparr>rv_value = v, rv_source = ''db''\<rparr>
           | Inr None \<Rightarrow> from_default m field schema defaults)
      | Inr _ \<Rightarrow> from_default m field schema defaults)"

definition resolve_field ::
    "cfg_env \<Rightarrow> string \<Rightarrow> string \<Rightarrow> pyval \<Rightarrow> pyval \<Rightarrow> overrides \<Rightarrow> cfg_error + resolved" where
  "resolve_field env m field schema defaults over =
     (if is_toolbox_only schema then Inr \<lparr>rv_value = no_value, rv_source = ''toolbox_only''\<rparr>
      else case (if env_allowed schema then environ env (env_key m field) else None) of
        Some raw \<Rightarrow>
          (case checked_dynamic env schema raw of
             Inl e \<Rightarrow> Inl e
           | Inr (Some v) \<Rightarrow> Inr \<lparr>rv_value = v, rv_source = ''env''\<rparr>
           | Inr None \<Rightarrow> from_default m field schema defaults)
      | None \<Rightarrow> from_db env m field schema defaults over)"

section \<open>One tool field\<close>

text \<open>\<open>config_defaults.get("tools", {}).get(tool, {}).get(field)\<close>.\<close>

definition tool_default :: "pyval \<Rightarrow> string \<Rightarrow> string \<Rightarrow> pyval" where
  "tool_default defaults tool field =
     py_get (py_get_or (py_get_or defaults ''tools'' (PyDict [])) tool (PyDict [])) field"

definition resolve_tool_field ::
    "cfg_env \<Rightarrow> string \<Rightarrow> string \<Rightarrow> string \<Rightarrow> pyval \<Rightarrow> pyval \<Rightarrow> overrides \<Rightarrow> cfg_error + resolved" where
  "resolve_tool_field env m tool field schema defaults over =
     (let typed = (\<lambda>raw source. case coerce_type env raw (py_get_or schema ''type'' (PyStr ''string'')) of
             Inl e \<Rightarrow> Inl e | Inr v \<Rightarrow> Inr \<lparr>rv_value = v, rv_source = source\<rparr>);
          default_of = (if tool_default defaults tool field \<noteq> PyNone
             then \<lparr>rv_value = CVal (tool_default defaults tool field), rv_source = ''config.json''\<rparr>
             else \<lparr>rv_value = no_value, rv_source = ''none''\<rparr>)
      in case environ env (env_key_tool m tool field) of
        Some raw \<Rightarrow> typed raw ''env''
      | None \<Rightarrow>
          (case resolve_from_db env (db_path_tool m tool field) over False of
             Inl e \<Rightarrow> Inl e
           | Inr (Some raw, True) \<Rightarrow> typed raw ''db''
           | Inr _ \<Rightarrow> Inr default_of))"

section \<open>A whole module\<close>

fun resolve_items ::
    "(string \<Rightarrow> pyval \<Rightarrow> cfg_error + 'a) \<Rightarrow> field_schemas \<Rightarrow> cfg_error + (string \<times> 'a) list" where
  "resolve_items f [] = Inr []"
| "resolve_items f ((field, schema) # rest) =
     (case f field schema of Inl e \<Rightarrow> Inl e
      | Inr v \<Rightarrow> (case resolve_items f rest of Inl e \<Rightarrow> Inl e | Inr kvs \<Rightarrow> Inr ((field, v) # kvs)))"

definition resolve_module_config_with_sources ::
    "cfg_env \<Rightarrow> live_module \<Rightarrow> pyval \<Rightarrow> overrides \<Rightarrow> cfg_error + (string \<times> resolved) list" where
  "resolve_module_config_with_sources env m defaults over =
     resolve_items (\<lambda>field schema. resolve_field env (lm_name m) field schema defaults over) (lm_config m)"

definition resolve_module_config ::
    "cfg_env \<Rightarrow> live_module \<Rightarrow> pyval \<Rightarrow> overrides \<Rightarrow> cfg_error + (string \<times> cvalue) list" where
  "resolve_module_config env m defaults over =
     (case resolve_module_config_with_sources env m defaults over of Inl e \<Rightarrow> Inl e
      | Inr kvs \<Rightarrow> Inr (map (\<lambda>(k, rv). (k, rv_value rv)) kvs))"

section \<open>\<open>ScopedConfigService\<close>\<close>

record service =
  sv_scope :: string
  sv_scope_id :: int
  sv_overrides :: overrides
  sv_scope_overrides :: overrides

text \<open>\<open>_resolve_workspace_id\<close>: \<open>workspace_of\<close> is the workspace of an agent view.\<close>

definition resolve_workspace_id ::
    "bool \<Rightarrow> cfg_table option \<Rightarrow> (int \<Rightarrow> int option) \<Rightarrow> int \<Rightarrow> cfg_error + int option" where
  "resolve_workspace_id strict conn workspace_of view =
     (case conn of None \<Rightarrow> if strict then Inl Unreadable else Inr None
      | Some rows \<Rightarrow> (case workspace_of view of Some w \<Rightarrow> Inr (Some w)
          | None \<Rightarrow> if strict then Inl Unreadable else Inr None))"

definition new_service ::
    "bool \<Rightarrow> cfg_table option \<Rightarrow> (int \<Rightarrow> int option) \<Rightarrow> string \<Rightarrow> int \<Rightarrow> int option \<Rightarrow> cfg_error + service" where
  "new_service strict conn workspace_of scope sid workspace_id =
     (case (if scope = AGENT_VIEW then
              (case workspace_id of Some w \<Rightarrow> Inr (Some w)
               | None \<Rightarrow> resolve_workspace_id strict conn workspace_of sid)
            else if scope = WORKSPACE then Inr (Some sid) else Inr workspace_id) of
        Inl e \<Rightarrow> Inl e
      | Inr ws \<Rightarrow>
          (case build_scoped_overrides strict conn (if scope = AGENT_VIEW then Some sid else None) ws of
             Inl e \<Rightarrow> Inl e
           | Inr merged \<Rightarrow>
               (case load_scoped_db_overrides strict conn scope sid of
                  Inl e \<Rightarrow> Inl e
                | Inr own \<Rightarrow> Inr \<lparr>sv_scope = scope, sv_scope_id = sid, sv_overrides = merged,
                                  sv_scope_overrides = own\<rparr>)))"

definition live_schema :: "cfg_env \<Rightarrow> string \<Rightarrow> string \<Rightarrow> pyval option" where
  "live_schema env m field =
     (case find (\<lambda>x. lm_name x = m) (ce_modules env) of None \<Rightarrow> None
      | Some x \<Rightarrow> (case map_of (lm_config x) field of
          Some schema \<Rightarrow> if is_py_dict schema then Some schema else None
        | None \<Rightarrow> None))"

definition field_schema :: "cfg_env \<Rightarrow> string \<Rightarrow> pyval" where
  "field_schema env path =
     (let (m, _, field) = partition_at (CHR ''/'') path;
          remembered = (case restricted_schema (ce_restricted env) path of None \<Rightarrow> PyDict [] | Some s \<Rightarrow> s)
      in if field = [] then remembered
         else case live_schema env m field of Some s \<Rightarrow> s | None \<Rightarrow> remembered)"

definition encrypted_value_without_schema :: "cfg_env \<Rightarrow> service \<Rightarrow> string \<Rightarrow> bool" where
  "encrypted_value_without_schema env sv path =
     (case map_of (sv_overrides sv) path of Some (v, True) \<Rightarrow> ce_modules env = [] | _ \<Rightarrow> False)"

text \<open>\<open>str(val) if val is not None else None\<close>.\<close>

definition str_or_none :: "cfg_env \<Rightarrow> pyval \<Rightarrow> string option" where
  "str_or_none env v = (if v = PyNone then None else Some (ce_str env v))"

definition resolve_module_config_json :: "cfg_env \<Rightarrow> string \<Rightarrow> string option" where
  "resolve_module_config_json env path =
     (case parse_config_path path of None \<Rightarrow> None
      | Some (m, tool, field) \<Rightarrow>
          (case find (\<lambda>x. lm_name x = m) (ce_modules env) of None \<Rightarrow> None
           | Some x \<Rightarrow>
               if \<not> py_truth (lm_defaults x) then None
               else (case tool of
                   Some t \<Rightarrow> str_or_none env (tool_default (lm_defaults x) t field)
                 | None \<Rightarrow> str_or_none env (py_get (lm_defaults x) field))))"

text \<open>The last module that declares the path verbatim wins.\<close>

definition resolve_literal_config_json :: "cfg_env \<Rightarrow> string \<Rightarrow> string option" where
  "resolve_literal_config_json env path =
     fold (\<lambda>x found. case lm_defaults x of
             PyDict kvs \<Rightarrow> (case map_of kvs (PyStr path) of None \<Rightarrow> found | Some v \<Rightarrow> str_or_none env v)
           | _ \<Rightarrow> found) (ce_modules env) None"

definition resolve_config_json :: "cfg_env \<Rightarrow> string \<Rightarrow> string option" where
  "resolve_config_json env path =
     coalesce (resolve_module_config_json env path) (resolve_literal_config_json env path)"

definition get_config :: "cfg_env \<Rightarrow> service \<Rightarrow> string \<Rightarrow> bool \<Rightarrow> cfg_error + string option" where
  "get_config env sv path strict =
     (let schema = field_schema env path in
      if is_toolbox_only schema then Inl (ToolboxOnly path)
      else case (if env_allowed schema then environ env (path_to_env_key path) else None) of
        Some v \<Rightarrow> Inr (Some v)
      | None \<Rightarrow>
          if \<not> py_truth schema \<and> encrypted_value_without_schema env sv (dash_fold path)
          then Inl (ToolboxOnly path)
          else (case resolve_from_db env (dash_fold path) (sv_overrides sv) strict of
                  Inl e \<Rightarrow> Inl e
                | Inr (Some v, True) \<Rightarrow> Inr (Some v)
                | Inr _ \<Rightarrow> Inr (resolve_config_json env path)))"

definition is_set_at_scope :: "service \<Rightarrow> string \<Rightarrow> bool" where
  "is_set_at_scope sv path \<longleftrightarrow> path \<in> fst ` set (sv_scope_overrides sv)"

definition all_paths :: "cfg_env \<Rightarrow> service \<Rightarrow> string list" where
  "all_paths env sv = remdups
     (map fst (sv_overrides sv)
      @ map env_key_to_path (filter (starts_with ''CONFIG__'') (map fst (ce_environ env)))
      @ concat (map (\<lambda>m. map (\<lambda>(field, s). lm_name m @ ''/'' @ field) (lm_config m)) (ce_modules env)))"

fun collect_paths :: "cfg_env \<Rightarrow> service \<Rightarrow> string list \<Rightarrow> cfg_error + (string \<times> string) list" where
  "collect_paths env sv [] = Inr []"
| "collect_paths env sv (p # ps) =
     (if is_toolbox_only (field_schema env p) then collect_paths env sv ps
      else case get_config env sv p False of
        Inl (ToolboxOnly q) \<Rightarrow> collect_paths env sv ps
      | Inl e \<Rightarrow> Inl e
      | Inr None \<Rightarrow> collect_paths env sv ps
      | Inr (Some v) \<Rightarrow> (case collect_paths env sv ps of Inl e \<Rightarrow> Inl e | Inr kvs \<Rightarrow> Inr ((p, v) # kvs)))"

definition resolve_all :: "cfg_env \<Rightarrow> service \<Rightarrow> cfg_error + (string \<times> string) list" where
  "resolve_all env sv = collect_paths env sv (all_paths env sv)"

text \<open>\<open>get_module\<close>, as the dict of values; \<open>None\<close> when no such module is live.\<close>

definition get_module ::
    "cfg_env \<Rightarrow> service \<Rightarrow> string \<Rightarrow> bool \<Rightarrow> cfg_error + (string \<times> cvalue) list option" where
  "get_module env sv m include_obscure =
     (case find (\<lambda>x. lm_name x = m) (ce_modules env) of
        None \<Rightarrow> Inr None
      | Some x \<Rightarrow>
          map_sum id Some (resolve_items (\<lambda>field schema.
              if \<not> include_obscure \<and> py_get schema ''type'' = PyStr ''obscure'' then Inr no_value
              else map_sum id rv_value (resolve_field env m field schema (lm_defaults x) (sv_overrides sv)))
            (lm_config x)))"

definition is_inherited :: "service \<Rightarrow> resolved \<Rightarrow> string \<Rightarrow> bool" where
  "is_inherited sv rv path \<longleftrightarrow>
     rv_source rv = ''db'' \<and> sv_scope sv \<noteq> DEFAULT \<and> path \<notin> fst ` set (sv_scope_overrides sv)"

definition resolve_field_with_source ::
    "cfg_env \<Rightarrow> service \<Rightarrow> string \<Rightarrow> string \<Rightarrow> pyval \<Rightarrow> pyval \<Rightarrow> cfg_error + (resolved \<times> bool)" where
  "resolve_field_with_source env sv m field schema defaults =
     (case resolve_field env m field schema defaults (sv_overrides sv) of Inl e \<Rightarrow> Inl e
      | Inr rv \<Rightarrow> Inr (rv, is_inherited sv rv (db_path m field)))"

definition resolve_tool_field_with_source ::
    "cfg_env \<Rightarrow> service \<Rightarrow> string \<Rightarrow> string \<Rightarrow> string \<Rightarrow> pyval \<Rightarrow> pyval \<Rightarrow> cfg_error + (resolved \<times> bool)" where
  "resolve_tool_field_with_source env sv m tool field schema defaults =
     (case resolve_tool_field env m tool field schema defaults (sv_overrides sv) of Inl e \<Rightarrow> Inl e
      | Inr rv \<Rightarrow> Inr (rv, is_inherited sv rv (db_path_tool m tool field)))"

text \<open>\<open>get_timezone\<close>, up to \<open>ZoneInfo\<close>.\<close>

definition timezone_name :: "cfg_env \<Rightarrow> pyval \<Rightarrow> overrides \<Rightarrow> cfg_error + pyval" where
  "timezone_name env defaults over =
     (case resolve_field env ''core'' ''timezone'' (PyDict [(PyStr ''type'', PyStr ''string'')]) defaults over of
        Inl e \<Rightarrow> Inl e
      | Inr rv \<Rightarrow> (case rv_value rv of CVal v \<Rightarrow> Inr (if py_truth v then v else PyStr ''UTC'') | CFlt x \<Rightarrow> Inr (PyStr ''UTC'')))"

end
