(* ===== verification/Config_Write.thy ===== *)
theory Config_Write
  imports Config_Resolver Access_Model
begin

text \<open>
  The one write path of the configuration (\<open>config_write.py\<close>, \<open>config_dependents.py\<close>,
  \<open>config_schema_options.py\<close> and the option sources). The \<open>module.json\<close> and \<open>system.json\<close> files on
  disk, the harness declarations and the zone names are arguments. The files have the shape
  \<open>module:validate\<close> asks for: objects, lists of objects.
\<close>

section \<open>Files\<close>

text \<open>A JSON file: absent, not JSON, unreadable, or its value.\<close>

datatype json_file = NoFile | BadJson | IoFails | Json pyval

record module_dir =
  md_system :: json_file
  md_module :: json_file
  md_defaults :: pyval

record harness_decl =
  hd_id :: string
  hd_label :: string
  hd_providers :: "(string \<times> string) list"
  hd_default :: string

datatype key_verdict = GoodKey | EncryptedKey | InvalidKey

record disk =
  dk_dirs :: "(string \<times> module_dir) list"
  dk_harnesses :: "harness_decl list"
  dk_zones :: "string list"
  dk_skills :: "string list"
  dk_key :: "string \<Rightarrow> key_verdict"
  dk_encrypt :: "string \<Rightarrow> string"

definition find_module_dir :: "disk \<Rightarrow> string \<Rightarrow> module_dir option" where
  "find_module_dir dk name =
     coalesce (map_of (dk_dirs dk) (replace_char (CHR ''_'') ''-'' name)) (map_of (dk_dirs dk) name)"

definition tools_of :: "pyval \<Rightarrow> pyval list" where
  "tools_of m = items_of (py_get_or m ''tools'' (PyList []))"

definition tool_field :: "pyval \<Rightarrow> string \<Rightarrow> pyval" where
  "tool_field tool field = py_get (py_get_or tool ''fields'' (PyDict [])) field"

definition load_tool_field_schema :: "module_dir \<Rightarrow> string \<Rightarrow> string \<Rightarrow> pyval option" where
  "load_tool_field_schema md tool field =
     (case md_module md of
        Json m \<Rightarrow> (case find (\<lambda>t. py_get t ''name'' = PyStr tool) (tools_of m) of
            Some t \<Rightarrow> if is_py_dict (tool_field t field) then Some (tool_field t field) else None
          | None \<Rightarrow> None)
      | _ \<Rightarrow> None)"

section \<open>Is a path obscure?\<close>

text \<open>The loop ends, without an answer, at a tool that has no name.\<close>

fun obscure_tool :: "pyval list \<Rightarrow> string \<Rightarrow> string \<Rightarrow> bool" where
  "obscure_tool [] tool field = False"
| "obscure_tool (t # ts) tool field =
     (if py_get_or t ''name'' (PyOther ''KeyError'') = PyOther ''KeyError'' then False
      else if py_get t ''name'' = PyStr tool then py_get (tool_field t field) ''type'' = PyStr ''obscure''
      else obscure_tool ts tool field)"

definition is_obscure_field :: "disk \<Rightarrow> string \<Rightarrow> string \<Rightarrow> string \<Rightarrow> cfg_error + bool" where
  "is_obscure_field dk m tool field =
     (case find_module_dir dk m of None \<Rightarrow> Inr False
      | Some md \<Rightarrow> (case md_module md of
          NoFile \<Rightarrow> Inr False | BadJson \<Rightarrow> Inr False | IoFails \<Rightarrow> Inl IoErr
        | Json j \<Rightarrow> Inr (obscure_tool (tools_of j) tool field)))"

definition is_obscure_module_config :: "disk \<Rightarrow> string \<Rightarrow> string \<Rightarrow> bool" where
  "is_obscure_module_config dk m field =
     (case find_module_dir dk m of None \<Rightarrow> False
      | Some md \<Rightarrow> (case md_system md of
          Json s \<Rightarrow> py_get (py_get s field) ''type'' = PyStr ''obscure''
        | NoFile \<Rightarrow> (case md_module md of
              Json j \<Rightarrow> py_get (py_get (py_get_or j ''config'' (PyDict [])) field) ''type'' = PyStr ''obscure''
            | _ \<Rightarrow> False)
        | _ \<Rightarrow> False))"

definition is_path_obscure :: "disk \<Rightarrow> string \<Rightarrow> cfg_error + bool" where
  "is_path_obscure dk path =
     (case parse_config_path path of
        None \<Rightarrow> Inr False
      | Some (m, Some tool, field) \<Rightarrow> is_obscure_field dk m tool field
      | Some (m, None, field) \<Rightarrow> Inr (is_obscure_module_config dk m field))"

definition config_set_auto_encrypt ::
    "disk \<Rightarrow> string \<Rightarrow> string \<Rightarrow> string \<Rightarrow> int \<Rightarrow> cfg_table \<Rightarrow> cfg_error + (bool \<times> cfg_table)" where
  "config_set_auto_encrypt dk path value scope sid rows =
     (case is_path_obscure dk path of Inl e \<Rightarrow> Inl e
      | Inr encrypted \<Rightarrow> Inr (encrypted, scoped_config_set (dk_encrypt dk) path value scope sid encrypted rows))"

section \<open>Options\<close>

definition opt_of :: "string \<Rightarrow> string \<Rightarrow> pyval" where
  "opt_of v l = PyDict [(PyStr ''value'', PyStr v), (PyStr ''label'', PyStr l)]"

text \<open>\<open>None\<close> is the \<open>ValueError\<close> of an unknown source.\<close>

definition resolve_options :: "disk \<Rightarrow> pyval \<Rightarrow> string option \<Rightarrow> pyval list option" where
  "resolve_options dk source depends_on_value =
     (if source = PyStr ''timezones'' then
        Some (opt_of ''browser'' ''Browser time zone'' # map (\<lambda>z. opt_of z z) (sort (dk_zones dk)))
      else if source = PyStr ''agent_harness_registry'' then
        Some (map (\<lambda>d. opt_of (hd_id d) (hd_label d)) (dk_harnesses dk))
      else if source = PyStr ''agent_harness_providers'' then
        Some (concat (map (\<lambda>d.
            if truthy depends_on_value \<and> Some (hd_id d) \<noteq> depends_on_value then []
            else map (\<lambda>(v, l). opt_of v (if truthy depends_on_value then l else hd_label d @ '': '' @ l)) (hd_providers d))
          (dk_harnesses dk)))
      else None)"

definition has_value :: "pyval \<Rightarrow> bool" where
  "has_value o' \<longleftrightarrow> (case o' of PyDict kvs \<Rightarrow> PyStr ''value'' \<in> fst ` set kvs | _ \<Rightarrow> False)"

definition field_options :: "disk \<Rightarrow> pyval \<Rightarrow> string option \<Rightarrow> pyval list" where
  "field_options dk field_def depends_on_value =
     (if py_truth (py_get field_def ''options'') then filter has_value (items_of (py_get field_def ''options''))
      else if \<not> py_truth (py_get field_def ''options_source'') then []
      else case resolve_options dk (py_get field_def ''options_source'') depends_on_value of
        None \<Rightarrow> [] | Some os \<Rightarrow> os)"

definition allowed_values :: "disk \<Rightarrow> pyval \<Rightarrow> string option \<Rightarrow> pyval list" where
  "allowed_values dk field_def depends_on_value =
     map (\<lambda>o'. py_get o' ''value'') (filter has_value (field_options dk field_def depends_on_value))"

section \<open>Validation\<close>

text \<open>A check gives the error it raises.\<close>

definition refuse :: "string \<Rightarrow> cfg_error option" where
  "refuse msg = Some (ConfigWriteErr msg)"

definition validate_config_path :: "disk \<Rightarrow> string \<Rightarrow> string \<Rightarrow> cfg_error option" where
  "validate_config_path dk path scope =
     (case parse_config_path path of
        None \<Rightarrow> refuse ''invalid config path''
      | Some (m, tool, field) \<Rightarrow>
          (case find_module_dir dk m of
             None \<Rightarrow> refuse ''module not found''
           | Some md \<Rightarrow>
               (case tool of
                  Some t \<Rightarrow> (case load_tool_field_schema md t field of
                      Some schema \<Rightarrow> if is_scope_allowed schema scope then None else refuse ''scope''
                    | None \<Rightarrow> None)
                | None \<Rightarrow> (case md_system md of
                      Json (PyDict kvs) \<Rightarrow> (case map_of kvs (PyStr field) of
                          None \<Rightarrow> refuse ''field not found''
                        | Some schema \<Rightarrow>
                            if is_py_dict schema \<and> \<not> is_scope_allowed schema scope then refuse ''scope'' else None)
                    | Json s \<Rightarrow> refuse ''field not found''
                    | _ \<Rightarrow> None))))"

text \<open>\<open>_effective_depends_on_value\<close>.\<close>

definition effective_depends_on_value ::
    "cfg_env \<Rightarrow> disk \<Rightarrow> cfg_table option \<Rightarrow> string \<Rightarrow> string \<Rightarrow> int \<Rightarrow> string option" where
  "effective_depends_on_value env dk conn depends_on scope sid =
     (let (m, _, field) = partition_at (CHR ''/'') depends_on;
          defaults = (case find_module_dir dk m of Some md \<Rightarrow> md_defaults md | None \<Rightarrow> PyDict []);
          json_value = (if field = [] then PyNone else py_get defaults field)
      in fst (resolve_with_origin (environ env) conn depends_on
           (if scope = AGENT_VIEW then Some sid else None) (if scope = WORKSPACE then Some sid else None)
           (str_or_none env json_value)))"

text \<open>\<open>field_name.rsplit("/", 1)[-1]\<close>.\<close>

definition last_segment :: "string \<Rightarrow> string" where
  "last_segment s = rev (takeWhile (\<lambda>c. c \<noteq> CHR ''/'') (rev s))"

definition is_private_key_field :: "string \<Rightarrow> pyval \<Rightarrow> bool" where
  "is_private_key_field field field_def \<longleftrightarrow>
     py_get field_def ''type'' = PyStr ''obscure'' \<and> last_segment field = ''ssh_private_key''"

definition validate_private_key :: "disk \<Rightarrow> string \<Rightarrow> cfg_error option" where
  "validate_private_key dk value =
     (if strip value = [] then None
      else case dk_key dk value of GoodKey \<Rightarrow> None | EncryptedKey \<Rightarrow> refuse ''passphrase'' | InvalidKey \<Rightarrow> refuse ''not a key'')"

text \<open>\<open>value.split(",")\<close>.\<close>

fun split_commas :: "string \<Rightarrow> string list" where
  "split_commas [] = [[]]"
| "split_commas (c # s) =
     (if c = CHR '','' then [] # split_commas s
      else case split_commas s of w # ws \<Rightarrow> (c # w) # ws | [] \<Rightarrow> [[c]])"

definition validate_config_value ::
    "cfg_env \<Rightarrow> disk \<Rightarrow> cfg_table option \<Rightarrow> string \<Rightarrow> string \<Rightarrow> string option \<Rightarrow> int \<Rightarrow> cfg_error option" where
  "validate_config_value env dk conn path value scope sid =
     (case parse_config_path path of
        Some (m, None, field) \<Rightarrow>
          (case Option.bind (find_module_dir dk m) (\<lambda>md. case md_system md of Json s \<Rightarrow> Some (py_get s field) | _ \<Rightarrow> None) of
             Some field_def \<Rightarrow>
               if \<not> is_py_dict field_def then None
               else if validate_field_value field_def value \<noteq> None then refuse ''too long''
               else if is_private_key_field field field_def then validate_private_key dk value
               else if py_get field_def ''type'' \<in> set [PyStr ''integer'', PyStr ''number''] then
                 (case numeric_bound_error (ce_float env) field_def (CVal (PyStr value)) of
                    Inl e \<Rightarrow> Some e | Inr None \<Rightarrow> None | Inr (Some msg) \<Rightarrow> refuse ''bounds'')
               else if py_get field_def ''type'' \<notin> set [PyStr ''select'', PyStr ''multiselect''] then None
               else
                 (let depends_value = (case (py_get field_def ''depends_on'', conn, scope) of
                        (PyStr dep, Some rows, Some sc) \<Rightarrow>
                          if dep = [] then None else effective_depends_on_value env dk conn dep sc sid
                      | _ \<Rightarrow> None);
                      allowed = allowed_values dk field_def depends_value;
                      members = (if py_get field_def ''type'' = PyStr ''multiselect''
                                 then (if value = [] then [] else split_commas value) else [value])
                  in if \<not> distinct members \<or> (\<exists>w \<in> set members. PyStr w \<notin> set allowed)
                     then refuse ''invalid value'' else None)
           | None \<Rightarrow> None)
      | _ \<Rightarrow> None)"

section \<open>The web form\<close>

text \<open>\<open>_GATE_KEY.fullmatch\<close>: the tool or the skill the key names.\<close>

datatype gate = GateTool string | GateSkill string

definition tool_name_form :: "string \<Rightarrow> bool" where
  "tool_name_form s \<longleftrightarrow> s \<noteq> [] \<and> is_lower (hd s)
     \<and> (\<forall>c \<in> set (tl s). is_lower c \<or> is_digit c \<or> c = CHR ''_'')"

definition gate_key :: "string \<Rightarrow> gate option" where
  "gate_key path =
     (let (head, _, rest) = partition_at (CHR ''/'') path;
          (name, _, tail) = partition_at (CHR ''/'') rest in
      if tail \<noteq> ''is_enabled'' then None
      else if head = ''tools'' \<and> tool_name_form name then Some (GateTool name)
      else if head = ''skill'' \<and> name \<noteq> [] then Some (GateSkill name)
      else None)"

text \<open>\<open>_gate_key_names\<close>: every name and every \<open>requires\<close> of a declared tool.\<close>

fun py_text :: "pyval \<Rightarrow> string list" where
  "py_text (PyStr s) = [s]"
| "py_text v = []"

definition gate_key_names :: "disk \<Rightarrow> string list" where
  "gate_key_names dk = concat (map (\<lambda>(_, md). case md_module md of
       Json j \<Rightarrow> concat (map (\<lambda>t. py_text (py_get t ''name'') @ py_text (py_get t ''requires'')) (tools_of j))
     | _ \<Rightarrow> []) (dk_dirs dk))"

definition is_gate_key :: "disk \<Rightarrow> string \<Rightarrow> cfg_error + bool" where
  "is_gate_key dk path =
     (case gate_key path of
        None \<Rightarrow> Inr False
      | Some (GateTool tool) \<Rightarrow>
          if tool \<in> set (gate_key_names dk) then Inr True else Inl (ConfigWriteErr ''no module declares tool'')
      | Some (GateSkill skill) \<Rightarrow>
          if skill \<in> set (dk_skills dk) then Inr True else Inl (ConfigWriteErr ''no skill is registered''))"

text \<open>The schema that \<open>_prove_not_secret\<close> looks at; \<open>None\<close> when it cannot find one.\<close>

definition web_schema :: "disk \<Rightarrow> string \<Rightarrow> pyval option" where
  "web_schema dk path =
     (case parse_config_path path of
        None \<Rightarrow> None
      | Some (m, tool, field) \<Rightarrow>
          (case find_module_dir dk m of
             None \<Rightarrow> None
           | Some md \<Rightarrow>
               (case (md_module md, md_system md) of
                  (Json j, IoFails) \<Rightarrow> None | (Json j, BadJson) \<Rightarrow> None
                | (Json j, system) \<Rightarrow>
                    (case tool of
                       Some t \<Rightarrow> (case find (\<lambda>x. py_get x ''name'' = PyStr t) (tools_of j) of
                           Some x \<Rightarrow> Some (py_get (py_get x ''fields'') field) | None \<Rightarrow> Some PyNone)
                     | None \<Rightarrow> (case system of Json s \<Rightarrow> Some (py_get s field) | _ \<Rightarrow> Some PyNone))
                | _ \<Rightarrow> None)))"

definition prove_not_secret :: "disk \<Rightarrow> string \<Rightarrow> cfg_error option" where
  "prove_not_secret dk path =
     (case web_schema dk path of None \<Rightarrow> refuse ''use the command line''
      | Some schema \<Rightarrow> if is_secret_field schema then refuse ''use the command line'' else None)"

definition validate_web_path :: "disk \<Rightarrow> string \<Rightarrow> cfg_error + bool" where
  "validate_web_path dk path =
     (case is_gate_key dk path of
        Inl e \<Rightarrow> Inl e
      | Inr True \<Rightarrow> Inr True
      | Inr False \<Rightarrow> (case prove_not_secret dk path of Some e \<Rightarrow> Inl e | None \<Rightarrow> Inr False))"

definition validate_path_and_value ::
    "cfg_env \<Rightarrow> disk \<Rightarrow> cfg_table \<Rightarrow> string \<Rightarrow> string \<Rightarrow> string \<Rightarrow> int \<Rightarrow> cfg_error option" where
  "validate_path_and_value env dk rows path value scope sid =
     (case validate_config_path dk path scope of Some e \<Rightarrow> Some e
      | None \<Rightarrow> validate_config_value env dk (Some rows) path value (Some scope) sid)"

definition validate_config_write ::
    "cfg_env \<Rightarrow> disk \<Rightarrow> cfg_table \<Rightarrow> string \<Rightarrow> string \<Rightarrow> string \<Rightarrow> int \<Rightarrow> bool \<Rightarrow> cfg_error option" where
  "validate_config_write env dk rows path value scope sid allow_secret =
     (if allow_secret then validate_path_and_value env dk rows path value scope sid
      else case validate_web_path dk path of
        Inl e \<Rightarrow> Some e
      | Inr True \<Rightarrow> if value \<in> set [''0'', ''1''] then None else refuse ''is_enabled must be 0 or 1''
      | Inr False \<Rightarrow> validate_path_and_value env dk rows path value scope sid)"

section \<open>Dependents\<close>

definition declared_default_provider :: "disk \<Rightarrow> string \<Rightarrow> string option" where
  "declared_default_provider dk harness = map_option hd_default (find (\<lambda>d. hd_id d = harness) (dk_harnesses dk))"

text \<open>\<open>_preferred_value\<close> of a list that is not empty.\<close>

definition preferred_value :: "disk \<Rightarrow> string \<Rightarrow> string \<Rightarrow> pyval list \<Rightarrow> pyval" where
  "preferred_value dk parent_path parent_value allowed =
     (case declared_default_provider dk parent_value of
        Some p \<Rightarrow> if parent_path = ''agent_view/harness'' \<and> PyStr p \<in> set allowed then PyStr p else hd allowed
      | None \<Rightarrow> hd allowed)"

definition current_valid ::
    "cfg_env \<Rightarrow> cfg_table \<Rightarrow> string \<Rightarrow> string \<Rightarrow> int \<Rightarrow> pyval list \<Rightarrow> bool" where
  "current_valid env rows path scope sid allowed =
     (case resolve_with_origin (environ env) (Some rows) path
         (if scope = AGENT_VIEW then Some sid else None) (if scope = WORKSPACE then Some sid else None) None of
        (Some v, _) \<Rightarrow> PyStr v \<in> set allowed
      | (None, _) \<Rightarrow> False)"

text \<open>The text written for an option value; a declared value is a string.\<close>

fun option_text :: "cfg_env \<Rightarrow> pyval \<Rightarrow> string" where
  "option_text env (PyStr s) = s"
| "option_text env v = ce_str env v"

fun repair ::
    "cfg_env \<Rightarrow> disk \<Rightarrow> string \<Rightarrow> string \<Rightarrow> string \<Rightarrow> string \<Rightarrow> int \<Rightarrow> (pyval \<times> pyval) list \<Rightarrow> cfg_table
     \<Rightarrow> cfg_error + ((string \<times> string) list \<times> cfg_table)" where
  "repair env dk m parent_path parent_value scope sid [] rows = Inr ([], rows)"
| "repair env dk m parent_path parent_value scope sid ((key, dep_def) # rest) rows =
     (let allowed = allowed_values dk dep_def (Some parent_value);
          dep_path = m @ ''/'' @ option_text env key
      in if \<not> is_py_dict dep_def \<or> py_get dep_def ''depends_on'' \<noteq> PyStr parent_path \<or> allowed = []
            \<or> current_valid env rows dep_path scope sid allowed
         then repair env dk m parent_path parent_value scope sid rest rows
         else let replacement = option_text env (preferred_value dk parent_path parent_value allowed) in
           (case config_set_auto_encrypt dk dep_path replacement scope sid rows of
              Inl e \<Rightarrow> Inl e
            | Inr (_, rows') \<Rightarrow>
                map_sum id (apfst (Cons (dep_path, replacement)))
                  (repair env dk m parent_path parent_value scope sid rest rows')))"

definition reset_dependents ::
    "cfg_env \<Rightarrow> disk \<Rightarrow> string \<Rightarrow> string \<Rightarrow> string \<Rightarrow> int \<Rightarrow> cfg_table
     \<Rightarrow> cfg_error + ((string \<times> string) list \<times> cfg_table)" where
  "reset_dependents env dk parent_path parent_value scope sid rows =
     (case parse_config_path parent_path of
        Some (m, None, field) \<Rightarrow>
          (case Option.bind (find_module_dir dk m) (\<lambda>md. case md_system md of Json (PyDict kvs) \<Rightarrow> Some kvs | _ \<Rightarrow> None) of
             Some kvs \<Rightarrow> repair env dk m parent_path parent_value scope sid kvs rows
           | None \<Rightarrow> Inr ([], rows))
      | _ \<Rightarrow> Inr ([], rows))"

definition set_config_with_dependents ::
    "cfg_env \<Rightarrow> disk \<Rightarrow> string \<Rightarrow> string \<Rightarrow> string \<Rightarrow> int \<Rightarrow> cfg_table
     \<Rightarrow> cfg_error + (bool \<times> (string \<times> string) list \<times> cfg_table)" where
  "set_config_with_dependents env dk path value scope sid rows =
     (case config_set_auto_encrypt dk path value scope sid rows of
        Inl e \<Rightarrow> Inl e
      | Inr (encrypted, rows1) \<Rightarrow> map_sum id (Pair encrypted) (reset_dependents env dk path value scope sid rows1))"

section \<open>Write and save\<close>

text \<open>
  One transaction, then the event \<open>config_save_after\<close>. An error leaves the table as it was.
\<close>

record config_saved =
  ev_path :: string
  ev_encrypted :: bool

definition write_config ::
    "cfg_env \<Rightarrow> disk \<Rightarrow> access \<Rightarrow> actor \<Rightarrow> string \<Rightarrow> string \<Rightarrow> string \<Rightarrow> int \<Rightarrow> cfg_table
     \<Rightarrow> cfg_error + (bool \<times> (string \<times> string) list \<times> cfg_table \<times> config_saved)" where
  "write_config env dk d actor path value scope sid rows =
     (if \<not> check_actor d actor then Inl (ConfigWriteErr ''not allowed'')
      else map_sum id (\<lambda>(encrypted, reset, rows'). (encrypted, reset, rows', \<lparr>ev_path = path, ev_encrypted = encrypted\<rparr>))
        (set_config_with_dependents env dk path value scope sid rows))"

definition save_config ::
    "cfg_env \<Rightarrow> disk \<Rightarrow> access \<Rightarrow> actor \<Rightarrow> string \<Rightarrow> string \<Rightarrow> string \<Rightarrow> int \<Rightarrow> bool \<Rightarrow> cfg_table
     \<Rightarrow> cfg_error + (bool \<times> (string \<times> string) list \<times> cfg_table \<times> config_saved)" where
  "save_config env dk d actor path value scope sid allow_secret rows =
     (case validate_config_write env dk rows path value scope sid allow_secret of
        Some e \<Rightarrow> Inl e
      | None \<Rightarrow> write_config env dk d actor path value scope sid rows)"

end
