(* ===== verification/Config_Properties.thy ===== *)
theory Config_Properties
  imports Config_Resolver
begin

text \<open>
  What the configuration resolver promises: bounds are kept, a field that only the toolbox may
  read is never read, a saved value is read back, and an environment name leads back to its path.
\<close>

section \<open>Bounds\<close>

lemma checked_in_bounds:
  "checked_dynamic env schema raw = Inr (Some v) \<Longrightarrow> is_bounded schema \<Longrightarrow> in_bounds (ce_float env) schema v"
  using bound_ok_in_bounds
  by (auto simp: checked_dynamic_def split: sum.splits option.splits)

lemma from_default_cases:
  "from_default m field schema defaults = Inr rv \<Longrightarrow> is_bounded schema \<Longrightarrow>
    rv = \<lparr>rv_value = CVal (py_get defaults field), rv_source = ''config.json''\<rparr> \<and> py_get defaults field \<noteq> PyNone"
  by (auto simp: from_default_def split: if_splits)

text \<open>
  C29. Resolving a field that declares a bound gives its default of \<open>config.json\<close>, or a finite
  number within the bounds, or nothing because only the toolbox may read it; and when the
  environment names a value for it, the database row is not used, even if that value is refused.
\<close>

theorem bounded_field_in_bounds:
  assumes "is_bounded schema" "resolve_field env m field schema defaults over = Inr rv"
  shows "(rv_value rv = no_value \<and> is_toolbox_only schema
      \<or> rv = \<lparr>rv_value = CVal (py_get defaults field), rv_source = ''config.json''\<rparr> \<and> py_get defaults field \<noteq> PyNone
      \<or> in_bounds (ce_float env) schema (rv_value rv))
    \<and> (env_allowed schema \<and> environ env (env_key m field) \<noteq> None \<longrightarrow> rv_source rv \<noteq> ''db'')"
proof -
  note cases = resolve_field_def from_db_def
  have "rv_source rv \<noteq> ''db''" if "from_default m field schema defaults = Inr rv"
    using from_default_cases [OF that assms(1)] by simp
  then show ?thesis
    using assms(2) from_default_cases [OF _ assms(1), of m field defaults rv] checked_in_bounds [OF _ assms(1), of env]
    by (auto simp: cases split: if_splits option.splits sum.splits prod.splits bool.splits)
qed

definition sample_schema :: pyval where
  "sample_schema = PyDict [(PyStr ''type'', PyStr ''integer''), (PyStr ''min'', PyInt 1), (PyStr ''max'', PyInt 20)]"

definition sample_surroundings :: "(string \<times> string) list \<Rightarrow> cfg_env" where
  "sample_surroundings vars = \<lparr>ce_environ = vars, ce_decrypt = (\<lambda>s. if starts_with ''#'' s then Some (tl s) else None),
     ce_float = (\<lambda>_. None), ce_loads = (\<lambda>_. None), ce_str = (\<lambda>_. ''?''), ce_modules = [], ce_restricted = []\<rparr>"

lemma sample_schema_simps:
  "is_bounded sample_schema" "env_allowed sample_schema" "\<not> is_toolbox_only sample_schema"
  "py_get sample_schema ''type'' = PyStr ''integer''" "py_get sample_schema ''min'' = PyInt 1"
  "py_get sample_schema ''max'' = PyInt 20" "py_get_or sample_schema ''type'' (PyStr ''string'') = PyStr ''integer''"
  by code_simp+

lemma float_limit_small: "400 < FLOAT_LIMIT"
  by (simp add: FLOAT_LIMIT_def)

lemma sample_checked: "checked_dynamic env sample_schema ''400'' = Inr None"
proof -
  have "int_of_str ''400'' = Some 400" by code_simp
  then show ?thesis using float_limit_small
    by (simp add: checked_dynamic_def coerce_type_def sample_schema_simps numeric_bound_error_def out_of_range_def)
qed

lemma sample_resolution:
  "resolve_field (sample_surroundings [(''CONFIG__CORE__MAX_CONCURRENT'', ''400'')]) ''core'' ''max_concurrent'' sample_schema
     (PyDict [(PyStr ''max_concurrent'', PyInt 5)]) [(''core/max_concurrent'', (Some ''7'', False))]
   = Inr \<lparr>rv_value = CVal (PyInt 5), rv_source = ''config.json''\<rparr>"
proof -
  have e: "environ (sample_surroundings [(''CONFIG__CORE__MAX_CONCURRENT'', ''400'')]) (env_key ''core'' ''max_concurrent'') = Some ''400''"
    by code_simp
  show ?thesis
    by (simp add: resolve_field_def sample_schema_simps e sample_checked from_default_def)
qed

theorem bounded_field_in_bounds_witness:
  "rv_source (case resolve_field (sample_surroundings [(''CONFIG__CORE__MAX_CONCURRENT'', ''400'')]) ''core'' ''max_concurrent''
      sample_schema (PyDict [(PyStr ''max_concurrent'', PyInt 5)]) [(''core/max_concurrent'', (Some ''7'', False))]
     of Inr rv \<Rightarrow> rv) \<noteq> ''db''"
proof -
  have e: "environ (sample_surroundings [(''CONFIG__CORE__MAX_CONCURRENT'', ''400'')]) (env_key ''core'' ''max_concurrent'') = Some ''400''"
    by code_simp
  show ?thesis using bounded_field_in_bounds [OF sample_schema_simps(1) sample_resolution] e
    by (simp add: sample_resolution sample_schema_simps)
qed

text \<open>An integer that a float cannot hold is not refused: \<open>math.isfinite\<close> raises on it.\<close>

lemma huge_integer_raises:
  assumes "int_of_str raw = Some n" "FLOAT_LIMIT \<le> rat_of_int n"
  shows "checked_dynamic env sample_schema raw = Inl OverflowErr"
proof -
  have "FLOAT_LIMIT \<le> \<bar>rat_of_int n\<bar>" using assms(2) by linarith
  then show ?thesis
    by (simp add: checked_dynamic_def coerce_type_def sample_schema_simps assms(1) numeric_bound_error_def)
qed

section \<open>Fields that only the toolbox may read\<close>

definition scanned :: "(string \<times> field_schemas) list \<Rightarrow> field_schemas" where
  "scanned scans = fold (\<lambda>(m, config). remember_restricted_fields m config) scans []"

lemma toolbox_only_dict: "is_toolbox_only schema \<Longrightarrow> is_py_dict schema \<and> is_restricted schema"
  by (cases schema) (auto simp: is_toolbox_only_def is_restricted_def)

text \<open>Every schema the registry holds for a path was declared for it.\<close>

lemma remember_from:
  "restricted_schema (remember_restricted_fields m config reg) path = Some s \<Longrightarrow>
    restricted_schema reg path = Some s \<or> (\<exists>field. (field, s) \<in> set config \<and> path = m @ ''/'' @ field)"
  unfolding remember_restricted_fields_def restricted_schema_def
  by (induction config arbitrary: reg) (fastforce simp: map_of_dict_put split: if_splits)+

lemma scanned_from:
  "restricted_schema (fold (\<lambda>(m, config). remember_restricted_fields m config) scans reg) path = Some s \<Longrightarrow>
    restricted_schema reg path = Some s
    \<or> (\<exists>m config field. (m, config) \<in> set scans \<and> (field, s) \<in> set config \<and> path = m @ ''/'' @ field)"
proof (induction scans arbitrary: reg)
  case (Cons x scans)
  obtain m config where x: "x = (m, config)" by fastforce
  then show ?case using Cons.IH [of "remember_restricted_fields m config reg"] Cons.prems remember_from [of m config reg path s]
    by fastforce
qed simp

lemma scanned_keeps: "restricted_in reg path \<Longrightarrow>
    restricted_in (fold (\<lambda>(m, config). remember_restricted_fields m config) scans reg) path"
  by (induction scans arbitrary: reg) (auto simp: remember_restricted)

lemma scanned_declared:
  assumes "(m, config) \<in> set scans" "(field, schema) \<in> set config" "is_toolbox_only schema"
  shows "restricted_in (scanned scans) (m @ ''/'' @ field)"
proof -
  obtain before after where "scans = before @ (m, config) # after" using assms(1) by (meson split_list)
  then show ?thesis
    using scanned_keeps [OF remember_declared [OF assms(2)]] toolbox_only_dict [OF assms(3)]
    by (simp add: scanned_def)
qed

lemma collect_paths_total: "\<exists>kvs. collect_paths env sv ps = Inr kvs"
proof (induction ps)
  case (Cons p ps)
  have "get_config env sv p False = Inl e \<Longrightarrow> e = ToolboxOnly p" for e
    by (auto simp: get_config_def resolve_from_db_def Let_def split: if_splits option.splits sum.splits prod.splits bool.splits)
  with Cons show ?case by (auto split: sum.splits option.splits cfg_error.splits)
qed simp

lemma collect_paths_readable: "collect_paths env sv ps = Inr kvs \<Longrightarrow> (p, v) \<in> set kvs \<Longrightarrow>
    \<not> is_toolbox_only (field_schema env p)"
proof (induction ps arbitrary: kvs)
  case (Cons q ps)
  then consider "collect_paths env sv ps = Inr kvs"
    | w rest where "collect_paths env sv ps = Inr rest" "kvs = (q, w) # rest" "\<not> is_toolbox_only (field_schema env q)"
    by (auto split: if_splits sum.splits option.splits cfg_error.splits)
  then show ?case using Cons by cases auto
qed simp


definition outlook_config :: field_schemas where
  "outlook_config = [(''client_secret'', PyDict [(PyStr ''type'', PyStr ''obscure''), (PyStr ''access'', PyStr ''toolbox_only'')])]"

definition outlook_env :: cfg_env where
  "outlook_env = (sample_surroundings [(''CONFIG__OUTLOOK__CLIENT_SECRET'', ''leak'')])
     \<lparr>ce_restricted := scanned [(''outlook'', outlook_config)]\<rparr>"

definition outlook_service :: service where
  "outlook_service = \<lparr>sv_scope = DEFAULT, sv_scope_id = 0,
     sv_overrides = [(''outlook/client_secret'', (Some ''#hidden'', True))], sv_scope_overrides = []\<rparr>"


text \<open>
  The guard looks at the path as it is written, the lookup at the path with its dashes folded:
  with any module live, a dash in place of an underscore reads the secret.
\<close>

lemma dash_reads_toolbox_only:
  "get_config (outlook_env\<lparr>ce_environ := [], ce_modules := [\<lparr>lm_name = ''outlook'', lm_config = outlook_config, lm_defaults = PyDict []\<rparr>]\<rparr>)
     outlook_service ''outlook/client-secret'' False = Inr (Some ''hidden'')"
  by code_simp

section \<open>A saved value is read back\<close>

lemma scoped_set_entry:
  "scope_entry (Some (scoped_config_set encrypt path value scope sid encrypted rows)) scope sid path
    = Some (Some (if encrypted then encrypt value else value), encrypted)"
proof -
  let ?new = "scoped_config_set encrypt path value scope sid encrypted rows"
  let ?v = "(Some (if encrypted then encrypt value else value), encrypted)"
  let ?rows = "filter (\<lambda>r. cf_scope r = scope \<and> cf_scope_id r = sid) ?new"
  have one: "(cf_value r, cf_encrypted r) = ?v" if "r \<in> set ?rows" "cf_path r = path" for r
  proof -
    have "r \<in> set ?new" "at_key scope sid path r" using that by (simp_all add: at_key_def)
    then show ?thesis
      by (cases "\<exists>r \<in> set rows. at_key scope sid path r") (auto simp: scoped_config_set_def Let_def split: if_splits)
  qed
  have "\<exists>r \<in> set ?new. at_key scope sid path r"
  proof (cases "\<exists>r \<in> set rows. at_key scope sid path r")
    case True
    then obtain r where r: "r \<in> set rows" "at_key scope sid path r" by blast
    let ?r = "r\<lparr>cf_value := fst ?v, cf_encrypted := encrypted\<rparr>"
    have "?r \<in> set ?new" using r True by (auto simp: scoped_config_set_def Let_def intro!: image_eqI [of _ _ r])
    moreover have "at_key scope sid path ?r" using r(2) by (simp add: at_key_def)
    ultimately show ?thesis by blast
  qed (simp add: scoped_config_set_def Let_def, simp add: at_key_def)
  then have "\<exists>r \<in> set ?rows. cf_path r = path" by (auto simp: at_key_def)
  then have "map_of (rev (map (\<lambda>r. (cf_path r, cf_value r, cf_encrypted r)) ?rows)) path \<noteq> None"
    unfolding map_of_eq_None_iff by force
  then obtain e where e: "map_of (rev (map (\<lambda>r. (cf_path r, cf_value r, cf_encrypted r)) ?rows)) path = Some e" by blast
  then have "e = ?v" using one by (auto dest!: map_of_SomeD)
  with e show ?thesis
    by (simp add: scope_entry_def load_scoped_db_overrides_def map_of_dict_update)
qed

text \<open>The scope a value is saved at, and how the service for that scope is made.\<close>

definition own_scope :: "string \<Rightarrow> int \<Rightarrow> int option \<Rightarrow> bool" where
  "own_scope scope sid workspace_id \<longleftrightarrow>
     scope = AGENT_VIEW \<or> scope = WORKSPACE \<or> (scope = DEFAULT \<and> sid = 0 \<and> workspace_id = None)"

lemma own_scope_entry:
  assumes "new_service strict conn workspace_of scope sid workspace_id = Inr sv"
    "own_scope scope sid workspace_id" "scope_entry conn scope sid path = Some e"
  shows "map_of (sv_overrides sv) path = Some e"
proof -
  obtain ws merged where m: "build_scoped_overrides strict conn (if scope = AGENT_VIEW then Some sid else None) ws = Inr merged"
      "sv_overrides sv = merged" "scope = WORKSPACE \<Longrightarrow> ws = Some sid" "scope = DEFAULT \<Longrightarrow> ws = workspace_id"
    using assms(1) by (auto simp: new_service_def scope_defs split: sum.splits if_splits)
  have "scope = AGENT_VIEW \<or> scope = WORKSPACE \<or> scope = DEFAULT" using assms(2) by (auto simp: own_scope_def)
  then have "effective_entry conn (if scope = AGENT_VIEW then Some sid else None) ws path = Some e"
    using assms(2,3) m(3,4) by (auto simp: effective_entry_def own_scope_def scope_defs)
  then show ?thesis unfolding m(2) build_lookup [OF m(1)] .
qed



end
