(* ===== verification/Config_Save.thy ===== *)
theory Config_Save
  imports Config_Write Config_Properties Access_Launches
begin

text \<open>
  What a save promises: the web form writes no secret, and a field that depends on the saved one
  never keeps a value the new parent does not offer.
\<close>

section \<open>The web writes no secret\<close>

lemma tool_field_or_null: "py_get (py_get t ''fields'') field = tool_field t field"
  by (cases t) (auto simp: tool_field_def py_get_or_def split: option.splits)

lemma not_obscure_tool:
  "find (\<lambda>x. py_get x ''name'' = PyStr tool) ts = Some t \<Longrightarrow> py_get (tool_field t field) ''type'' \<noteq> PyStr ''obscure'' \<Longrightarrow>
    \<not> obscure_tool ts tool field"
  by (induction ts) (auto split: if_splits)

lemma proven_is_not_obscure:
  assumes "prove_not_secret dk path = None"
  shows "is_path_obscure dk path = Inr False"
proof -
  obtain schema where schema: "web_schema dk path = Some schema" "\<not> is_secret_field schema"
    using assms by (auto simp: prove_not_secret_def refuse_def split: option.splits if_splits)
  then have plain: "is_py_dict schema" "py_get schema ''type'' \<noteq> PyStr ''obscure''" by (auto simp: is_secret_field_def)
  obtain m tool field where p: "parse_config_path path = Some (m, tool, field)"
    using schema(1) by (auto simp: web_schema_def split: option.splits prod.splits)
  obtain md j where md: "find_module_dir dk m = Some md" "md_module md = Json j"
    using schema(1) p by (auto simp: web_schema_def split: option.splits json_file.splits)
  show ?thesis
  proof (cases tool)
    case None
    then have "\<exists>s. md_system md = Json s \<and> schema = py_get s field"
      using schema(1) p md plain(1) by (auto simp: web_schema_def split: json_file.splits)
    then show ?thesis using None p md plain
      by (auto simp: is_path_obscure_def is_obscure_module_config_def)
  next
    case (Some t)
    then obtain x where x: "find (\<lambda>x. py_get x ''name'' = PyStr t) (tools_of j) = Some x" "schema = tool_field x field"
      using schema(1) p md plain(1)
      by (auto simp: web_schema_def tool_field_or_null split: json_file.splits option.splits)
    then show ?thesis using Some p md plain not_obscure_tool [OF x(1), of field]
      by (simp add: is_path_obscure_def is_obscure_field_def)
  qed
qed

text \<open>
  C28. A save from the web form that succeeds either switches a gate key of a declared tool or a
  registered skill to 0 or 1, or writes, in the clear, a field whose schema proves that it is no
  secret; and the actor still has the role the request was made with.
\<close>

theorem web_writes_no_secret:
  assumes "save_config env dk d actor path value scope sid False rows = Inr (encrypted, reset, rows', ev)"
  shows "check_actor d actor
    \<and> (is_gate_key dk path = Inr True \<and> (value = ''0'' \<or> value = ''1'')
       \<or> \<not> encrypted \<and> (\<exists>schema. web_schema dk path = Some schema \<and> \<not> is_secret_field schema))"
proof -
  have v: "validate_config_write env dk rows path value scope sid False = None"
    and w: "write_config env dk d actor path value scope sid rows = Inr (encrypted, reset, rows', ev)"
    using assms by (auto simp: save_config_def split: option.splits)
  have actor: "check_actor d actor" using w by (auto simp: write_config_def split: if_splits)
  consider "is_gate_key dk path = Inr True" "value = ''0'' \<or> value = ''1''"
    | "prove_not_secret dk path = None"
    using v by (auto simp: validate_config_write_def validate_web_path_def refuse_def
        split: sum.splits bool.splits option.splits if_splits)
  then show ?thesis
  proof cases
    case 1
    then show ?thesis using actor by blast
  next
    case 2
    then have "\<exists>schema. web_schema dk path = Some schema \<and> \<not> is_secret_field schema"
      by (auto simp: prove_not_secret_def refuse_def split: option.splits if_splits)
    moreover have "\<not> encrypted"
      using w proven_is_not_obscure [OF 2] by (auto simp: write_config_def set_config_with_dependents_def config_set_auto_encrypt_def
          split: if_splits sum.splits)
    ultimately show ?thesis using actor by blast
  qed
qed

section \<open>Dependents\<close>

lemma scoped_set_other:
  assumes "path' \<noteq> path"
  shows "scope_entry (Some (scoped_config_set encrypt path' value scope sid encrypted rows)) sc i path
    = scope_entry (Some rows) sc i path"
proof -
  define entries where "entries rows = map (\<lambda>r. (cf_path r, cf_value r, cf_encrypted r))
      (filter (\<lambda>r. cf_scope r = sc \<and> cf_scope_id r = i) rows)" for rows :: cfg_table
  let ?at = "filter (\<lambda>e. fst e = path)"
  have look: "map_of (rev es) path = map_of (rev (?at es)) path" for es :: "(string \<times> string option \<times> bool) list"
    by (induction es) (auto simp: map_add_def split: option.splits)
  have "?at (entries (map (\<lambda>r. if at_key scope sid path' r then r\<lparr>cf_value := v, cf_encrypted := encrypted\<rparr> else r) rows))
      = ?at (entries rows)" for v
    using assms by (induction rows) (auto simp: entries_def at_key_def)
  then have "?at (entries (scoped_config_set encrypt path' value scope sid encrypted rows)) = ?at (entries rows)"
    using assms by (simp add: scoped_config_set_def Let_def) (simp add: entries_def)
  then have "map_of (rev (entries (scoped_config_set encrypt path' value scope sid encrypted rows))) path
      = map_of (rev (entries rows)) path"
    using look [of "entries rows"] look [of "entries (scoped_config_set encrypt path' value scope sid encrypted rows)"] by simp
  then show ?thesis
    by (simp add: scope_entry_def load_scoped_db_overrides_def map_of_dict_update entries_def)
qed

lemma first_scope_by_entries:
  "first_scope (Some rows) path ((scope, sid, rank) # rest)
    = (case Option.bind sid (\<lambda>i. scope_entry (Some rows) scope i path) of
         Some (Some v, encrypted) \<Rightarrow> Some (v, rank) | _ \<Rightarrow> first_scope (Some rows) path rest)"
proof (cases sid)
  case (Some i)
  obtain d where "load_scoped_db_overrides False (Some rows) scope i = Inr d" using load_lenient by blast
  then show ?thesis using Some by (auto simp: scope_entry_def split: option.splits)
qed simp

lemma resolve_other_path:
  assumes "path' \<noteq> path"
  shows "resolve_with_origin environ' (Some (scoped_config_set encrypt path' value scope sid encrypted rows)) path av ws json
    = resolve_with_origin environ' (Some rows) path av ws json"
  unfolding resolve_with_origin_def first_scope_by_entries first_scope.simps(1) scoped_set_other [OF assms] ..

lemma resolve_own_path:
  assumes "environ' (path_to_env_key path) = None" "own_scope scope sid None"
  shows "fst (resolve_with_origin environ' (Some (scoped_config_set encrypt path value scope sid False rows)) path
      (if scope = AGENT_VIEW then Some sid else None) (if scope = WORKSPACE then Some sid else None) json) = Some value"
proof -
  have entry: "scope_entry (Some (scoped_config_set encrypt path value scope sid False rows)) scope sid path = Some (Some value, False)"
    using scoped_set_entry [of encrypt path "value" scope sid False rows] by simp
  have "scope = AGENT_VIEW \<or> scope = WORKSPACE \<or> scope = DEFAULT \<and> sid = 0" using assms(2) by (auto simp: own_scope_def)
  then show ?thesis using assms(1) entry
    unfolding resolve_with_origin_def first_scope_by_entries by (auto simp: scope_defs)
qed

text \<open>The fields that depend on the saved one are plain, named by text, and no variable of the
  environment sets them; their options are texts.\<close>

definition plain_dependents :: "cfg_env \<Rightarrow> disk \<Rightarrow> string \<Rightarrow> string \<Rightarrow> string \<Rightarrow> (pyval \<times> pyval) list \<Rightarrow> bool" where
  "plain_dependents env dk m parent_path parent_value items \<longleftrightarrow>
     distinct (map fst items)
     \<and> (\<forall>(key, dep_def) \<in> set items. \<exists>dep. key = PyStr dep
         \<and> (py_get dep_def ''depends_on'' = PyStr parent_path \<longrightarrow>
              m @ ''/'' @ dep \<noteq> parent_path \<and> is_path_obscure dk (m @ ''/'' @ dep) = Inr False
              \<and> environ env (path_to_env_key (m @ ''/'' @ dep)) = None
              \<and> (\<forall>v \<in> set (allowed_values dk dep_def (Some parent_value)). \<exists>s. v = PyStr s)))"

lemma preferred_in: "allowed \<noteq> [] \<Longrightarrow> preferred_value dk p v allowed \<in> set allowed"
  by (simp add: preferred_value_def split: option.splits)

lemma current_valid_other: "path' \<noteq> path \<Longrightarrow>
    current_valid env (scoped_config_set encrypt path' value sc i enc rows) path scope sid allowed
    = current_valid env rows path scope sid allowed"
  by (simp add: current_valid_def resolve_other_path)

lemma repair_keeps:
  assumes "repair env dk m parent_path parent_value scope sid items rows = Inr (reset, rows')"
    "\<forall>(key, dep_def) \<in> set items. m @ ''/'' @ option_text env key \<noteq> path \<or> py_get dep_def ''depends_on'' \<noteq> PyStr parent_path"
  shows "resolve_with_origin environ' (Some rows') path av ws json = resolve_with_origin environ' (Some rows) path av ws json"
  using assms
proof (induction items arbitrary: rows reset)
  case (Cons item items)
  obtain key dep_def where item: "item = (key, dep_def)" by fastforce
  let ?path = "m @ ''/'' @ option_text env key"
  have rest: "\<forall>(key, dep_def) \<in> set items. m @ ''/'' @ option_text env key \<noteq> path \<or> py_get dep_def ''depends_on'' \<noteq> PyStr parent_path"
    using Cons.prems(2) by simp
  show ?case
  proof (cases "repair env dk m parent_path parent_value scope sid items rows = Inr (reset, rows')")
    case True
    then show ?thesis using Cons.IH rest by blast
  next
    case False
    then obtain enc w reset' where step: "?path \<noteq> path"
        "repair env dk m parent_path parent_value scope sid items
           (scoped_config_set (dk_encrypt dk) ?path w scope sid enc rows) = Inr (reset', rows')"
      using Cons.prems unfolding item
      by (auto simp: Let_def config_set_auto_encrypt_def apfst_def map_prod_def
          split: if_splits sum.splits prod.splits)
    show ?thesis unfolding Cons.IH [OF step(2) rest] by (rule resolve_other_path [OF step(1)])
  qed
qed simp

lemma plain_dependents_tl: "plain_dependents env dk m pp pv (x # items) \<Longrightarrow> plain_dependents env dk m pp pv items"
  by (simp add: plain_dependents_def)

lemma plain_dependentD:
  "plain_dependents env dk m pp pv items \<Longrightarrow> (key, dep_def) \<in> set items \<Longrightarrow> \<exists>dep. key = PyStr dep"
  by (auto simp: plain_dependents_def)

lemma repair_writes_option:
  assumes "plain_dependents env dk m pp pv items" "(PyStr dep, dep_def) \<in> set items"
    "py_get dep_def ''depends_on'' = PyStr pp" "allowed_values dk dep_def (Some pv) \<noteq> []" "own_scope scope sid None"
    "config_set_auto_encrypt dk (m @ ''/'' @ dep)
       (option_text env (preferred_value dk pp pv (allowed_values dk dep_def (Some pv)))) scope sid rows = Inr (enc, rows')"
  shows "current_valid env rows' (m @ ''/'' @ dep) scope sid (allowed_values dk dep_def (Some pv))"
proof -
  let ?allowed = "allowed_values dk dep_def (Some pv)"
  let ?new = "preferred_value dk pp pv ?allowed"
  have plain: "is_path_obscure dk (m @ ''/'' @ dep) = Inr False" "environ env (path_to_env_key (m @ ''/'' @ dep)) = None"
    "\<forall>v \<in> set ?allowed. \<exists>s. v = PyStr s"
    using assms(1-3) by (auto simp: plain_dependents_def)
  obtain s where s: "?new = PyStr s" using plain(3) preferred_in [OF assms(4)] by blast
  have "rows' = scoped_config_set (dk_encrypt dk) (m @ ''/'' @ dep) s scope sid False rows"
    using assms(6) plain(1) s by (simp add: config_set_auto_encrypt_def)
  then have "fst (resolve_with_origin (environ env) (Some rows') (m @ ''/'' @ dep)
      (if scope = AGENT_VIEW then Some sid else None) (if scope = WORKSPACE then Some sid else None) None) = Some s"
    
    using resolve_own_path [of "environ env" "m @ ''/'' @ dep" scope sid] plain(2) assms(5) by simp
  moreover have "PyStr s \<in> set ?allowed" using preferred_in [OF assms(4), of dk pp pv] s by simp
  ultimately show ?thesis
    unfolding current_valid_def by (auto split: prod.splits)
qed

lemma repair_valid:
  assumes "repair env dk m pp pv scope sid items rows = Inr (reset, rows')"
    "plain_dependents env dk m pp pv items" "own_scope scope sid None" "(PyStr dep, dep_def) \<in> set items"
    "py_get dep_def ''depends_on'' = PyStr pp" "allowed_values dk dep_def (Some pv) \<noteq> []"
  shows "current_valid env rows' (m @ ''/'' @ dep) scope sid (allowed_values dk dep_def (Some pv))"
  using assms
proof (induction items arbitrary: rows reset)
  case (Cons item items)
  obtain key def where item: "item = (key, def)" by fastforce
  let ?path = "m @ ''/'' @ dep"
  obtain rows1 reset1 where step: "repair env dk m pp pv scope sid items rows1 = Inr (reset1, rows')"
    and rows1: "rows1 = rows \<and> (\<not> is_py_dict def \<or> py_get def ''depends_on'' \<noteq> PyStr pp
        \<or> allowed_values dk def (Some pv) = [] \<or> current_valid env rows (m @ ''/'' @ option_text env key) scope sid (allowed_values dk def (Some pv)))
      \<or> (\<exists>enc. config_set_auto_encrypt dk (m @ ''/'' @ option_text env key)
           (option_text env (preferred_value dk pp pv (allowed_values dk def (Some pv)))) scope sid rows = Inr (enc, rows1))"
    using Cons.prems(1) unfolding item by (auto simp: Let_def split: if_splits sum.splits prod.splits)
  note tl = plain_dependents_tl [OF Cons.prems(2)]
  show ?case
  proof (cases "(PyStr dep, dep_def) \<in> set items")
    case True
    then show ?thesis using Cons.IH [OF step tl] Cons.prems by blast
  next
    case False
    then have this': "key = PyStr dep" "def = dep_def" using Cons.prems(4) item by auto
    have "is_py_dict dep_def" using Cons.prems(5) by (cases dep_def) auto
    then have valid: "current_valid env rows1 ?path scope sid (allowed_values dk dep_def (Some pv))"
      using rows1 this' Cons.prems(5,6) repair_writes_option [OF Cons.prems(2,4,5,6,3)] by auto
    have "m @ ''/'' @ option_text env k \<noteq> ?path" if k: "(k, d) \<in> set items" for k d
    proof -
      obtain s where "k = PyStr s" using plain_dependentD [OF tl k] by blast
      moreover have "PyStr dep \<notin> fst ` set items"
        using Cons.prems(2) this' item by (auto simp: plain_dependents_def)
      ultimately show ?thesis using k by force
    qed
    then have "resolve_with_origin (environ env) (Some rows') ?path av ws json
        = resolve_with_origin (environ env) (Some rows1) ?path av ws json" for av ws json
      by (intro repair_keeps [OF step]) auto
    then show ?thesis using valid by (simp add: current_valid_def)
  qed
qed simp


section \<open>A sample\<close>

definition sample_items :: "(pyval \<times> pyval) list" where
  "sample_items =
     [(PyStr ''harness'', PyDict [(PyStr ''type'', PyStr ''select''), (PyStr ''options_source'', PyStr ''agent_harness_registry'')]),
      (PyStr ''provider'', PyDict [(PyStr ''type'', PyStr ''select''), (PyStr ''options_source'', PyStr ''agent_harness_providers''),
         (PyStr ''depends_on'', PyStr ''agent_view/harness'')])]"

definition sample_dir :: module_dir where
  "sample_dir = \<lparr>md_system = Json (PyDict sample_items), md_module = Json (PyDict []), md_defaults = PyDict []\<rparr>"

definition sample_disk :: disk where
  "sample_disk = \<lparr>dk_dirs = [(''agent_view'', sample_dir)],
     dk_harnesses = [\<lparr>hd_id = ''claude'', hd_label = ''Claude'', hd_providers = [(''anthropic'', ''Anthropic'')], hd_default = ''anthropic''\<rparr>,
       \<lparr>hd_id = ''codex'', hd_label = ''Codex'', hd_providers = [(''azure'', ''Azure''), (''openai'', ''OpenAI'')], hd_default = ''openai''\<rparr>],
     dk_zones = [], dk_skills = [''git''], dk_key = (\<lambda>_. GoodKey), dk_encrypt = (\<lambda>s. CHR ''#'' # s)\<rparr>"

definition sample_pair :: cfg_table where
  "sample_pair =
     [\<lparr>cf_scope = ''agent_view'', cf_scope_id = 7, cf_path = ''agent_view/harness'', cf_value = Some ''claude'', cf_encrypted = False\<rparr>,
      \<lparr>cf_scope = ''agent_view'', cf_scope_id = 7, cf_path = ''agent_view/provider'', cf_value = Some ''anthropic'', cf_encrypted = False\<rparr>]"

definition sample_repaired :: cfg_table where
  "sample_repaired =
     [\<lparr>cf_scope = ''agent_view'', cf_scope_id = 7, cf_path = ''agent_view/harness'', cf_value = Some ''codex'', cf_encrypted = False\<rparr>,
      \<lparr>cf_scope = ''agent_view'', cf_scope_id = 7, cf_path = ''agent_view/provider'', cf_value = Some ''openai'', cf_encrypted = False\<rparr>]"

lemma sample_saved:
  "set_config_with_dependents (sample_surroundings []) sample_disk ''agent_view/harness'' ''codex'' ''agent_view'' 7 sample_pair
    = Inr (False, [(''agent_view/provider'', ''openai'')], sample_repaired)"
  by code_simp


lemma sample_web_saved:
  "save_config (sample_surroundings []) sample_disk (fresh_access 0) None ''skill/git/is_enabled'' ''1'' ''default'' 0 False []
    = Inr (False, [], [\<lparr>cf_scope = ''default'', cf_scope_id = 0, cf_path = ''skill/git/is_enabled'', cf_value = Some ''1'', cf_encrypted = False\<rparr>],
        \<lparr>ev_path = ''skill/git/is_enabled'', ev_encrypted = False\<rparr>)"
  by code_simp

lemma sample_web_gate: "is_gate_key sample_disk ''skill/git/is_enabled'' = Inr True"
  by code_simp

theorem web_writes_no_secret_witness:
  "check_actor (fresh_access 0) None \<and> is_gate_key sample_disk ''skill/git/is_enabled'' = Inr True"
  using web_writes_no_secret [OF sample_web_saved] sample_web_gate by blast

end
