(* ===== verification/Event_Manager.thy ===== *)
theory Event_Manager
  imports Agento_Prelude
begin

text \<open>
  \<open>event_manager.py\<close>: observers per event name, sorted by order and name, and a dispatch that runs
  them all whatever one of them does. Running an observer is an argument: it gives whether the
  observer returned, and the state it leaves, also when it raised.
\<close>

record 'c observer_entry =
  ob_name :: string
  ob_class :: 'c
  ob_order :: int

type_synonym 'c observers = "(string \<times> 'c observer_entry list) list"

definition observers_of :: "'c observers \<Rightarrow> string \<Rightarrow> 'c observer_entry list" where
  "observers_of reg event_name = (case map_of reg event_name of None \<Rightarrow> [] | Some es \<Rightarrow> es)"

definition observer_key :: "'c observer_entry \<Rightarrow> int \<times> string" where
  "observer_key e = (ob_order e, ob_name e)"

definition register_observer :: "string \<Rightarrow> 'c observer_entry \<Rightarrow> 'c observers \<Rightarrow> 'c observers" where
  "register_observer event_name entry reg =
     dict_put (event_name, sort_key observer_key (observers_of reg event_name @ [entry])) reg"

fun run_observers :: "('c \<Rightarrow> 'e \<Rightarrow> 's \<Rightarrow> bool \<times> 's) \<Rightarrow> 'e \<Rightarrow> 'c observer_entry list \<Rightarrow> bool \<times> 's \<Rightarrow> bool \<times> 's" where
  "run_observers execute event [] (ok, s) = (ok, s)"
| "run_observers execute event (e # es) (ok, s) =
     (let (returned, s') = execute (ob_class e) event s in run_observers execute event es (ok \<and> returned, s'))"

definition dispatch_with_result ::
    "('c \<Rightarrow> 'e \<Rightarrow> 's \<Rightarrow> bool \<times> 's) \<Rightarrow> 'c observers \<Rightarrow> string \<Rightarrow> 'e \<Rightarrow> 's \<Rightarrow> bool \<times> 's" where
  "dispatch_with_result execute reg event_name event s =
     run_observers execute event (observers_of reg event_name) (True, s)"

definition dispatch_event ::
    "('c \<Rightarrow> 'e \<Rightarrow> 's \<Rightarrow> bool \<times> 's) \<Rightarrow> 'c observers \<Rightarrow> string \<Rightarrow> 'e \<Rightarrow> 's \<Rightarrow> 's" where
  "dispatch_event execute reg event_name event s =
     fold (\<lambda>e s. snd (execute (ob_class e) event s)) (observers_of reg event_name) s"

definition observer_count :: "'c observers \<Rightarrow> string \<Rightarrow> nat" where
  "observer_count reg event_name = length (observers_of reg event_name)"

section \<open>Facts\<close>

definition observers_ok :: "'c observers \<Rightarrow> bool" where
  "observers_ok reg \<longleftrightarrow> distinct (map fst reg) \<and> (\<forall>n. sorted (map observer_key (observers_of reg n)))"

lemma observers_of_register:
  "observers_of (register_observer event_name entry reg) n
    = (if n = event_name then sort_key observer_key (observers_of reg event_name @ [entry]) else observers_of reg n)"
  by (auto simp: observers_of_def register_observer_def map_of_dict_put split: option.splits)

lemma register_observer_ok: "observers_ok reg \<Longrightarrow> observers_ok (register_observer event_name entry reg)"
  unfolding observers_ok_def observers_of_register
  by (simp add: register_observer_def dict_put_distinct)

lemma register_observer_adds:
  "set (observers_of (register_observer event_name entry reg) event_name) = insert entry (set (observers_of reg event_name))"
  by (simp add: observers_of_register)

text \<open>Both kinds of dispatch leave the same state; the result tells whether every observer returned
  in the state its predecessors left.\<close>

lemma run_observers_state: "snd (run_observers execute event es (ok, s)) = fold (\<lambda>e s. snd (execute (ob_class e) event s)) es s"
  by (induction es arbitrary: ok s) (auto simp: Let_def split: prod.splits)

lemma dispatch_same_state: "snd (dispatch_with_result execute reg n event s) = dispatch_event execute reg n event s"
  by (simp add: dispatch_with_result_def dispatch_event_def run_observers_state)

fun all_return :: "('c \<Rightarrow> 'e \<Rightarrow> 's \<Rightarrow> bool \<times> 's) \<Rightarrow> 'e \<Rightarrow> 'c observer_entry list \<Rightarrow> 's \<Rightarrow> bool" where
  "all_return execute event [] s = True"
| "all_return execute event (e # es) s =
     (fst (execute (ob_class e) event s) \<and> all_return execute event es (snd (execute (ob_class e) event s)))"

lemma run_observers_ok: "fst (run_observers execute event es (ok, s)) \<longleftrightarrow> ok \<and> all_return execute event es s"
  by (induction es arbitrary: ok s) (auto simp: Let_def split: prod.splits)

lemma dispatch_result: "fst (dispatch_with_result execute reg n event s) \<longleftrightarrow> all_return execute event (observers_of reg n) s"
  by (simp add: dispatch_with_result_def run_observers_ok)

end
