(* ===== verification/Routing.thy ===== *)
theory Routing
  imports Agento_Prelude
begin

text \<open>
  From an inbound identity to an agent view: the bindings (\<open>ingress_identity.py\<close>), the router of
  the core module that reads them (\<open>identity_router.py\<close>), the registry of routers and the routing
  chain (\<open>router_registry.py\<close>, \<open>router.py\<close>). Text compares verbatim; the regular expression engine
  with its timeout, and the clock, are arguments.
\<close>

section \<open>Bindings\<close>

record ingress_row =
  ig_id :: nat
  ig_type :: string
  ig_value :: string
  ig_view :: nat
  ig_priority :: int
  ig_active :: bool

record ingress =
  ig_rows :: "ingress_row list"
  ig_next :: nat
  ig_regex_types :: "string list"

definition is_regex_identity_type :: "ingress \<Rightarrow> string \<Rightarrow> bool" where
  "is_regex_identity_type d t \<longleftrightarrow> t \<in> set (ig_regex_types d)"

definition register_regex_identity_type :: "string \<Rightarrow> ingress \<Rightarrow> ingress" where
  "register_regex_identity_type t d =
     (if t \<in> set (ig_regex_types d) then d else d\<lparr>ig_regex_types := ig_regex_types d @ [t]\<rparr>)"

definition clear_regex_identity_types :: "ingress \<Rightarrow> ingress" where
  "clear_regex_identity_types d = d\<lparr>ig_regex_types := []\<rparr>"

definition is_binding :: "string \<Rightarrow> string \<Rightarrow> ingress_row \<Rightarrow> bool" where
  "is_binding t v r \<longleftrightarrow> ig_type r = t \<and> ig_value r = v"

definition get_ingress_identity :: "string \<Rightarrow> string \<Rightarrow> ingress \<Rightarrow> ingress_row option" where
  "get_ingress_identity t v d = find (is_binding t v) (ig_rows d)"

text \<open>\<open>ORDER BY priority DESC, id ASC\<close>.\<close>

definition get_active_identities_for_type :: "string \<Rightarrow> ingress \<Rightarrow> ingress_row list" where
  "get_active_identities_for_type t d =
     sort_key (\<lambda>r. (- ig_priority r, ig_id r)) (filter (\<lambda>r. ig_type r = t \<and> ig_active r) (ig_rows d))"

definition listing_key :: "ingress_row \<Rightarrow> string \<times> int \<times> string \<times> nat" where
  "listing_key r = (ig_type r, - ig_priority r, ig_value r, ig_id r)"

definition get_identities_for_agent_view :: "nat \<Rightarrow> ingress \<Rightarrow> ingress_row list" where
  "get_identities_for_agent_view view d = sort_key listing_key (filter (\<lambda>r. ig_view r = view) (ig_rows d))"

definition list_identities :: "string option \<Rightarrow> ingress \<Rightarrow> ingress_row list" where
  "list_identities t d =
     sort_key listing_key (if truthy t then filter (\<lambda>r. Some (ig_type r) = t) (ig_rows d) else ig_rows d)"

text \<open>The upsert keeps the priority unless one is given. A view that does not exist breaks the
  foreign key: \<open>None\<close>. An upsert consumes an id as well.\<close>

definition rebound :: "nat \<Rightarrow> int option \<Rightarrow> ingress_row \<Rightarrow> ingress_row" where
  "rebound view priority r = r\<lparr>ig_view := view, ig_active := True,
     ig_priority := (case priority of None \<Rightarrow> ig_priority r | Some p \<Rightarrow> p)\<rparr>"

definition bind_identity :: "(nat \<Rightarrow> bool) \<Rightarrow> string \<Rightarrow> string \<Rightarrow> nat \<Rightarrow> int option \<Rightarrow> ingress \<Rightarrow> ingress option" where
  "bind_identity view_exists t v view priority d =
     (if \<not> view_exists view then None
      else let d1 = d\<lparr>ig_next := ig_next d + 1\<rparr> in
        Some (if \<exists>r \<in> set (ig_rows d). is_binding t v r
          then d1\<lparr>ig_rows := update_where (is_binding t v) (rebound view priority) (ig_rows d)\<rparr>
          else d1\<lparr>ig_rows := ig_rows d @
                 [\<lparr>ig_id = ig_next d, ig_type = t, ig_value = v, ig_view = view,
                   ig_priority = (case priority of None \<Rightarrow> 0 | Some p \<Rightarrow> p), ig_active = True\<rparr>]\<rparr>))"

definition unbind_identity :: "string \<Rightarrow> string \<Rightarrow> ingress \<Rightarrow> bool \<times> ingress" where
  "unbind_identity t v d =
     (\<exists>r \<in> set (ig_rows d). is_binding t v r, d\<lparr>ig_rows := filter (\<lambda>r. \<not> is_binding t v r) (ig_rows d)\<rparr>)"

section \<open>The warning limiter\<close>

text \<open>An \<open>OrderedDict\<close>, oldest first: binding id and the time of its last warning, in microseconds.\<close>

definition WARN_LRU_MAX :: nat where "WARN_LRU_MAX = 256"
definition WARN_TTL :: nat where "WARN_TTL = 60000000"

type_synonym warn_seen = "(nat \<times> nat) list"

definition trim_seen :: "warn_seen \<Rightarrow> warn_seen" where
  "trim_seen seen = drop (length seen - WARN_LRU_MAX) seen"

definition should_warn :: "nat \<Rightarrow> nat \<Rightarrow> warn_seen \<Rightarrow> bool \<times> warn_seen" where
  "should_warn now i seen =
     (let rest = filter (\<lambda>e. fst e \<noteq> i) seen in
      case map_of seen i of
        Some prev \<Rightarrow> if now - prev < WARN_TTL then (False, rest @ [(i, prev)])
                     else (True, trim_seen (rest @ [(i, now)]))
      | None \<Rightarrow> (True, trim_seen (rest @ [(i, now)])))"

section \<open>Matching\<close>

definition SENDER_MAX_LEN :: nat where "SENDER_MAX_LEN = 320"

datatype match_verdict = Matches | NoMatch | Broken

text \<open>What happens at a binding: whether the budget of the lookup is spent when its turn comes,
  what the engine says within its timeout, and the clock for the warning.\<close>

record match_try =
  mt_spent :: bool
  mt_verdict :: match_verdict
  mt_now :: nat

fun match_rows :: "(ingress_row \<Rightarrow> match_try) \<Rightarrow> ingress_row list \<Rightarrow> warn_seen \<Rightarrow> ingress_row list \<times> warn_seen" where
  "match_rows attempt [] seen = ([], seen)"
| "match_rows attempt (r # rs) seen =
     (if mt_spent (attempt r) then ([], seen)
      else case mt_verdict (attempt r) of
        Matches \<Rightarrow> apfst (Cons r) (match_rows attempt rs seen)
      | NoMatch \<Rightarrow> match_rows attempt rs seen
      | Broken \<Rightarrow> match_rows attempt rs (snd (should_warn (mt_now (attempt r)) (ig_id r) seen)))"

definition match_ingress_identities ::
    "(ingress_row \<Rightarrow> match_try) \<Rightarrow> string \<Rightarrow> string \<Rightarrow> ingress \<Rightarrow> warn_seen \<Rightarrow> ingress_row list \<times> warn_seen" where
  "match_ingress_identities attempt t v d seen =
     (if \<not> is_regex_identity_type d t then
        (case get_ingress_identity t v d of
           None \<Rightarrow> ([], seen) | Some r \<Rightarrow> (if ig_active r then [r] else [], seen))
      else if SENDER_MAX_LEN < length v then ([], seen)
      else match_rows attempt (get_active_identities_for_type t d) seen)"

section \<open>Routers\<close>

record routing_context =
  rc_channel :: string
  rc_workflow_type :: string
  rc_type :: string
  rc_value :: string

datatype route_reason = ExactBinding string string | TopBindings "nat list" int nat | OtherReason string

record route_candidate =
  ca_view :: nat
  ca_reason :: route_reason

record routing_result =
  rr_router :: string
  rr_candidates :: "route_candidate list"
  rr_ambiguous :: bool

text \<open>\<open>by_view.setdefault(view, []).append(id)\<close>.\<close>

definition group_by_view :: "ingress_row list \<Rightarrow> (nat \<times> nat list) list" where
  "group_by_view rs = fold (\<lambda>r d.
     dict_put (ig_view r, (case map_of d (ig_view r) of None \<Rightarrow> [] | Some ids \<Rightarrow> ids) @ [ig_id r]) d) rs []"

definition top_priority :: "ingress_row list \<Rightarrow> int" where
  "top_priority rs = Max (set (map ig_priority rs))"

definition identity_result :: "ingress \<Rightarrow> routing_context \<Rightarrow> ingress_row list \<Rightarrow> routing_result option" where
  "identity_result d ctx rs =
     (case rs of
        [] \<Rightarrow> None
      | r # _ \<Rightarrow>
          if \<not> is_regex_identity_type d (rc_type ctx) then
            Some \<lparr>rr_router = ''identity'',
                  rr_candidates = [\<lparr>ca_view = ig_view r, ca_reason = ExactBinding (rc_type ctx) (rc_value ctx)\<rparr>],
                  rr_ambiguous = False\<rparr>
          else
            (let highest = top_priority rs;
                 by_view = group_by_view (filter (\<lambda>r. ig_priority r = highest) rs) in
             Some \<lparr>rr_router = ''identity'',
                   rr_candidates = map (\<lambda>(view, ids). \<lparr>ca_view = view, ca_reason = TopBindings ids highest view\<rparr>) by_view,
                   rr_ambiguous = 1 < length by_view\<rparr>))"

text \<open>What a router does with a context: raise, or answer.\<close>

datatype router_answer = RouterRaises | RouterAnswers "routing_result option"

definition identity_router :: "(ingress_row \<Rightarrow> match_try) \<Rightarrow> ingress \<Rightarrow> warn_seen \<Rightarrow> routing_context \<Rightarrow> router_answer" where
  "identity_router attempt d seen ctx =
     RouterAnswers (identity_result d ctx (fst (match_ingress_identities attempt (rc_type ctx) (rc_value ctx) d seen)))"

type_synonym router = "routing_context \<Rightarrow> router_answer"

type_synonym router_registry = "(int \<times> string \<times> router) list"

definition register_router :: "string \<Rightarrow> router \<Rightarrow> int \<Rightarrow> router_registry \<Rightarrow> router_registry" where
  "register_router name router order reg =
     sort_key (\<lambda>(order, name, r). (order, name)) (reg @ [(order, name, router)])"

definition get_routers :: "router_registry \<Rightarrow> router list" where
  "get_routers reg = map (snd \<circ> snd) reg"

section \<open>The routing chain\<close>

record route_decision =
  de_view :: nat
  de_found :: bool
  de_router :: string
  de_results :: "routing_result list"
  de_reason :: route_reason
  de_ambiguous :: bool

datatype routing_event =
    RoutingFailed
  | RoutingAmbiguous nat string "string list" route_reason
  | RoutingResolved nat string route_reason nat

text \<open>The results of the routers that matched; \<open>None\<close> when one raised and that is to be passed on.\<close>

fun matched_results :: "bool \<Rightarrow> router list \<Rightarrow> routing_context \<Rightarrow> routing_result list option" where
  "matched_results fail_on_error [] ctx = Some []"
| "matched_results fail_on_error (r # rs) ctx =
     (case r ctx of
        RouterRaises \<Rightarrow> if fail_on_error then None else matched_results fail_on_error rs ctx
      | RouterAnswers (Some res) \<Rightarrow>
          if rr_candidates res = [] then matched_results fail_on_error rs ctx
          else map_option (Cons res) (matched_results fail_on_error rs ctx)
      | RouterAnswers None \<Rightarrow> matched_results fail_on_error rs ctx)"

definition resolve_agent_view ::
    "(nat \<Rightarrow> bool) \<Rightarrow> router_registry \<Rightarrow> bool \<Rightarrow> routing_context \<Rightarrow> (route_decision option \<times> routing_event) option" where
  "resolve_agent_view view_exists reg fail_on_error ctx =
     (case matched_results fail_on_error (get_routers reg) ctx of
        None \<Rightarrow> None
      | Some [] \<Rightarrow> Some (None, RoutingFailed)
      | Some (winner # rest) \<Rightarrow>
          (let c = hd (rr_candidates winner);
               results = winner # rest;
               ambiguous = rest \<noteq> [] \<or> rr_ambiguous winner
           in Some (Some \<lparr>de_view = ca_view c, de_found = view_exists (ca_view c), de_router = rr_router winner,
                          de_results = results, de_reason = ca_reason c, de_ambiguous = ambiguous\<rparr>,
                if ambiguous
                then RoutingAmbiguous (ca_view c) (rr_router winner) (map rr_router results) (ca_reason c)
                else RoutingResolved (ca_view c) (rr_router winner) (ca_reason c)
                       (sum_list (map (\<lambda>r. length (rr_candidates r)) results)))))"

text \<open>\<open>_redact_identity_value\<close>; \<open>sha\<close> is the hexadecimal digest.\<close>

definition redact_identity_value :: "(string \<Rightarrow> string) \<Rightarrow> string \<Rightarrow> string" where
  "redact_identity_value sha v =
     (if CHR ''@'' \<in> set v
      then ''<redacted>@'' @ rev (takeWhile (\<lambda>c. c \<noteq> CHR ''@'') (rev v)) @ ''#'' @ take 8 (sha v)
      else v)"

section \<open>Facts\<close>

definition ingress_ok :: "ingress \<Rightarrow> bool" where
  "ingress_ok d \<longleftrightarrow> distinct (map (\<lambda>r. (ig_type r, ig_value r)) (ig_rows d))
     \<and> distinct (map ig_id (ig_rows d)) \<and> (\<forall>r \<in> set (ig_rows d). ig_id r < ig_next d)"

lemma rebound_fields [simp]:
  "ig_id (rebound view p r) = ig_id r" "ig_type (rebound view p r) = ig_type r" "ig_value (rebound view p r) = ig_value r"
  by (simp_all add: rebound_def)

lemma bind_identity_ok:
  assumes "ingress_ok d" "bind_identity view_exists t v view p d = Some d'"
  shows "ingress_ok d'"
proof (cases "\<exists>r \<in> set (ig_rows d). is_binding t v r")
  case True
  then have "d' = d\<lparr>ig_next := ig_next d + 1, ig_rows := update_where (is_binding t v) (rebound view p) (ig_rows d)\<rparr>"
    using assms(2) by (auto simp: bind_identity_def split: if_splits)
  then show ?thesis using assms(1)
    by (auto simp: ingress_ok_def map_update_where in_update_where less_Suc_eq)
next
  case False
  let ?r = "\<lparr>ig_id = ig_next d, ig_type = t, ig_value = v, ig_view = view,
      ig_priority = (case p of None \<Rightarrow> 0 | Some p \<Rightarrow> p), ig_active = True\<rparr>"
  have "d' = d\<lparr>ig_next := ig_next d + 1, ig_rows := ig_rows d @ [?r]\<rparr>"
    using assms(2) False by (simp add: bind_identity_def Let_def split: if_splits)
  then show ?thesis using assms(1) False
    by (fastforce simp: ingress_ok_def is_binding_def less_Suc_eq)
qed

lemma unbind_identity_ok: "ingress_ok d \<Longrightarrow> ingress_ok (snd (unbind_identity t v d))"
  by (auto simp: ingress_ok_def unbind_identity_def distinct_map_filter)

lemma should_warn_bounded:
  assumes "length seen \<le> WARN_LRU_MAX"
  shows "length (snd (should_warn now i seen)) \<le> WARN_LRU_MAX"
proof (cases "map_of seen i")
  case (Some prev)
  then have "(i, prev) \<in> set seen" by (rule map_of_SomeD)
  then have "length (filter (\<lambda>e. fst e \<noteq> i) seen) < length seen" by (intro length_filter_less) auto
  then show ?thesis using assms Some by (simp add: should_warn_def trim_seen_def Let_def)
qed (simp add: should_warn_def trim_seen_def Let_def)

text \<open>A binding that just warned does not warn again within the window.\<close>

lemma should_warn_once:
  assumes "should_warn now i seen = (True, seen')" "now' - now < WARN_TTL"
  shows "\<not> fst (should_warn now' i seen')"
proof -
  have seen': "seen' = trim_seen (filter (\<lambda>e. fst e \<noteq> i) seen @ [(i, now)])"
    using assms(1) by (auto simp: should_warn_def Let_def split: option.splits if_splits)
  let ?rest = "filter (\<lambda>e. fst e \<noteq> i) seen"
  have "length (?rest @ [(i, now)]) - WARN_LRU_MAX \<le> length ?rest" by (simp add: WARN_LRU_MAX_def)
  then have "seen' = drop (length (?rest @ [(i, now)]) - WARN_LRU_MAX) ?rest @ [(i, now)]"
    unfolding seen' trim_seen_def by simp
  moreover have "map_of (drop n ?rest) i = None" for n
    by (auto simp: map_of_eq_None_iff dest!: in_set_dropD)
  ultimately have "map_of seen' i = Some now" by (simp add: map_add_def)
  then show ?thesis using assms(2) by (simp add: should_warn_def Let_def)
qed

lemma register_router_sorted: "sorted (map (\<lambda>(order, name, r). (order, name)) (register_router name router order reg))"
  by (simp add: register_router_def)

lemma match_rows_rows: "fst (match_rows attempt rs seen)
    = filter (\<lambda>r. mt_verdict (attempt r) = Matches) (takeWhile (\<lambda>r. \<not> mt_spent (attempt r)) rs)"
  by (induction rs arbitrary: seen) (auto split: match_verdict.splits)

lemma match_active:
  "r \<in> set (fst (match_ingress_identities attempt t v d seen)) \<Longrightarrow> r \<in> set (ig_rows d) \<and> ig_type r = t \<and> ig_active r"
  by (auto simp: match_ingress_identities_def match_rows_rows get_active_identities_for_type_def get_ingress_identity_def
      is_binding_def find_Some_iff split: if_splits option.splits dest!: set_takeWhileD)

lemma group_by_view_keys: "map fst (group_by_view rs) = rev (remdups (rev (map ig_view rs)))"
proof -
  let ?step = "\<lambda>r d. dict_put (ig_view r, (case map_of d (ig_view r) of None \<Rightarrow> [] | Some ids \<Rightarrow> ids) @ [ig_id r]) d"
  have put: "map fst (dict_put kv d) = (if fst kv \<in> set (map fst d) then map fst d else map fst d @ [fst kv])" for kv and d :: "(nat \<times> nat list) list"
    by (auto simp: dict_put_def)
  have "map fst (fold ?step rs d) = map fst d @ filter (\<lambda>v. v \<notin> set (map fst d)) (rev (remdups (rev (map ig_view rs))))"
    if "distinct (map fst d)" for d
    using that
  proof (induction rs rule: rev_induct)
    case (snoc r rs)
    then show ?case by (auto simp: put)
  qed simp
  from this [of "[]"] show ?thesis by (simp add: group_by_view_def)
qed

lemma group_by_view_length: "1 < length (group_by_view rs) \<longleftrightarrow> (\<exists>r \<in> set rs. \<exists>q \<in> set rs. ig_view r \<noteq> ig_view q)"
proof -
  have k: "set (map fst (group_by_view rs)) = ig_view ` set rs" "distinct (map fst (group_by_view rs))"
    by (simp_all add: group_by_view_keys)
  then have "length (group_by_view rs) = card (ig_view ` set rs)" by (metis distinct_card length_map)
  moreover have "1 < card A \<longleftrightarrow> (\<exists>x \<in> A. \<exists>y \<in> A. x \<noteq> y)" if "finite A" for A :: "nat set"
  proof -
    have "card A \<le> 1 \<longleftrightarrow> (\<forall>x \<in> A. \<forall>y \<in> A. x = y)" using card_le_Suc0_iff_eq [OF that] by simp
    then show ?thesis by auto
  qed
  ultimately show ?thesis by simp
qed

lemma one_router:
  assumes "router ctx = RouterAnswers (Some res)" "rr_candidates res = c # cs"
  shows "\<exists>x event. resolve_agent_view view_exists (register_router name router order []) fail_on_error ctx = Some (Some x, event)
    \<and> de_view x = ca_view c \<and> de_ambiguous x = rr_ambiguous res"
  by (simp add: resolve_agent_view_def register_router_def get_routers_def assms Let_def)

section \<open>The binding that wins\<close>


text \<open>A budget spent between two bindings of the same priority hides the tie.\<close>

lemma budget_hides_a_tie:
  "let a = \<lparr>ig_id = 1, ig_type = ''mail'', ig_value = ''.*'', ig_view = 7, ig_priority = 5, ig_active = True\<rparr>;
       b = \<lparr>ig_id = 2, ig_type = ''mail'', ig_value = ''x'', ig_view = 8, ig_priority = 5, ig_active = True\<rparr>;
       d = \<lparr>ig_rows = [a, b], ig_next = 3, ig_regex_types = [''mail'']\<rparr>;
       slow = (\<lambda>r. \<lparr>mt_spent = ig_id r = 2, mt_verdict = Matches, mt_now = 0\<rparr>);
       fast = (\<lambda>r. \<lparr>mt_spent = False, mt_verdict = Matches, mt_now = 0\<rparr>);
       ctx = \<lparr>rc_channel = ''mail'', rc_workflow_type = ''w'', rc_type = ''mail'', rc_value = ''x''\<rparr>;
       route = (\<lambda>attempt. map_option (map_option de_ambiguous \<circ> fst) (resolve_agent_view (\<lambda>_. True)
                 (register_router ''identity'' (identity_router attempt d []) 10 []) False ctx))
   in route slow = Some (Some False) \<and> route fast = Some (Some True)"
  by code_simp

end
