(* ===== verification/Harness.thy ===== *)
theory Harness
  imports Config_Write "HOL-Library.Multiset"
begin

text \<open>
  Harnesses: their declarations in \<open>di.json\<close> (\<open>harness/descriptor.py\<close>, \<open>harness/manifest.py\<close>)
  and the registry the framework looks them up in (\<open>harness/registry.py\<close>). A \<open>ValueError\<close> is
  \<open>BadDecl\<close> with the key it is about; \<open>pystr\<close> is \<open>str\<close> of a JSON value. Module directories come
  with the parsed content of their \<open>di.json\<close>.
\<close>

section \<open>Identifiers\<close>

definition is_upper :: "char \<Rightarrow> bool" where
  "is_upper c \<longleftrightarrow> c \<in> set ''ABCDEFGHIJKLMNOPQRSTUVWXYZ''"

definition is_alnum :: "char \<Rightarrow> bool" where
  "is_alnum c \<longleftrightarrow> is_lower c \<or> is_digit c"

text \<open>A first character, then any number of others.\<close>

definition first_then :: "(char \<Rightarrow> bool) \<Rightarrow> (char \<Rightarrow> bool) \<Rightarrow> string \<Rightarrow> bool" where
  "first_then p q s \<longleftrightarrow> s \<noteq> [] \<and> p (hd s) \<and> list_all q (tl s)"

definition ID_PATTERN :: "string \<Rightarrow> bool" where
  "ID_PATTERN = first_then is_alnum (\<lambda>c. is_alnum c \<or> c = CHR ''_'' \<or> c = CHR ''-'')"

definition ID_MAX_LENGTH :: nat where "ID_MAX_LENGTH = 64"

datatype decl_error = BadDecl string | DeclTypeError | DeclAttributeError

definition validate_id :: "string \<Rightarrow> string \<Rightarrow> decl_error option" where
  "validate_id v what =
     (if \<not> ID_PATTERN v then Some (BadDecl what)
      else if ID_MAX_LENGTH < length v then Some (BadDecl what) else None)"

definition require_id :: "pyval \<Rightarrow> string \<Rightarrow> decl_error + string" where
  "require_id decl k =
     (case py_get decl k of
        PyStr s \<Rightarrow> if s = [] then Inl (BadDecl k)
                   else (case validate_id s k of Some e \<Rightarrow> Inl e | None \<Rightarrow> Inr s)
      | _ \<Rightarrow> Inl (BadDecl k))"

section \<open>Capabilities\<close>

record capabilities =
  cap_interactive :: bool
  cap_resume :: bool
  cap_transcripts :: bool
  cap_structured_events :: bool
  cap_toolbox :: bool
  cap_mcp_init_report :: bool
  cap_usage_reporting :: bool
  cap_cost_reporting :: bool

definition CAPABILITY_NAMES :: "string list" where
  "CAPABILITY_NAMES = [''interactive'', ''resume'', ''transcripts'', ''structured_events'',
     ''toolbox'', ''mcp_init_report'', ''usage_reporting'', ''cost_reporting'']"

fun is_bool :: "pyval \<Rightarrow> bool" where
  "is_bool (PyBool b) = True"
| "is_bool _ = False"

definition flag :: "pyval \<Rightarrow> string \<Rightarrow> bool" where
  "flag decl k \<longleftrightarrow> py_get decl k = PyBool True"

definition capabilities_from_declaration :: "pyval \<Rightarrow> decl_error + capabilities" where
  "capabilities_from_declaration raw =
     (let decl = (if raw = PyNone then PyDict [] else raw) in
      case decl of
        PyDict kvs \<Rightarrow>
          if \<not> list_all (\<lambda>(k, v). k \<in> PyStr ` set CAPABILITY_NAMES) kvs then Inl (BadDecl ''capabilities'')
          else if \<not> list_all (\<lambda>(k, v). is_bool v) kvs then Inl (BadDecl ''capabilities'')
          else Inr \<lparr>cap_interactive = flag decl ''interactive'', cap_resume = flag decl ''resume'',
                    cap_transcripts = flag decl ''transcripts'',
                    cap_structured_events = flag decl ''structured_events'',
                    cap_toolbox = flag decl ''toolbox'',
                    cap_mcp_init_report = flag decl ''mcp_init_report'',
                    cap_usage_reporting = flag decl ''usage_reporting'',
                    cap_cost_reporting = flag decl ''cost_reporting''\<rparr>
      | _ \<Rightarrow> Inl (BadDecl ''capabilities''))"

section \<open>Providers\<close>

datatype registration_mode = INTERACTIVE_OAUTH | API_KEY | ACCESS_TOKEN

definition mode_of :: "pyval \<Rightarrow> registration_mode option" where
  "mode_of v =
     (if v = PyStr ''interactive_oauth'' then Some INTERACTIVE_OAUTH
      else if v = PyStr ''api_key'' then Some API_KEY
      else if v = PyStr ''access_token'' then Some ACCESS_TOKEN else None)"

fun parse_modes :: "pyval list \<Rightarrow> registration_mode list \<Rightarrow> decl_error + registration_mode list" where
  "parse_modes [] modes = Inr modes"
| "parse_modes (raw # rest) modes =
     (case mode_of raw of
        None \<Rightarrow> Inl (BadDecl ''registration_modes'')
      | Some m \<Rightarrow> if m \<in> set modes then Inl (BadDecl ''registration_modes'')
                  else parse_modes rest (modes @ [m]))"

fun parse_options :: "pyval list \<Rightarrow> string list \<Rightarrow> decl_error + string list" where
  "parse_options [] options = Inr options"
| "parse_options (PyStr raw # rest) options =
     (if strip raw = [] then Inl (BadDecl ''provider_options'')
      else case validate_id raw ''provider_options'' of
             Some e \<Rightarrow> Inl e
           | None \<Rightarrow> if raw \<in> set options then Inl (BadDecl ''provider_options'')
                     else parse_options rest (options @ [raw]))"
| "parse_options (_ # rest) options = Inl (BadDecl ''provider_options'')"

record provider =
  pv_id :: string
  pv_label :: string
  pv_required :: bool
  pv_modes :: "registration_mode list"
  pv_scope :: "string option"
  pv_options :: "string list"

text \<open>\<open>str(decl.get("label") or fallback)\<close>.\<close>

definition label_or :: "(pyval \<Rightarrow> string) \<Rightarrow> pyval \<Rightarrow> string \<Rightarrow> string" where
  "label_or pystr decl fallback =
     (let l = py_get decl ''label'' in if py_truth l then pystr l else fallback)"

definition registration_modes_of :: "pyval \<Rightarrow> decl_error + registration_mode list" where
  "registration_modes_of decl =
     (let raw = py_get decl ''registration_modes'' in
      if \<not> py_truth raw then Inr []
      else case raw of PyList xs \<Rightarrow> parse_modes xs [] | _ \<Rightarrow> Inl (BadDecl ''registration_modes''))"

definition provider_options_of :: "pyval \<Rightarrow> decl_error + string list" where
  "provider_options_of decl =
     (case py_get_or decl ''provider_options'' (PyList []) of
        PyList xs \<Rightarrow> parse_options xs []
      | _ \<Rightarrow> Inl (BadDecl ''provider_options''))"

text \<open>\<open>credential_required\<close> must agree with the scope and the modes.\<close>

definition credential_mismatch :: "bool \<Rightarrow> pyval \<Rightarrow> registration_mode list \<Rightarrow> bool" where
  "credential_mismatch required scope modes \<longleftrightarrow>
     (if required then \<not> py_truth scope \<or> modes = [] else py_truth scope \<or> modes \<noteq> [])"

definition provider_from_declaration :: "(pyval \<Rightarrow> string) \<Rightarrow> pyval \<Rightarrow> decl_error + provider" where
  "provider_from_declaration pystr decl =
     (case require_id decl ''id'' of Inl e \<Rightarrow> Inl e
      | Inr provider_id \<Rightarrow>
     (case py_get_or decl ''credential_required'' (PyBool False) of
        PyBool required \<Rightarrow>
     (case registration_modes_of decl of Inl e \<Rightarrow> Inl e
      | Inr modes \<Rightarrow>
     (let scope = py_get decl ''credential_scope'' in
      case (if scope = PyNone then None else validate_id (pystr scope) ''credential_scope'') of
        Some e \<Rightarrow> Inl e
      | None \<Rightarrow>
     (case provider_options_of decl of Inl e \<Rightarrow> Inl e
      | Inr options \<Rightarrow>
          if credential_mismatch required scope modes then Inl (BadDecl ''credential_required'')
          else Inr \<lparr>pv_id = provider_id, pv_label = label_or pystr decl provider_id,
                    pv_required = required, pv_modes = modes,
                    pv_scope = (if py_truth scope then Some (pystr scope) else None),
                    pv_options = options\<rparr>)))
      | _ \<Rightarrow> Inl (BadDecl ''credential_required'')))"

section \<open>Sandbox packages\<close>

record sandbox_package =
  sp_harness :: string
  sp_manager :: string
  sp_package :: string
  sp_binary :: string
  sp_env_key :: string
  sp_range :: string

definition package_char :: "char \<Rightarrow> bool" where
  "package_char c \<longleftrightarrow> is_alnum c \<or> c = CHR ''.'' \<or> c = CHR ''_'' \<or> c = CHR ''-''"

text \<open>\<open>[a-z0-9][a-z0-9._-]*\<close>, and the same with an optional \<open>@scope/\<close> before it.\<close>

definition BINARY_PATTERN :: "string \<Rightarrow> bool" where
  "BINARY_PATTERN = first_then is_alnum package_char"

definition PACKAGE_PATTERN :: "string \<Rightarrow> bool" where
  "PACKAGE_PATTERN s \<longleftrightarrow> BINARY_PATTERN s
     \<or> (s \<noteq> [] \<and> hd s = CHR ''@''
        \<and> (let (scope, slash, name) = partition_at (CHR ''/'') (tl s)
           in slash \<and> BINARY_PATTERN scope \<and> BINARY_PATTERN name))"

definition ENV_KEY_PATTERN :: "string \<Rightarrow> bool" where
  "ENV_KEY_PATTERN = first_then is_upper (\<lambda>c. is_upper c \<or> is_digit c \<or> c = CHR ''_'')"

definition all_digits :: "string \<Rightarrow> bool" where
  "all_digits s \<longleftrightarrow> s \<noteq> [] \<and> list_all is_digit s"

text \<open>\<open>[~^]?\d+\.\d+\.\d+(-[a-zA-Z0-9.]+)?\<close>.\<close>

definition suffix_char :: "char \<Rightarrow> bool" where
  "suffix_char c \<longleftrightarrow> is_alnum c \<or> is_upper c \<or> c = CHR ''.''"

definition VERSION_PATTERN :: "string \<Rightarrow> bool" where
  "VERSION_PATTERN s \<longleftrightarrow>
     (let t = (if s \<noteq> [] \<and> (hd s = CHR ''~'' \<or> hd s = CHR ''^'') then tl s else s);
          (core, dash, suffix) = partition_at (CHR ''-'') t;
          (major, d1, rest) = partition_at (CHR ''.'') core;
          (minor, d2, patch) = partition_at (CHR ''.'') rest
      in d1 \<and> d2 \<and> all_digits major \<and> all_digits minor \<and> all_digits patch
         \<and> (\<not> dash \<or> (suffix \<noteq> [] \<and> list_all suffix_char suffix)))"

text \<open>\<open>_field\<close>: a non-empty string.\<close>

definition text_field :: "pyval \<Rightarrow> string \<Rightarrow> string option" where
  "text_field decl k = (case py_get decl k of PyStr s \<Rightarrow> if s = [] then None else Some s | _ \<Rightarrow> None)"

definition sandbox_from_declaration :: "pyval \<Rightarrow> string \<Rightarrow> decl_error + sandbox_package" where
  "sandbox_from_declaration decl harness =
     (if py_get_or decl ''manager'' (PyStr ''npm'') \<noteq> PyStr ''npm'' then Inl (BadDecl ''manager'')
      else case (text_field decl ''package'', text_field decl ''binary'',
                 text_field decl ''version_env_key'', text_field decl ''default_range'') of
        (Some package, Some binary, Some envkey, Some vrange) \<Rightarrow>
          if \<not> PACKAGE_PATTERN package then Inl (BadDecl ''package'')
          else if \<not> BINARY_PATTERN binary then Inl (BadDecl ''binary'')
          else if \<not> ENV_KEY_PATTERN envkey then Inl (BadDecl ''version_env_key'')
          else if \<not> VERSION_PATTERN vrange then Inl (BadDecl ''default_range'')
          else Inr \<lparr>sp_harness = harness, sp_manager = ''npm'', sp_package = package,
                    sp_binary = binary, sp_env_key = envkey, sp_range = vrange\<rparr>
      | _ \<Rightarrow> Inl (BadDecl ''sandbox_package''))"

section \<open>Descriptors\<close>

record descriptor =
  ds_id :: string
  ds_label :: string
  ds_providers :: "provider list"
  ds_default :: string
  ds_caps :: capabilities
  ds_sandbox :: "sandbox_package option"

fun parse_providers :: "(pyval \<Rightarrow> string) \<Rightarrow> pyval list \<Rightarrow> provider list \<Rightarrow> decl_error + provider list" where
  "parse_providers pystr [] acc = Inr acc"
| "parse_providers pystr (raw # rest) acc =
     (if \<not> is_py_dict raw then Inl (BadDecl ''providers'')
      else case provider_from_declaration pystr raw of
             Inl e \<Rightarrow> Inl e
           | Inr p \<Rightarrow> if pv_id p \<in> pv_id ` set acc then Inl (BadDecl ''providers'')
                      else parse_providers pystr rest (acc @ [p]))"

text \<open>Membership in a set of strings: a list or a dict is not hashable.\<close>

fun default_among :: "pyval \<Rightarrow> provider list \<Rightarrow> decl_error + string" where
  "default_among (PyStr s) ps = (if s \<in> pv_id ` set ps then Inr s else Inl (BadDecl ''default_provider''))"
| "default_among (PyList xs) ps = Inl DeclTypeError"
| "default_among (PyDict kvs) ps = Inl DeclTypeError"
| "default_among _ ps = Inl (BadDecl ''default_provider'')"

definition sandbox_of :: "pyval \<Rightarrow> string \<Rightarrow> decl_error + sandbox_package option" where
  "sandbox_of raw harness =
     (if raw = PyNone then Inr None
      else if \<not> is_py_dict raw then Inl (BadDecl ''sandbox_package'')
      else if py_truth raw then map_sum id Some (sandbox_from_declaration raw harness)
      else Inr None)"

definition descriptor_from_declaration :: "(pyval \<Rightarrow> string) \<Rightarrow> pyval \<Rightarrow> decl_error + descriptor" where
  "descriptor_from_declaration pystr decl =
     (case require_id decl ''id'' of Inl e \<Rightarrow> Inl e
      | Inr harness_id \<Rightarrow>
     (case py_get decl ''providers'' of
        PyList (x # xs) \<Rightarrow>
     (case parse_providers pystr (x # xs) [] of Inl e \<Rightarrow> Inl e
      | Inr providers \<Rightarrow>
     (let default = py_get decl ''default_provider'' in
      if \<not> py_truth default then Inl (BadDecl ''default_provider'')
      else case default_among default providers of Inl e \<Rightarrow> Inl e
      | Inr chosen \<Rightarrow>
          let raw = py_get decl ''sandbox_package'' in
          if raw \<noteq> PyNone \<and> \<not> is_py_dict raw then Inl (BadDecl ''sandbox_package'')
          else (case capabilities_from_declaration (py_get decl ''capabilities'') of Inl e \<Rightarrow> Inl e
                | Inr capa \<Rightarrow>
                    (case sandbox_of raw harness_id of Inl e \<Rightarrow> Inl e
                     | Inr sandbox \<Rightarrow>
                         Inr \<lparr>ds_id = harness_id, ds_label = label_or pystr decl harness_id,
                              ds_providers = providers, ds_default = chosen, ds_caps = capa,
                              ds_sandbox = sandbox\<rparr>))))
      | _ \<Rightarrow> Inl (BadDecl ''providers'')))"

definition find_provider :: "descriptor \<Rightarrow> string \<Rightarrow> provider option" where
  "find_provider ds p = find (\<lambda>x. pv_id x = p) (ds_providers ds)"

definition credential_scopes :: "descriptor \<Rightarrow> string list" where
  "credential_scopes ds =
     List.map_filter (\<lambda>p. if pv_required p \<and> truthy (pv_scope p) then pv_scope p else None) (ds_providers ds)"

section \<open>Declarations on disk\<close>

record harness_declaration =
  dc_module :: string
  dc_class :: string
  dc_descriptor :: descriptor
  dc_fields :: "string list"

fun text_items :: "pyval list \<Rightarrow> string list option" where
  "text_items [] = Some []"
| "text_items (PyStr s # vs) = (if s = [] then None else map_option ((#) s) (text_items vs))"
| "text_items (_ # vs) = None"

definition runtime_fields_of :: "pyval \<Rightarrow> decl_error + string list" where
  "runtime_fields_of decl =
     (case py_get_or decl ''runtime_config_fields'' (PyList []) of
        PyList vs \<Rightarrow> (case text_items vs of
                        Some fs \<Rightarrow> if distinct fs then Inr fs else Inl (BadDecl ''runtime_config_fields'')
                      | None \<Rightarrow> Inl (BadDecl ''runtime_config_fields''))
      | _ \<Rightarrow> Inl (BadDecl ''runtime_config_fields''))"

definition parse_declaration :: "(pyval \<Rightarrow> string) \<Rightarrow> string \<Rightarrow> pyval \<Rightarrow> decl_error + harness_declaration" where
  "parse_declaration pystr m decl =
     (if \<not> is_py_dict decl then Inl (BadDecl ''agent_harnesses'')
      else case text_field decl ''class'' of None \<Rightarrow> Inl (BadDecl ''class'')
      | Some class_path \<Rightarrow>
     (case descriptor_from_declaration pystr decl of Inl e \<Rightarrow> Inl e
      | Inr ds \<Rightarrow>
     (case runtime_fields_of decl of Inl e \<Rightarrow> Inl e
      | Inr fs \<Rightarrow> Inr \<lparr>dc_module = m, dc_class = class_path, dc_descriptor = ds, dc_fields = fs\<rparr>)))"

fun parse_declarations ::
    "(pyval \<Rightarrow> string) \<Rightarrow> string \<Rightarrow> pyval list \<Rightarrow> decl_error + harness_declaration list" where
  "parse_declarations pystr m [] = Inr []"
| "parse_declarations pystr m (decl # rest) =
     (case parse_declaration pystr m decl of Inl e \<Rightarrow> Inl e
      | Inr d \<Rightarrow> (case parse_declarations pystr m rest of Inl e \<Rightarrow> Inl e | Inr ds \<Rightarrow> Inr (d # ds)))"

definition parse_harness_declarations ::
    "(pyval \<Rightarrow> string) \<Rightarrow> string \<Rightarrow> json_file \<Rightarrow> decl_error + harness_declaration list" where
  "parse_harness_declarations pystr m file =
     (case file of
        NoFile \<Rightarrow> Inr []
      | BadJson \<Rightarrow> Inl (BadDecl ''di.json'')
      | IoFails \<Rightarrow> Inl (BadDecl ''di.json'')
      | Json data \<Rightarrow>
          if \<not> is_py_dict data then Inl DeclAttributeError
          else (case py_get_or data ''agent_harnesses'' (PyList []) of
                  PyList decls \<Rightarrow> parse_declarations pystr m decls
                | _ \<Rightarrow> Inl (BadDecl ''agent_harnesses'')))"

text \<open>The three indexes of \<open>enumerate_harness_declarations\<close>; a clash is a \<open>RuntimeError\<close>.\<close>

datatype enum_error =
    Malformed decl_error
  | DuplicateId string
  | DuplicateScope string
  | DuplicateEnvKey string

record enum_index =
  ix_ids :: "string list"
  ix_scopes :: "string list"
  ix_keys :: "string list"

fun index_scopes :: "string list \<Rightarrow> string list \<Rightarrow> enum_error + string list" where
  "index_scopes [] owned = Inr owned"
| "index_scopes (s # ss) owned =
     (if s \<in> set owned then Inl (DuplicateScope s) else index_scopes ss (s # owned))"

definition index_declaration :: "harness_declaration \<Rightarrow> enum_index \<Rightarrow> enum_error + enum_index" where
  "index_declaration d ix =
     (let ds = dc_descriptor d in
      if ds_id ds \<in> set (ix_ids ix) then Inl (DuplicateId (ds_id ds))
      else case index_scopes (credential_scopes ds) (ix_scopes ix) of
        Inl e \<Rightarrow> Inl e
      | Inr scopes \<Rightarrow>
          (let ix' = ix\<lparr>ix_ids := ds_id ds # ix_ids ix, ix_scopes := scopes\<rparr> in
           case ds_sandbox ds of
             None \<Rightarrow> Inr ix'
           | Some pkg \<Rightarrow>
               if sp_env_key pkg \<in> set (ix_keys ix) then Inl (DuplicateEnvKey (sp_env_key pkg))
               else Inr (ix'\<lparr>ix_keys := sp_env_key pkg # ix_keys ix\<rparr>)))"

fun index_all :: "harness_declaration list \<Rightarrow> enum_index \<Rightarrow> enum_error + enum_index" where
  "index_all [] ix = Inr ix"
| "index_all (d # ds) ix =
     (case index_declaration d ix of Inl e \<Rightarrow> Inl e | Inr ix' \<Rightarrow> index_all ds ix')"

fun enumerate_from ::
    "(pyval \<Rightarrow> string) \<Rightarrow> (string \<times> json_file) list \<Rightarrow> enum_index \<Rightarrow> enum_error + harness_declaration list" where
  "enumerate_from pystr [] ix = Inr []"
| "enumerate_from pystr ((m, file) # dirs) ix =
     (case parse_harness_declarations pystr m file of Inl e \<Rightarrow> Inl (Malformed e)
      | Inr decls \<Rightarrow>
          (case index_all decls ix of Inl e \<Rightarrow> Inl e
           | Inr ix' \<Rightarrow> (case enumerate_from pystr dirs ix' of Inl e \<Rightarrow> Inl e
                         | Inr rest \<Rightarrow> Inr (decls @ rest))))"

definition enumerate_harness_declarations ::
    "(pyval \<Rightarrow> string) \<Rightarrow> (string \<times> json_file) list \<Rightarrow> enum_error + harness_declaration list" where
  "enumerate_harness_declarations pystr dirs =
     enumerate_from pystr dirs \<lparr>ix_ids = [], ix_scopes = [], ix_keys = []\<rparr>"

definition enumerate_sandbox_packages ::
    "(pyval \<Rightarrow> string) \<Rightarrow> (string \<times> json_file) list \<Rightarrow> enum_error + sandbox_package list" where
  "enumerate_sandbox_packages pystr dirs =
     map_sum id (List.map_filter (\<lambda>d. ds_sandbox (dc_descriptor d))) (enumerate_harness_declarations pystr dirs)"

section \<open>The registry\<close>

text \<open>
  Of an adapter: its authenticators by scope, each with its optional \<open>account_label\<close> hook
  (\<open>None\<close> when the hook raises), and the paths of its workspace adapter.
\<close>

type_synonym authenticator = "(pyval \<Rightarrow> pyval option) option"

record adapter =
  ad_authenticators :: "(string \<times> authenticator) list"
  ad_owned :: "string list \<times> string list"
  ad_home :: "string list option"

record registered =
  rh_descriptor :: descriptor
  rh_adapter :: adapter
  rh_module :: string
  rh_fields :: "pyval list"

record harness_registry =
  hr_harnesses :: "(string \<times> registered) list"
  hr_owners :: "(string \<times> string) list"

datatype register_error =
    DuplicateHarness string
  | DuplicateCredentialScope string
  | AuthenticatorsMismatch
  | ObscureRuntimeConfig

definition clear_harnesses :: harness_registry where
  "clear_harnesses = \<lparr>hr_harnesses = [], hr_owners = []\<rparr>"

definition nonempty_text :: "pyval \<Rightarrow> bool" where
  "nonempty_text v \<longleftrightarrow> (case v of PyStr s \<Rightarrow> s \<noteq> [] | _ \<Rightarrow> False)"

text \<open>A field may be seen at command construction when its schema proves that it is no secret.\<close>

definition field_visible :: "(string \<times> pyval) list \<Rightarrow> pyval \<Rightarrow> bool" where
  "field_visible config v =
     (case v of
        PyStr f \<Rightarrow> (case map_of config f of
                     None \<Rightarrow> False
                   | Some schema \<Rightarrow> is_py_dict schema \<and> py_get schema ''type'' \<noteq> PyStr ''obscure'')
      | _ \<Rightarrow> False)"

definition scope_taken :: "harness_registry \<Rightarrow> string \<Rightarrow> string \<Rightarrow> bool" where
  "scope_taken reg harness s \<longleftrightarrow>
     (case map_of (hr_owners reg) s of None \<Rightarrow> False | Some owner \<Rightarrow> owner \<noteq> harness)"

definition register_harness ::
    "descriptor \<Rightarrow> adapter \<Rightarrow> string \<Rightarrow> pyval list \<Rightarrow> (string \<times> pyval) list \<Rightarrow> harness_registry
      \<Rightarrow> register_error + harness_registry" where
  "register_harness ds ad m fs config reg =
     (let scopes = credential_scopes ds in
      if ds_id ds \<in> fst ` set (hr_harnesses reg) then Inl (DuplicateHarness (ds_id ds))
      else if \<not> distinct scopes then Inl (DuplicateCredentialScope (ds_id ds))
      else case find (scope_taken reg (ds_id ds)) scopes of
        Some s \<Rightarrow> Inl (DuplicateCredentialScope s)
      | None \<Rightarrow>
          if set scopes \<noteq> fst ` set (ad_authenticators ad) then Inl AuthenticatorsMismatch
          else if \<not> list_all nonempty_text fs then Inl ObscureRuntimeConfig
          else if \<not> distinct fs then Inl ObscureRuntimeConfig
          else if \<not> list_all (field_visible config) fs then Inl ObscureRuntimeConfig
          else Inr \<lparr>hr_harnesses = hr_harnesses reg
                        @ [(ds_id ds, \<lparr>rh_descriptor = ds, rh_adapter = ad, rh_module = m, rh_fields = fs\<rparr>)],
                    hr_owners = dict_update (map (\<lambda>s. (s, ds_id ds)) scopes) (hr_owners reg)\<rparr>)"

definition find_harness :: "harness_registry \<Rightarrow> string \<Rightarrow> registered option" where
  "find_harness reg h = map_of (hr_harnesses reg) h"

datatype harness_error = UnknownHarness string | ProviderNotOffered string string

definition get_harness :: "harness_registry \<Rightarrow> string \<Rightarrow> harness_error + registered" where
  "get_harness reg h = (case find_harness reg h of None \<Rightarrow> Inl (UnknownHarness h) | Some r \<Rightarrow> Inr r)"

definition list_harnesses :: "harness_registry \<Rightarrow> registered list" where
  "list_harnesses reg = map snd (sort_key fst (hr_harnesses reg))"

definition list_descriptors :: "harness_registry \<Rightarrow> descriptor list" where
  "list_descriptors reg = map rh_descriptor (list_harnesses reg)"

definition resolve_provider :: "harness_registry \<Rightarrow> string \<Rightarrow> string \<Rightarrow> harness_error + provider" where
  "resolve_provider reg h p =
     (case get_harness reg h of Inl e \<Rightarrow> Inl e
      | Inr r \<Rightarrow> (case find_provider (rh_descriptor r) p of
                    None \<Rightarrow> Inl (ProviderNotOffered h p) | Some pv \<Rightarrow> Inr pv))"

definition resolve_credential_scope :: "harness_registry \<Rightarrow> string \<Rightarrow> string \<Rightarrow> harness_error + string option" where
  "resolve_credential_scope reg h p = map_sum id pv_scope (resolve_provider reg h p)"

definition list_credential_scopes :: "harness_registry \<Rightarrow> string list" where
  "list_credential_scopes reg = sort (map fst (hr_owners reg))"

definition get_harness_for_scope :: "harness_registry \<Rightarrow> string \<Rightarrow> registered option" where
  "get_harness_for_scope reg s = Option.bind (map_of (hr_owners reg) s) (find_harness reg)"

definition get_authenticator :: "harness_registry \<Rightarrow> string \<Rightarrow> authenticator option" where
  "get_authenticator reg s =
     Option.bind (get_harness_for_scope reg s) (\<lambda>r. map_of (ad_authenticators (rh_adapter r)) s)"

definition account_label_for_scope :: "harness_registry \<Rightarrow> string \<Rightarrow> pyval \<Rightarrow> string option" where
  "account_label_for_scope reg s credentials =
     (if \<not> py_truth credentials then None
      else case get_authenticator reg s of
        Some (Some extractor) \<Rightarrow>
          (case extractor credentials of
             Some (PyStr label) \<Rightarrow> if strip label = [] then None else Some label
           | _ \<Rightarrow> None)
      | _ \<Rightarrow> None)"

definition owned_paths_for :: "harness_registry \<Rightarrow> string \<Rightarrow> harness_error + (string list \<times> string list)" where
  "owned_paths_for reg h = map_sum id (\<lambda>r. ad_owned (rh_adapter r)) (get_harness reg h)"

definition persistent_home_paths_for :: "harness_registry \<Rightarrow> string \<Rightarrow> harness_error + string list" where
  "persistent_home_paths_for reg h =
     map_sum id (\<lambda>r. sort (remdups (filter (\<lambda>p. p \<noteq> [])
       (case ad_home (rh_adapter r) of None \<Rightarrow> [] | Some ps \<Rightarrow> ps)))) (get_harness reg h)"

section \<open>Facts about declarations\<close>

lemma validate_id_None: "validate_id v w = None \<longleftrightarrow> ID_PATTERN v \<and> length v \<le> ID_MAX_LENGTH"
  by (auto simp: validate_id_def)

lemma require_id_valid: "require_id decl k = Inr s \<Longrightarrow> ID_PATTERN s \<and> length s \<le> ID_MAX_LENGTH"
  by (auto simp: require_id_def validate_id_None split: pyval.splits if_splits option.splits)

lemma parse_modes_distinct: "parse_modes raws acc = Inr ms \<Longrightarrow> distinct acc \<Longrightarrow> distinct ms"
  by (induction raws acc rule: parse_modes.induct) (auto split: option.splits if_splits)

text \<open>A provider requires a credential exactly when it has a scope and a way to get one.\<close>

definition provider_ok :: "provider \<Rightarrow> bool" where
  "provider_ok p \<longleftrightarrow> ID_PATTERN (pv_id p) \<and> distinct (pv_modes p)
     \<and> pv_required p = (pv_scope p \<noteq> None) \<and> pv_required p = (pv_modes p \<noteq> [])
     \<and> (case pv_scope p of None \<Rightarrow> True | Some s \<Rightarrow> ID_PATTERN s \<and> length s \<le> ID_MAX_LENGTH)"

lemma provider_from_declaration_ok:
  assumes "provider_from_declaration pystr decl = Inr p"
  shows "provider_ok p"
proof -
  have modes: "registration_modes_of decl = Inr ms \<Longrightarrow> distinct ms" for ms
    by (auto simp: registration_modes_of_def Let_def dest!: parse_modes_distinct split: pyval.splits if_splits)
  show ?thesis
    using assms unfolding provider_from_declaration_def
    by (auto simp: provider_ok_def Let_def credential_mismatch_def validate_id_None
        dest: require_id_valid modes split: sum.splits pyval.splits option.splits if_splits)
qed

lemma parse_providers_ok:
  "parse_providers pystr raws acc = Inr ps \<Longrightarrow> distinct (map pv_id acc) \<Longrightarrow> list_all provider_ok acc
    \<Longrightarrow> distinct (map pv_id ps) \<and> list_all provider_ok ps \<and> length ps = length acc + length raws"
proof (induction pystr raws acc rule: parse_providers.induct)
  case (2 pystr raw rest acc)
  then show ?case
    by (auto dest: provider_from_declaration_ok split: sum.splits if_splits)
qed simp

lemma default_among_in: "default_among v ps = Inr d \<Longrightarrow> d \<in> pv_id ` set ps"
  by (cases v) (auto split: if_splits)

text \<open>The characters a Dockerfile may get from a declaration: none of them is special to a shell.\<close>

definition image_char :: "char \<Rightarrow> bool" where
  "image_char c \<longleftrightarrow> is_alnum c \<or> is_upper c \<or> c \<in> set ''@/._-~^''"

lemma first_then_chars:
  "first_then p q s \<Longrightarrow> (\<And>c. p c \<Longrightarrow> r c) \<Longrightarrow> (\<And>c. q c \<Longrightarrow> r c) \<Longrightarrow> list_all r s"
  by (cases s) (auto simp: first_then_def list_all_iff)

lemma package_char_image: "package_char c \<Longrightarrow> image_char c"
  by (auto simp: package_char_def image_char_def)

lemma alnum_image: "is_alnum c \<Longrightarrow> image_char c"
  by (simp add: image_char_def)

lemma binary_chars: "BINARY_PATTERN s \<Longrightarrow> list_all image_char s"
  unfolding BINARY_PATTERN_def by (erule first_then_chars) (auto intro: alnum_image package_char_image)

lemma partition_at_chars:
  "partition_at c s = (a, sep, b) \<Longrightarrow> list_all p a \<Longrightarrow> list_all p b \<Longrightarrow> (sep \<Longrightarrow> p c) \<Longrightarrow> list_all p s"
proof -
  assume h: "partition_at c s = (a, sep, b)" "list_all p a" "list_all p b" "sep \<Longrightarrow> p c"
  have "s = takeWhile (\<lambda>x. x \<noteq> c) s @ dropWhile (\<lambda>x. x \<noteq> c) s" by simp
  moreover have "list_all p (dropWhile (\<lambda>x. x \<noteq> c) s)"
  proof (cases "dropWhile (\<lambda>x. x \<noteq> c) s")
    case (Cons x xs)
    then have "x = c" using hd_dropWhile [of "\<lambda>x. x \<noteq> c" s] by simp
    moreover have "c \<in> set s" using Cons \<open>x = c\<close> by (metis list.set_intros(1) set_dropWhileD)
    ultimately show ?thesis using h Cons by (auto simp: partition_at_def)
  next
    case Nil
    show ?thesis unfolding Nil by simp
  qed
  ultimately show ?thesis using h by (metis list_all_append partition_at_def prod.inject)
qed

lemma package_chars: "PACKAGE_PATTERN s \<Longrightarrow> list_all image_char s"
  unfolding PACKAGE_PATTERN_def
proof (elim disjE)
  assume h: "s \<noteq> [] \<and> hd s = CHR ''@'' \<and> (let (scope, slash, name) = partition_at (CHR ''/'') (tl s)
      in slash \<and> BINARY_PATTERN scope \<and> BINARY_PATTERN name)"
  have at: "image_char (CHR ''@'')" "image_char (CHR ''/'')" by (simp_all add: image_char_def)
  obtain scope slash name where p: "partition_at (CHR ''/'') (tl s) = (scope, slash, name)"
    by (rule prod_cases3)
  then have "list_all image_char scope" "list_all image_char name" using h by (auto intro: binary_chars)
  then have "list_all image_char (tl s)" using partition_at_chars [OF p] at by blast
  then show ?thesis using h at by (cases s) auto
qed (rule binary_chars)

lemma digit_image: "is_digit c \<Longrightarrow> image_char c"
  by (simp add: image_char_def is_alnum_def)

lemma version_chars: assumes "VERSION_PATTERN s" shows "list_all image_char s"
proof -
  define t where "t = (if s \<noteq> [] \<and> (hd s = CHR ''~'' \<or> hd s = CHR ''^'') then tl s else s)"
  obtain core dash suffix where c: "partition_at (CHR ''-'') t = (core, dash, suffix)" by (rule prod_cases3)
  obtain major d1 rest where m: "partition_at (CHR ''.'') core = (major, d1, rest)" by (rule prod_cases3)
  obtain minor d2 patch where n: "partition_at (CHR ''.'') rest = (minor, d2, patch)" by (rule prod_cases3)
  have h: "all_digits major" "all_digits minor" "all_digits patch" "\<not> dash \<or> list_all suffix_char suffix"
    using assms c m n unfolding VERSION_PATTERN_def Let_def t_def [symmetric] by auto
  have dot: "image_char (CHR ''.'')" "image_char (CHR ''-'')" "image_char (CHR ''~'')" "image_char (CHR ''^'')"
    by (simp_all add: image_char_def)
  have digits: "all_digits w \<Longrightarrow> list_all image_char w" for w
    by (auto simp: all_digits_def list_all_iff digit_image)
  have "list_all image_char rest" using partition_at_chars [OF n digits digits] h dot by blast
  then have "list_all image_char core" using partition_at_chars [OF m digits] h dot by blast
  moreover have "list_all image_char suffix"
  proof (cases dash)
    case True
    with h(4) show ?thesis by (auto simp: list_all_iff suffix_char_def image_char_def)
  next
    case False
    with c have "CHR ''-'' \<notin> set t" by (auto simp: partition_at_def)
    then have "dropWhile (\<lambda>x. x \<noteq> CHR ''-'') t = []" by (auto simp: dropWhile_eq_Nil_conv)
    with c show ?thesis by (auto simp: partition_at_def)
  qed
  ultimately have "list_all image_char t" using partition_at_chars [OF c] dot by blast
  then show ?thesis unfolding t_def using dot by (cases s) (auto split: if_splits)
qed

lemma env_key_chars: "ENV_KEY_PATTERN s \<Longrightarrow> list_all image_char s"
  unfolding ENV_KEY_PATTERN_def
  by (erule first_then_chars) (auto simp: image_char_def is_alnum_def)

definition sandbox_ok :: "sandbox_package \<Rightarrow> bool" where
  "sandbox_ok pkg \<longleftrightarrow> sp_manager pkg = ''npm'' \<and> list_all image_char (sp_package pkg)
     \<and> list_all image_char (sp_binary pkg) \<and> list_all image_char (sp_env_key pkg)
     \<and> list_all image_char (sp_range pkg)"

lemma sandbox_from_declaration_ok: "sandbox_from_declaration decl h = Inr pkg \<Longrightarrow> sandbox_ok pkg"
  unfolding sandbox_from_declaration_def
  by (auto simp: sandbox_ok_def package_chars binary_chars version_chars env_key_chars
      split: option.splits if_splits)

definition descriptor_ok :: "descriptor \<Rightarrow> bool" where
  "descriptor_ok ds \<longleftrightarrow> ID_PATTERN (ds_id ds) \<and> distinct (map pv_id (ds_providers ds))
     \<and> list_all provider_ok (ds_providers ds) \<and> ds_default ds \<in> pv_id ` set (ds_providers ds)
     \<and> (case ds_sandbox ds of None \<Rightarrow> True | Some pkg \<Rightarrow> sandbox_ok pkg)"

lemma descriptor_from_declaration_ok:
  assumes "descriptor_from_declaration pystr decl = Inr ds"
  shows "descriptor_ok ds"
proof -
  have sb: "sandbox_of raw h = Inr (Some pkg) \<Longrightarrow> sandbox_ok pkg" for raw h pkg
    by (auto simp: sandbox_of_def map_sum_def split: if_splits sum.splits dest: sandbox_from_declaration_ok)
  have ps: "parse_providers pystr xs [] = Inr ps \<Longrightarrow> distinct (map pv_id ps) \<and> list_all provider_ok ps" for xs ps
    using parse_providers_ok [of pystr xs "[]" ps] by simp
  show ?thesis
    using assms unfolding descriptor_from_declaration_def
    by (auto simp: descriptor_ok_def Let_def simp del: parse_providers.simps
        dest: require_id_valid ps default_among_in sb
        split: sum.splits pyval.splits list.splits if_splits option.splits)
qed

section \<open>Facts about the registry\<close>

text \<open>
  One entry per harness id, one owner per scope; the owner of a scope is the harness that
  declares it, and its adapter has the authenticator. No allow-listed field is a secret.
\<close>

definition entry_ok :: "string \<times> registered \<Rightarrow> bool" where
  "entry_ok e \<longleftrightarrow> (let (h, r) = e in
     ds_id (rh_descriptor r) = h \<and> distinct (credential_scopes (rh_descriptor r))
     \<and> fst ` set (ad_authenticators (rh_adapter r)) = set (credential_scopes (rh_descriptor r)))"

definition harness_registry_ok :: "harness_registry \<Rightarrow> bool" where
  "harness_registry_ok reg \<longleftrightarrow> distinct (map fst (hr_harnesses reg)) \<and> list_all entry_ok (hr_harnesses reg)
     \<and> distinct (map fst (hr_owners reg))
     \<and> (\<forall>s h. map_of (hr_owners reg) s = Some h \<longleftrightarrow>
          (\<exists>r. find_harness reg h = Some r \<and> s \<in> set (credential_scopes (rh_descriptor r))))"

lemma clear_harnesses_ok: "harness_registry_ok clear_harnesses"
  by (simp add: harness_registry_ok_def clear_harnesses_def find_harness_def)

lemma owners_lookup:
  "map_of (dict_update (map (\<lambda>s. (s, h)) ss) xs) s = (if s \<in> set ss then Some h else map_of xs s)"
proof (induction ss arbitrary: xs)
  case (Cons a ss)
  then show ?case by (simp add: dict_update_def map_of_dict_put)
qed (simp add: dict_update_def)

lemma register_harness_Inr:
  assumes "register_harness ds ad m fs config reg = Inr reg'"
  shows "ds_id ds \<notin> fst ` set (hr_harnesses reg)" "distinct (credential_scopes ds)"
    "s \<in> set (credential_scopes ds) \<Longrightarrow> map_of (hr_owners reg) s \<in> {None, Some (ds_id ds)}"
    "fst ` set (ad_authenticators ad) = set (credential_scopes ds)"
    "list_all (field_visible config) fs"
    "reg' = \<lparr>hr_harnesses = hr_harnesses reg
                 @ [(ds_id ds, \<lparr>rh_descriptor = ds, rh_adapter = ad, rh_module = m, rh_fields = fs\<rparr>)],
              hr_owners = dict_update (map (\<lambda>s. (s, ds_id ds)) (credential_scopes ds)) (hr_owners reg)\<rparr>"
proof -
  show "s \<in> set (credential_scopes ds) \<Longrightarrow> map_of (hr_owners reg) s \<in> {None, Some (ds_id ds)}"
    using assms
    by (auto simp: register_harness_def Let_def find_None_iff scope_taken_def split: if_splits option.splits)
qed (use assms in \<open>auto simp: register_harness_def Let_def split: if_splits option.splits\<close>)

lemma register_harness_ok:
  assumes "harness_registry_ok reg" and "register_harness ds ad m fs config reg = Inr reg'"
  shows "harness_registry_ok reg'"
proof -
  let ?h = "ds_id ds"
  let ?r = "\<lparr>rh_descriptor = ds, rh_adapter = ad, rh_module = m, rh_fields = fs\<rparr>"
  note i = register_harness_Inr [OF assms(2)]
  have fresh: "find_harness reg ?h = None"
    using i(1) by (simp add: find_harness_def map_of_eq_None_iff)
  have find': "find_harness reg' h = (if h = ?h then Some ?r else find_harness reg h)" for h
    using fresh by (auto simp: find_harness_def i(6) map_of_append map_add_def split: option.splits)
  have owner: "map_of (hr_owners reg) s = Some h \<longleftrightarrow>
      (\<exists>r. find_harness reg h = Some r \<and> s \<in> set (credential_scopes (rh_descriptor r)))" for s h
    using assms(1) by (simp add: harness_registry_ok_def)
  have free: "s \<in> set (credential_scopes ds) \<Longrightarrow> map_of (hr_owners reg) s = None" for s
    using i(3) [of s] owner [of s ?h] fresh by auto
  have "map_of (hr_owners reg') s = Some h \<longleftrightarrow>
      (\<exists>r. find_harness reg' h = Some r \<and> s \<in> set (credential_scopes (rh_descriptor r)))" for s h
  proof -
    have new: "map_of (hr_owners reg') s
        = (if s \<in> set (credential_scopes ds) then Some ?h else map_of (hr_owners reg) s)"
      by (simp add: i(6) owners_lookup)
    show ?thesis unfolding new find' using owner [of s h] free [of s] fresh by auto
  qed
  moreover have "distinct (map fst (hr_harnesses reg'))" "distinct (map fst (hr_owners reg'))"
    "list_all entry_ok (hr_harnesses reg')"
    using assms(1) i(1,2,4) by (auto simp: harness_registry_ok_def i(6) entry_ok_def dict_update_distinct)
  ultimately show ?thesis by (simp add: harness_registry_ok_def)
qed

section \<open>Loading\<close>

text \<open>
  \<open>load_harnesses\<close> (\<open>harness/loader.py\<close>): \<open>adapter_of\<close> is the import and the construction of the
  declared class, \<open>None\<close> when it fails or is no adapter. A collision and a bad allow-list end the
  bootstrap; the other errors of one harness skip it.
\<close>

datatype load_error = LoadMalformed decl_error | LoadFatal register_error

record loaded_module =
  lo_name :: string
  lo_di :: json_file
  lo_config :: "(string \<times> pyval) list"

fun load_declarations ::
    "(harness_declaration \<Rightarrow> adapter option) \<Rightarrow> (string \<times> pyval) list \<Rightarrow> harness_declaration list
      \<Rightarrow> harness_registry \<Rightarrow> load_error + harness_registry" where
  "load_declarations adapter_of config [] reg = Inr reg"
| "load_declarations adapter_of config (d # ds) reg =
     (case adapter_of d of
        None \<Rightarrow> load_declarations adapter_of config ds reg
      | Some ad \<Rightarrow>
          (case register_harness (dc_descriptor d) ad (dc_module d) (map PyStr (dc_fields d)) config reg of
             Inl AuthenticatorsMismatch \<Rightarrow> load_declarations adapter_of config ds reg
           | Inl e \<Rightarrow> Inl (LoadFatal e)
           | Inr reg' \<Rightarrow> load_declarations adapter_of config ds reg'))"

fun load_harnesses ::
    "(pyval \<Rightarrow> string) \<Rightarrow> (harness_declaration \<Rightarrow> adapter option) \<Rightarrow> loaded_module list
      \<Rightarrow> harness_registry \<Rightarrow> load_error + harness_registry" where
  "load_harnesses pystr adapter_of [] reg = Inr reg"
| "load_harnesses pystr adapter_of (m # ms) reg =
     (case parse_harness_declarations pystr (lo_name m) (lo_di m) of
        Inl e \<Rightarrow> Inl (LoadMalformed e)
      | Inr decls \<Rightarrow>
          (case load_declarations adapter_of (lo_config m) decls reg of
             Inl e \<Rightarrow> Inl e
           | Inr reg' \<Rightarrow> load_harnesses pystr adapter_of ms reg'))"

lemma load_declarations_ok:
  "load_declarations adapter_of config ds reg = Inr reg' \<Longrightarrow> harness_registry_ok reg \<Longrightarrow> harness_registry_ok reg'"
  by (induction ds arbitrary: reg)
    (auto dest: register_harness_ok split: sum.splits option.splits register_error.splits)

lemma load_harnesses_ok:
  "load_harnesses pystr adapter_of ms reg = Inr reg' \<Longrightarrow> harness_registry_ok reg \<Longrightarrow> harness_registry_ok reg'"
  by (induction ms arbitrary: reg) (auto dest: load_declarations_ok split: sum.splits)

text \<open>What \<open>module:validate\<close> accepts boots: the declarations have no id and no scope in common.\<close>

definition decl_ids :: "harness_declaration list \<Rightarrow> string list" where
  "decl_ids ds = map (\<lambda>d. ds_id (dc_descriptor d)) ds"

definition decl_scopes :: "harness_declaration list \<Rightarrow> string list" where
  "decl_scopes ds = concat (map (\<lambda>d. credential_scopes (dc_descriptor d)) ds)"

lemma decl_ids_simps [simp]:
  "decl_ids [] = []" "decl_ids (d # ds) = ds_id (dc_descriptor d) # decl_ids ds"
  "decl_ids (xs @ ys) = decl_ids xs @ decl_ids ys"
  by (simp_all add: decl_ids_def)

lemma decl_scopes_simps [simp]:
  "decl_scopes [] = []" "decl_scopes (d # ds) = credential_scopes (dc_descriptor d) @ decl_scopes ds"
  "decl_scopes (xs @ ys) = decl_scopes xs @ decl_scopes ys"
  by (simp_all add: decl_scopes_def)

lemma index_scopes_Inr:
  "index_scopes ss owned = Inr owned' \<Longrightarrow>
     distinct ss \<and> set ss \<inter> set owned = {} \<and> set owned' = set ss \<union> set owned"
  by (induction ss arbitrary: owned) (fastforce split: if_splits)+

lemma index_declaration_Inr:
  assumes "index_declaration d ix = Inr ix'"
  shows "ds_id (dc_descriptor d) \<notin> set (ix_ids ix)"
    "distinct (credential_scopes (dc_descriptor d))"
    "set (credential_scopes (dc_descriptor d)) \<inter> set (ix_scopes ix) = {}"
    "set (ix_ids ix') = insert (ds_id (dc_descriptor d)) (set (ix_ids ix))"
    "set (ix_scopes ix') = set (credential_scopes (dc_descriptor d)) \<union> set (ix_scopes ix)"
  using assms
  by (auto simp: index_declaration_def Let_def dest!: index_scopes_Inr
      split: sum.splits if_splits option.splits)

lemma index_all_Inr:
  assumes "index_all ds ix = Inr ix'"
  shows "distinct (decl_ids ds) \<and> set (decl_ids ds) \<inter> set (ix_ids ix) = {}
    \<and> distinct (decl_scopes ds) \<and> set (decl_scopes ds) \<inter> set (ix_scopes ix) = {}
    \<and> set (ix_ids ix') = set (decl_ids ds) \<union> set (ix_ids ix)
    \<and> set (ix_scopes ix') = set (decl_scopes ds) \<union> set (ix_scopes ix)"
  using assms
proof (induction ds arbitrary: ix)
  case (Cons d ds)
  then obtain ix1 where s: "index_declaration d ix = Inr ix1" "index_all ds ix1 = Inr ix'"
    by (auto split: sum.splits)
  show ?case using Cons.IH [OF s(2)] index_declaration_Inr [OF s(1)] by auto
qed simp

definition fields_ok :: "harness_declaration \<Rightarrow> bool" where
  "fields_ok d \<longleftrightarrow> distinct (dc_fields d) \<and> [] \<notin> set (dc_fields d)"

lemma text_items_Some: "text_items vs = Some fs \<Longrightarrow> [] \<notin> set fs"
  by (induction vs arbitrary: fs rule: text_items.induct) (auto split: if_splits)

lemma parse_declaration_fields: "parse_declaration pystr m decl = Inr d \<Longrightarrow> fields_ok d"
  by (auto simp: parse_declaration_def runtime_fields_of_def fields_ok_def dest: text_items_Some
      split: if_splits option.splits sum.splits pyval.splits)

lemma parse_declarations_fields: "parse_declarations pystr m decls = Inr ds \<Longrightarrow> list_all fields_ok ds"
  by (induction decls arbitrary: ds) (auto dest: parse_declaration_fields split: sum.splits)

lemma parse_file_fields: "parse_harness_declarations pystr m file = Inr ds \<Longrightarrow> list_all fields_ok ds"
  by (auto simp: parse_harness_declarations_def dest: parse_declarations_fields
      split: json_file.splits if_splits pyval.splits)

text \<open>What the directories declare, where every file is well formed.\<close>

definition file_decls :: "(pyval \<Rightarrow> string) \<Rightarrow> string \<times> json_file \<Rightarrow> harness_declaration list" where
  "file_decls pystr mf =
     (case parse_harness_declarations pystr (fst mf) (snd mf) of Inl e \<Rightarrow> [] | Inr ds \<Rightarrow> ds)"

definition well_formed :: "(pyval \<Rightarrow> string) \<Rightarrow> string \<times> json_file \<Rightarrow> bool" where
  "well_formed pystr mf \<longleftrightarrow>
     (case parse_harness_declarations pystr (fst mf) (snd mf) of Inl e \<Rightarrow> False | Inr ds \<Rightarrow> True)"

lemma enumerate_from_Inr:
  assumes "enumerate_from pystr dirs ix = Inr ds"
  shows "ds = concat (map (file_decls pystr) dirs) \<and> list_all (well_formed pystr) dirs
    \<and> distinct (decl_ids ds) \<and> set (decl_ids ds) \<inter> set (ix_ids ix) = {}
    \<and> distinct (decl_scopes ds) \<and> set (decl_scopes ds) \<inter> set (ix_scopes ix) = {}"
  using assms
proof (induction dirs arbitrary: ix ds)
  case (Cons mf dirs)
  obtain m f where mf: "mf = (m, f)" by (cases mf)
  with Cons.prems obtain decls ix1 rest
    where s: "parse_harness_declarations pystr m f = Inr decls" "index_all decls ix = Inr ix1"
      "enumerate_from pystr dirs ix1 = Inr rest" "ds = decls @ rest"
    by (auto split: sum.splits)
  from Cons.IH [OF s(3)] index_all_Inr [OF s(2)] s(1,4) mf show ?case
    by (auto simp: file_decls_def well_formed_def)
qed simp

lemma file_decls_fields: "list_all fields_ok (file_decls pystr mf)"
  by (auto simp: file_decls_def dest: parse_file_fields split: sum.splits)

text \<open>A harness is loaded when its class gives an adapter with its authenticators.\<close>

definition loads :: "(harness_declaration \<Rightarrow> adapter option) \<Rightarrow> harness_declaration \<Rightarrow> bool" where
  "loads adapter_of d \<longleftrightarrow>
     (case adapter_of d of None \<Rightarrow> False
      | Some ad \<Rightarrow> fst ` set (ad_authenticators ad) = set (credential_scopes (dc_descriptor d)))"

definition fields_visible :: "(string \<times> pyval) list \<Rightarrow> harness_declaration \<Rightarrow> bool" where
  "fields_visible config d \<longleftrightarrow> list_all (field_visible config) (map PyStr (dc_fields d))"

lemma register_declared:
  assumes "ds_id ds \<notin> fst ` set (hr_harnesses reg)"
    and "distinct (credential_scopes ds)" "set (credential_scopes ds) \<inter> fst ` set (hr_owners reg) = {}"
    and "distinct fs" "[] \<notin> set fs" "list_all (field_visible config) (map PyStr fs)"
  shows "fst ` set (ad_authenticators ad) \<noteq> set (credential_scopes ds)
      \<Longrightarrow> register_harness ds ad m (map PyStr fs) config reg = Inl AuthenticatorsMismatch"
    "fst ` set (ad_authenticators ad) = set (credential_scopes ds)
      \<Longrightarrow> \<exists>reg'. register_harness ds ad m (map PyStr fs) config reg = Inr reg'
        \<and> fst ` set (hr_harnesses reg') = insert (ds_id ds) (fst ` set (hr_harnesses reg))
        \<and> fst ` set (hr_owners reg') = set (credential_scopes ds) \<union> fst ` set (hr_owners reg)"
proof -
  have "s \<in> set (credential_scopes ds) \<Longrightarrow> map_of (hr_owners reg) s = None" for s
    using assms(3) by (auto simp: map_of_eq_None_iff)
  then have free: "find (scope_taken reg (ds_id ds)) (credential_scopes ds) = None"
    by (auto simp: find_None_iff scope_taken_def)
  have inj: "distinct (map PyStr fs)" using assms(4) by (simp add: distinct_map inj_on_def)
  have nonempty: "list_all nonempty_text (map PyStr fs)"
    using assms(5) by (auto simp: list_all_iff nonempty_text_def)
  have keys: "fst ` set (dict_update (map (\<lambda>s. (s, h)) ss) xs) = set ss \<union> fst ` set xs" for ss h and xs :: "(string \<times> string) list"
    unfolding dict_update_def by (induction ss arbitrary: xs) (auto simp: dict_put_keys)
  show "fst ` set (ad_authenticators ad) \<noteq> set (credential_scopes ds)
      \<Longrightarrow> register_harness ds ad m (map PyStr fs) config reg = Inl AuthenticatorsMismatch"
    using assms(1,2) free by (simp add: register_harness_def Let_def eq_commute [of "set (credential_scopes ds)"])
  show "fst ` set (ad_authenticators ad) = set (credential_scopes ds)
      \<Longrightarrow> \<exists>reg'. register_harness ds ad m (map PyStr fs) config reg = Inr reg'
        \<and> fst ` set (hr_harnesses reg') = insert (ds_id ds) (fst ` set (hr_harnesses reg))
        \<and> fst ` set (hr_owners reg') = set (credential_scopes ds) \<union> fst ` set (hr_owners reg)"
    using assms(1,2,6) free inj nonempty by (auto simp: register_harness_def Let_def keys)
qed

lemma load_declarations_total:
  assumes "distinct (decl_ids ds)" "set (decl_ids ds) \<inter> fst ` set (hr_harnesses reg) = {}"
    and "distinct (decl_scopes ds)" "set (decl_scopes ds) \<inter> fst ` set (hr_owners reg) = {}"
    and "list_all fields_ok ds" "list_all (fields_visible config) ds"
  shows "\<exists>reg'. load_declarations adapter_of config ds reg = Inr reg'
    \<and> fst ` set (hr_harnesses reg')
        = set (decl_ids (filter (loads adapter_of) ds)) \<union> fst ` set (hr_harnesses reg)
    \<and> fst ` set (hr_owners reg') \<subseteq> set (decl_scopes ds) \<union> fst ` set (hr_owners reg)"
  using assms
proof (induction ds arbitrary: reg)
  case (Cons d ds)
  have d: "ds_id (dc_descriptor d) \<notin> fst ` set (hr_harnesses reg)"
    "distinct (credential_scopes (dc_descriptor d))"
    "set (credential_scopes (dc_descriptor d)) \<inter> fst ` set (hr_owners reg) = {}"
    "distinct (dc_fields d)" "[] \<notin> set (dc_fields d)"
    "list_all (field_visible config) (map PyStr (dc_fields d))"
    using Cons.prems by (auto simp: fields_ok_def fields_visible_def)
  have rest: "distinct (decl_ids ds)" "distinct (decl_scopes ds)" "list_all fields_ok ds"
    "list_all (fields_visible config) ds" "set (decl_ids ds) \<inter> fst ` set (hr_harnesses reg) = {}"
    "set (decl_scopes ds) \<inter> fst ` set (hr_owners reg) = {}"
    using Cons.prems by auto
  show ?case
  proof (cases "loads adapter_of d")
    case False
    have eq: "load_declarations adapter_of config (d # ds) reg = load_declarations adapter_of config ds reg"
    proof (cases "adapter_of d")
      case (Some ad)
      with False have "fst ` set (ad_authenticators ad) \<noteq> set (credential_scopes (dc_descriptor d))"
        by (simp add: loads_def)
      from register_declared(1) [OF d this] Some show ?thesis by simp
    qed simp
    obtain reg' where r: "load_declarations adapter_of config ds reg = Inr reg'"
      "fst ` set (hr_harnesses reg') = set (decl_ids (filter (loads adapter_of) ds)) \<union> fst ` set (hr_harnesses reg)"
      "fst ` set (hr_owners reg') \<subseteq> set (decl_scopes ds) \<union> fst ` set (hr_owners reg)"
      using Cons.IH [OF rest(1,5,2,6,3,4)] by blast
    have "fst ` set (hr_owners reg') \<subseteq> set (decl_scopes (d # ds)) \<union> fst ` set (hr_owners reg)"
      unfolding decl_scopes_simps set_append using r(3) by blast
    moreover have "filter (loads adapter_of) (d # ds) = filter (loads adapter_of) ds" using False by simp
    ultimately show ?thesis using r(2) trans [OF eq r(1)] by (metis (no_types, lifting))
  next
    case True
    then obtain ad where ad: "adapter_of d = Some ad"
      "fst ` set (ad_authenticators ad) = set (credential_scopes (dc_descriptor d))"
      by (auto simp: loads_def split: option.splits)
    obtain reg1 where r: "register_harness (dc_descriptor d) ad (dc_module d) (map PyStr (dc_fields d)) config reg = Inr reg1"
      "fst ` set (hr_harnesses reg1) = insert (ds_id (dc_descriptor d)) (fst ` set (hr_harnesses reg))"
      "fst ` set (hr_owners reg1) = set (credential_scopes (dc_descriptor d)) \<union> fst ` set (hr_owners reg)"
      using register_declared(2) [OF d ad(2), of "dc_module d"] by (elim exE conjE) (rule that)
    have disj: "set (decl_ids ds) \<inter> fst ` set (hr_harnesses reg1) = {}"
      "set (decl_scopes ds) \<inter> fst ` set (hr_owners reg1) = {}"
      using Cons.prems r(2,3) by auto
    have eq: "load_declarations adapter_of config (d # ds) reg = load_declarations adapter_of config ds reg1"
      using ad(1) r(1) by simp
    obtain reg' where r': "load_declarations adapter_of config ds reg1 = Inr reg'"
      "fst ` set (hr_harnesses reg') = set (decl_ids (filter (loads adapter_of) ds)) \<union> fst ` set (hr_harnesses reg1)"
      "fst ` set (hr_owners reg') \<subseteq> set (decl_scopes ds) \<union> fst ` set (hr_owners reg1)"
      using Cons.IH [OF rest(1) disj(1) rest(2) disj(2) rest(3,4)] by blast
    have "fst ` set (hr_owners reg') \<subseteq> set (decl_scopes (d # ds)) \<union> fst ` set (hr_owners reg)"
      unfolding decl_scopes_simps set_append using r'(3) unfolding r(3) by blast
    moreover have "fst ` set (hr_harnesses reg')
        = set (decl_ids (filter (loads adapter_of) (d # ds))) \<union> fst ` set (hr_harnesses reg)"
      unfolding r'(2) r(2) using True by simp
    ultimately show ?thesis using trans [OF eq r'(1)] by blast
  qed
qed simp

lemma disjoint_mono: "A \<inter> B = {} \<Longrightarrow> A \<inter> C = {} \<Longrightarrow> X \<subseteq> B \<union> C \<Longrightarrow> A \<inter> X = {}"
  by blast

lemma load_harnesses_total:
  assumes "list_all (well_formed pystr) (map (\<lambda>m. (lo_name m, lo_di m)) ms)"
    and "ds = concat (map (\<lambda>m. file_decls pystr (lo_name m, lo_di m)) ms)"
    and "distinct (decl_ids ds)" "set (decl_ids ds) \<inter> fst ` set (hr_harnesses reg) = {}"
    and "distinct (decl_scopes ds)" "set (decl_scopes ds) \<inter> fst ` set (hr_owners reg) = {}"
    and "list_all (\<lambda>m. list_all (fields_visible (lo_config m)) (file_decls pystr (lo_name m, lo_di m))) ms"
  shows "\<exists>reg'. load_harnesses pystr adapter_of ms reg = Inr reg'
    \<and> fst ` set (hr_harnesses reg')
        = set (decl_ids (filter (loads adapter_of) ds)) \<union> fst ` set (hr_harnesses reg)"
  using assms
proof (induction ms arbitrary: reg ds)
  case (Cons m ms)
  let ?d = "file_decls pystr (lo_name m, lo_di m)"
  let ?r = "concat (map (\<lambda>m. file_decls pystr (lo_name m, lo_di m)) ms)"
  have ds: "ds = ?d @ ?r" using Cons.prems(2) by simp
  have p: "parse_harness_declarations pystr (lo_name m) (lo_di m) = Inr ?d"
    using Cons.prems(1) by (auto simp: well_formed_def file_decls_def split: sum.splits)
  have m: "distinct (decl_ids ?d)" "set (decl_ids ?d) \<inter> fst ` set (hr_harnesses reg) = {}"
    "distinct (decl_scopes ?d)" "set (decl_scopes ?d) \<inter> fst ` set (hr_owners reg) = {}"
    "list_all (fields_visible (lo_config m)) ?d"
    using Cons.prems ds by auto
  obtain reg1 where r: "load_declarations adapter_of (lo_config m) ?d reg = Inr reg1"
    "fst ` set (hr_harnesses reg1) = set (decl_ids (filter (loads adapter_of) ?d)) \<union> fst ` set (hr_harnesses reg)"
    "fst ` set (hr_owners reg1) \<subseteq> set (decl_scopes ?d) \<union> fst ` set (hr_owners reg)"
    using load_declarations_total [OF m(1-4) file_decls_fields m(5)] by blast
  have sub: "set (decl_ids (filter (loads adapter_of) ?d)) \<subseteq> set (decl_ids ?d)"
    by (auto simp: decl_ids_def)
  have rest: "list_all (well_formed pystr) (map (\<lambda>m. (lo_name m, lo_di m)) ms)" "distinct (decl_ids ?r)"
    "distinct (decl_scopes ?r)" "set (decl_ids ?r) \<inter> fst ` set (hr_harnesses reg1) = {}"
    "set (decl_scopes ?r) \<inter> fst ` set (hr_owners reg1) = {}"
    "list_all (\<lambda>m. list_all (fields_visible (lo_config m)) (file_decls pystr (lo_name m, lo_di m))) ms"
  proof -
    show "list_all (well_formed pystr) (map (\<lambda>m. (lo_name m, lo_di m)) ms)" "distinct (decl_ids ?r)"
      "distinct (decl_scopes ?r)"
      "list_all (\<lambda>m. list_all (fields_visible (lo_config m)) (file_decls pystr (lo_name m, lo_di m))) ms"
      using Cons.prems ds by simp_all
    have own: "set (decl_ids ?r) \<inter> set (decl_ids ?d) = {}" "set (decl_scopes ?r) \<inter> set (decl_scopes ?d) = {}"
      using Cons.prems(3,5) unfolding ds by (simp_all add: Int_commute)
    have old: "set (decl_ids ?r) \<inter> fst ` set (hr_harnesses reg) = {}"
      "set (decl_scopes ?r) \<inter> fst ` set (hr_owners reg) = {}"
      using Cons.prems(4,6) unfolding ds by (simp_all add: Int_Un_distrib2)
    have "fst ` set (hr_harnesses reg1) \<subseteq> set (decl_ids ?d) \<union> fst ` set (hr_harnesses reg)"
      unfolding r(2) using sub by (rule Un_mono) (rule subset_refl)
    then show "set (decl_ids ?r) \<inter> fst ` set (hr_harnesses reg1) = {}"
      by (rule disjoint_mono [OF own(1) old(1)])
    show "set (decl_scopes ?r) \<inter> fst ` set (hr_owners reg1) = {}"
      by (rule disjoint_mono [OF own(2) old(2) r(3)])
  qed
  obtain reg' where r': "load_harnesses pystr adapter_of ms reg1 = Inr reg'"
    "fst ` set (hr_harnesses reg') = set (decl_ids (filter (loads adapter_of) ?r)) \<union> fst ` set (hr_harnesses reg1)"
    using Cons.IH [OF rest(1) refl rest(2,4,3,5,6)] by blast
  have "load_harnesses pystr adapter_of (m # ms) reg = Inr reg'"
    unfolding load_harnesses.simps p r(1) sum.case by (rule r'(1))
  moreover have "fst ` set (hr_harnesses reg')
      = set (decl_ids (filter (loads adapter_of) ds)) \<union> fst ` set (hr_harnesses reg)"
    unfolding r'(2) r(2) ds filter_append decl_ids_simps set_append by blast
  ultimately show ?case by blast
qed simp

lemma mset_concat_map: "mset xs = mset ys \<Longrightarrow> mset (concat (map g xs)) = mset (concat (map g ys))"
  by (metis mset_concat mset_map sum_mset_sum_list)


definition sample_provider :: pyval where
  "sample_provider = PyDict [(PyStr ''id'', PyStr ''anthropic''), (PyStr ''credential_required'', PyBool True),
     (PyStr ''registration_modes'', PyList [PyStr ''api_key'']), (PyStr ''credential_scope'', PyStr ''claude'')]"

definition sample_declaration :: pyval where
  "sample_declaration = PyDict [(PyStr ''id'', PyStr ''claude''), (PyStr ''class'', PyStr ''src.Adapter''),
     (PyStr ''providers'', PyList [sample_provider]), (PyStr ''default_provider'', PyStr ''anthropic''),
     (PyStr ''runtime_config_fields'', PyList [PyStr ''verbose''])]"

definition sample_di :: json_file where
  "sample_di = Json (PyDict [(PyStr ''agent_harnesses'', PyList [sample_declaration])])"

definition sample_loaded :: "loaded_module list" where
  "sample_loaded = [\<lparr>lo_name = ''claude'', lo_di = sample_di,
     lo_config = [(''verbose'', PyDict [(PyStr ''type'', PyStr ''boolean'')])]\<rparr>]"

definition sample_adapter :: "harness_declaration \<Rightarrow> adapter option" where
  "sample_adapter d = Some \<lparr>ad_authenticators = [(''claude'', None)], ad_owned = ([], []), ad_home = None\<rparr>"

lemma sample_enumerated:
  "map_sum id decl_ids (enumerate_harness_declarations str_of [(''claude'', sample_di)]) = Inr [''claude'']"
  "map_sum id (\<lambda>ds. decl_ids (filter (loads sample_adapter) ds))
     (enumerate_harness_declarations str_of [(''claude'', sample_di)]) = Inr [''claude'']"
  by code_simp+

lemma sample_loaded_ok:
  "list_all (\<lambda>m. list_all (fields_visible (lo_config m)) (file_decls str_of (lo_name m, lo_di m))) sample_loaded"
  by code_simp


end
