(* ===== verification/Agent_Runtime.thy ===== *)
theory Agent_Runtime
  imports Harness Samples
begin

text \<open>
  Workspaces and agent views (\<open>workspace.py\<close>) and the runtime of a run: harness, provider, model
  and priority (\<open>agent_view_runtime.py\<close>, \<open>Consumer._resolve_run_runtime\<close>). The two tables and
  \<open>core_config_data\<close> are one record; the harness registry and the configuration surroundings are
  arguments.
\<close>

section \<open>Workspaces and agent views\<close>

record workspace_row =
  ws_id :: nat
  ws_code :: string
  ws_label :: string
  ws_active :: bool

record agent_view_row =
  av_id :: nat
  av_workspace :: nat
  av_code :: string
  av_label :: string
  av_active :: bool

record run_conn =
  rc_workspaces :: "workspace_row list"
  rc_views :: "agent_view_row list"
  rc_config :: "cfg_table option"

text \<open>\<open>[a-z][a-z0-9_]*\<close>; \<open>None\<close> is the \<open>ValueError\<close>.\<close>

definition validate_code :: "pyval \<Rightarrow> bool" where
  "validate_code code \<longleftrightarrow>
     (case code of PyStr s \<Rightarrow> first_then is_lower (\<lambda>c. is_alnum c \<or> c = CHR ''_'') s | _ \<Rightarrow> False)"

definition get_workspace :: "run_conn \<Rightarrow> nat \<Rightarrow> workspace_row option" where
  "get_workspace conn i = find (\<lambda>w. ws_id w = i) (rc_workspaces conn)"

definition get_agent_view :: "run_conn \<Rightarrow> nat \<Rightarrow> agent_view_row option" where
  "get_agent_view conn i = find (\<lambda>v. av_id v = i) (rc_views conn)"

definition get_agent_view_by_code :: "run_conn \<Rightarrow> string \<Rightarrow> agent_view_row option" where
  "get_agent_view_by_code conn c = find (\<lambda>v. av_code v = c) (rc_views conn)"

definition get_active_agent_views :: "run_conn \<Rightarrow> agent_view_row list" where
  "get_active_agent_views conn =
     sort_key av_id (filter (\<lambda>v. av_active v
       \<and> (case get_workspace conn (av_workspace v) of None \<Rightarrow> False | Some w \<Rightarrow> ws_active w)) (rc_views conn))"

section \<open>The profile of a view\<close>

definition DEFAULT_PRIORITY :: int where "DEFAULT_PRIORITY = 50"

record agent_runtime =
  ar_view :: "agent_view_row option"
  ar_workspace :: "workspace_row option"
  ar_harness :: "string option"
  ar_provider :: "string option"
  ar_model :: "string option"
  ar_priority :: int
  ar_overrides :: overrides

datatype runtime_error =
    RtConfig cfg_error
  | RtHarness harness_error
  | InvalidJobRuntime

text \<open>\<open>max(0, min(100, int(raw)))\<close>; the default when the value is no integer.\<close>

definition clamp_priority :: "string option \<Rightarrow> int" where
  "clamp_priority raw =
     (case raw of None \<Rightarrow> DEFAULT_PRIORITY
      | Some s \<Rightarrow> (case int_of_str s of None \<Rightarrow> DEFAULT_PRIORITY | Some n \<Rightarrow> max 0 (min 100 n)))"

definition view_workspace :: "run_conn \<Rightarrow> int \<Rightarrow> int option" where
  "view_workspace conn i = (if i < 0 then None else map_option (\<lambda>v. int (av_workspace v)) (get_agent_view conn (nat i)))"

definition view_service :: "run_conn \<Rightarrow> agent_view_row option \<Rightarrow> cfg_error + service" where
  "view_service conn view =
     (case view of
        Some v \<Rightarrow> new_service False (rc_config conn) (view_workspace conn) AGENT_VIEW (int (av_id v)) (Some (int (av_workspace v)))
      | None \<Rightarrow> new_service False (rc_config conn) (view_workspace conn) DEFAULT 0 None)"

definition view_context :: "cfg_env \<Rightarrow> run_conn \<Rightarrow> nat option \<Rightarrow> cfg_error + (agent_runtime \<times> service)" where
  "view_context env conn view_id =
     (let view = Option.bind view_id (get_agent_view conn);
          workspace = Option.bind view (\<lambda>v. get_workspace conn (av_workspace v))
      in case view_service conn view of Inl e \<Rightarrow> Inl e
         | Inr sv \<Rightarrow>
             (case get_config env sv ''agent_view/scheduling/priority'' False of Inl e \<Rightarrow> Inl e
              | Inr raw \<Rightarrow>
                  Inr (\<lparr>ar_view = view, ar_workspace = workspace, ar_harness = None, ar_provider = None,
                        ar_model = None, ar_priority = clamp_priority raw,
                        ar_overrides = sv_overrides sv\<rparr>, sv)))"

definition resolve_agent_view_context :: "cfg_env \<Rightarrow> run_conn \<Rightarrow> nat option \<Rightarrow> runtime_error + agent_runtime" where
  "resolve_agent_view_context env conn view_id = map_sum RtConfig fst (view_context env conn view_id)"

section \<open>Harness and provider\<close>

definition offers :: "harness_registry \<Rightarrow> string \<Rightarrow> string \<Rightarrow> bool" where
  "offers reg h p \<longleftrightarrow>
     (case find_harness reg h of None \<Rightarrow> False | Some r \<Rightarrow> find_provider (rh_descriptor r) p \<noteq> None)"

definition default_provider :: "harness_registry \<Rightarrow> string \<Rightarrow> string option" where
  "default_provider reg h = map_option (\<lambda>r. ds_default (rh_descriptor r)) (find_harness reg h)"

text \<open>
  The decision of \<open>_resolve_harness_and_provider\<close>, from the two values and their origins. A
  provider that names a registered harness is the value from before the two were split.
\<close>

definition choose_pair ::
    "harness_registry \<Rightarrow> string option \<times> origin \<Rightarrow> string option \<times> origin
      \<Rightarrow> harness_error + (string option \<times> string option)" where
  "choose_pair reg ho po =
     (let (harness, h_origin) = ho; (provider, p_origin) = po;
          legacy = (if truthy provider then find_harness reg (the provider) else None)
      in if h_origin = OriginAbsent \<and> p_origin = OriginAbsent then Inr (None, None)
         else if truthy harness \<and> truthy provider \<and> offers reg (the harness) (the provider)
         then Inr (harness, provider)
         else if legacy \<noteq> None \<and> origin_rank h_origin \<le> origin_rank p_origin
         then Inr (Some (ds_id (rh_descriptor (the legacy))), Some (ds_default (rh_descriptor (the legacy))))
         else if \<not> truthy harness then Inr (None, provider)
         else if legacy \<noteq> None \<or> \<not> truthy provider then Inr (harness, default_provider reg (the harness))
         else (case resolve_provider reg (the harness) (the provider) of
                 Inl e \<Rightarrow> Inl e | Inr p \<Rightarrow> Inr (harness, provider)))"

definition resolve_harness_and_provider ::
    "harness_registry \<Rightarrow> cfg_env \<Rightarrow> run_conn \<Rightarrow> int option \<Rightarrow> int option \<Rightarrow> string option \<Rightarrow> string option
      \<Rightarrow> harness_error + (string option \<times> string option)" where
  "resolve_harness_and_provider reg env conn view_id workspace_id harness_default provider_default =
     choose_pair reg
       (resolve_with_origin (environ env) (rc_config conn) ''agent_view/harness'' view_id workspace_id harness_default)
       (resolve_with_origin (environ env) (rc_config conn) ''agent_view/provider'' view_id workspace_id provider_default)"

text \<open>The pair of a service; its defaults are what the service itself resolves.\<close>

definition service_pair ::
    "harness_registry \<Rightarrow> cfg_env \<Rightarrow> run_conn \<Rightarrow> service \<Rightarrow> int option \<Rightarrow> int option
      \<Rightarrow> runtime_error + (string option \<times> string option)" where
  "service_pair reg env conn sv view_id workspace_id =
     (case get_config env sv ''agent_view/harness'' False of Inl e \<Rightarrow> Inl (RtConfig e)
      | Inr h \<Rightarrow>
          (case get_config env sv ''agent_view/provider'' False of Inl e \<Rightarrow> Inl (RtConfig e)
           | Inr p \<Rightarrow> map_sum RtHarness id (resolve_harness_and_provider reg env conn view_id workspace_id h p)))"

definition resolve_agent_view_runtime ::
    "harness_registry \<Rightarrow> cfg_env \<Rightarrow> run_conn \<Rightarrow> nat option \<Rightarrow> bool \<Rightarrow> runtime_error + agent_runtime" where
  "resolve_agent_view_runtime reg env conn view_id tolerate_pair_error =
     (case view_context env conn view_id of Inl e \<Rightarrow> Inl (RtConfig e)
      | Inr (rt, sv) \<Rightarrow>
     (case service_pair reg env conn sv (map_option (\<lambda>v. int (av_id v)) (ar_view rt))
             (map_option (\<lambda>v. int (av_workspace v)) (ar_view rt)) of
        Inl (RtConfig e) \<Rightarrow> Inl (RtConfig e)
      | Inl e \<Rightarrow> if \<not> tolerate_pair_error then Inl e
                else map_sum RtConfig (\<lambda>m. rt\<lparr>ar_model := m\<rparr>) (get_config env sv ''agent_view/model'' False)
      | Inr (h, p) \<Rightarrow>
          map_sum RtConfig (\<lambda>m. rt\<lparr>ar_harness := h, ar_provider := p, ar_model := m\<rparr>)
            (get_config env sv ''agent_view/model'' False)))"

definition resolve_runtime_for_scope ::
    "harness_registry \<Rightarrow> cfg_env \<Rightarrow> run_conn \<Rightarrow> string \<Rightarrow> nat
      \<Rightarrow> runtime_error + (string option \<times> string option \<times> string option)" where
  "resolve_runtime_for_scope reg env conn scope scope_id =
     (if scope = WORKSPACE then
        (case new_service False (rc_config conn) (view_workspace conn) WORKSPACE (int scope_id) None of
           Inl e \<Rightarrow> Inl (RtConfig e)
         | Inr sv \<Rightarrow>
             (case service_pair reg env conn sv None (Some (int scope_id)) of Inl e \<Rightarrow> Inl e
              | Inr (h, p) \<Rightarrow> map_sum RtConfig (\<lambda>m. (h, p, m)) (get_config env sv ''agent_view/model'' False)))
      else map_sum id (\<lambda>rt. (ar_harness rt, ar_provider rt, ar_model rt))
             (resolve_agent_view_runtime reg env conn (if scope = AGENT_VIEW then Some scope_id else None) False))"

definition resolve_publish_priority ::
    "harness_registry \<Rightarrow> cfg_env \<Rightarrow> run_conn \<Rightarrow> nat option \<Rightarrow> runtime_error + int" where
  "resolve_publish_priority reg env conn view_id =
     (case view_id of None \<Rightarrow> Inr DEFAULT_PRIORITY
      | Some i \<Rightarrow> map_sum id ar_priority (resolve_agent_view_runtime reg env conn (Some i) False))"

section \<open>The runtime of a job\<close>

definition resolve_job_runtime ::
    "harness_registry \<Rightarrow> string option \<Rightarrow> string option \<Rightarrow> string option \<Rightarrow> agent_runtime
      \<Rightarrow> runtime_error + agent_runtime" where
  "resolve_job_runtime reg pinned_harness pinned_model model_override rt =
     (case py_or pinned_harness (ar_harness rt) of
        None \<Rightarrow> Inl InvalidJobRuntime
      | Some h \<Rightarrow>
          if find_harness reg h = None then Inl InvalidJobRuntime
          else let same = (ar_harness rt = Some h) in
            Inr (rt\<lparr>ar_harness := Some h,
                    ar_provider := (if same then ar_provider rt else default_provider reg h),
                    ar_model := py_or pinned_model (py_or model_override (if same then ar_model rt else None))\<rparr>))"

text \<open>A provider on the row is the mark of a runtime an earlier attempt committed.\<close>

definition resolve_run_runtime ::
    "harness_registry \<Rightarrow> cfg_env \<Rightarrow> run_conn \<Rightarrow> string option \<Rightarrow> job \<Rightarrow> db
      \<Rightarrow> runtime_error + (agent_runtime \<times> job \<times> db)" where
  "resolve_run_runtime reg env conn model_override job d =
     (if j_agent_type job \<noteq> None \<and> find_harness reg (the (j_agent_type job)) = None then Inl InvalidJobRuntime
      else if j_provider job \<noteq> None then
        map_sum id (\<lambda>rt. (rt\<lparr>ar_harness := j_agent_type job, ar_provider := j_provider job,
                            ar_model := j_model job\<rparr>, job, d))
          (resolve_agent_view_context env conn (j_view job))
      else case resolve_agent_view_runtime reg env conn (j_view job) (j_agent_type job \<noteq> None) of
        Inl e \<Rightarrow> Inl e
      | Inr view_rt \<Rightarrow>
          (case resolve_job_runtime reg (j_agent_type job) (j_model job) model_override view_rt of
             Inl e \<Rightarrow> Inl e
           | Inr rt \<Rightarrow>
               Inr (rt, job\<lparr>j_agent_type := ar_harness rt, j_provider := ar_provider rt, j_model := ar_model rt\<rparr>,
                    update_jobs (\<lambda>r. j_id r = j_id job)
                      (\<lambda>r. r\<lparr>j_agent_type := ar_harness rt, j_provider := ar_provider rt,
                             j_model := ar_model rt\<rparr>) d)))"

text \<open>The exception the job fails with.\<close>

fun runtime_exn :: "runtime_error \<Rightarrow> exn" where
  "runtime_exn InvalidJobRuntime = plain_exn ''InvalidJobRuntime'' ''unknown or missing harness''"
| "runtime_exn (RtHarness (UnknownHarness h)) = plain_exn ''UnknownHarnessError'' h"
| "runtime_exn (RtHarness (ProviderNotOffered h p)) = plain_exn ''ValueError'' ''provider not offered''"
| "runtime_exn (RtConfig (ToolboxOnly path)) = plain_exn ''ToolboxOnlyConfigError'' path"
| "runtime_exn (RtConfig e) = plain_exn ''RuntimeError'' ''configuration cannot be read''"

section \<open>Facts\<close>

lemma clamp_priority_bounds: "0 \<le> clamp_priority raw \<and> clamp_priority raw \<le> 100"
  by (auto simp: clamp_priority_def DEFAULT_PRIORITY_def split: option.splits)

text \<open>Every descriptor offers its own default, as a declaration has to.\<close>

definition defaults_offered :: "harness_registry \<Rightarrow> bool" where
  "defaults_offered reg \<longleftrightarrow>
     list_all (\<lambda>(h, r). find_provider (rh_descriptor r) (ds_default (rh_descriptor r)) \<noteq> None) (hr_harnesses reg)"

lemma find_harness_in: "find_harness reg h = Some r \<Longrightarrow> (h, r) \<in> set (hr_harnesses reg)"
  by (simp add: find_harness_def map_of_SomeD)

lemma find_harness_id:
  "harness_registry_ok reg \<Longrightarrow> find_harness reg h = Some r \<Longrightarrow> ds_id (rh_descriptor r) = h"
  using find_harness_in [of reg h r] by (auto simp: harness_registry_ok_def entry_ok_def list_all_iff)

lemma offers_default:
  assumes "defaults_offered reg" "default_provider reg h = Some p"
  shows "offers reg h p"
proof -
  obtain r where r: "find_harness reg h = Some r" "p = ds_default (rh_descriptor r)"
    using assms(2) by (auto simp: default_provider_def)
  with assms(1) find_harness_in [OF r(1)] show ?thesis
    by (auto simp: offers_def defaults_offered_def list_all_iff)
qed

lemma resolve_provider_offers: "resolve_provider reg h p = Inr x \<Longrightarrow> offers reg h p"
  by (auto simp: resolve_provider_def get_harness_def offers_def split: option.splits)

text \<open>A pair that comes out whole is one the harness offers.\<close>

lemma choose_pair_offered:
  assumes "harness_registry_ok reg" "defaults_offered reg"
    and "choose_pair reg ho po = Inr (Some h, Some p)"
  shows "offers reg h p"
proof -
  obtain harness h_origin provider p_origin where o: "ho = (harness, h_origin)" "po = (provider, p_origin)"
    by (cases ho; cases po)
  have legacy: "find_harness reg x = Some r \<Longrightarrow> offers reg (ds_id (rh_descriptor r)) (ds_default (rh_descriptor r))" for x r
    using offers_default [OF assms(2), of x "ds_default (rh_descriptor r)"] find_harness_id [OF assms(1), of x r]
    by (simp add: default_provider_def)
  show ?thesis
    using assms(3) unfolding o choose_pair_def
    by (auto simp: Let_def legacy intro: offers_default [OF assms(2)] resolve_provider_offers
        split: if_splits sum.splits option.splits)
qed

definition pair_offered :: "harness_registry \<Rightarrow> string option \<Rightarrow> string option \<Rightarrow> bool" where
  "pair_offered reg h p \<longleftrightarrow> (case (h, p) of (Some h', Some p') \<Rightarrow> offers reg h' p' | _ \<Rightarrow> True)"

lemma map_sum_id_Inr: "map_sum f id x = Inr y \<longleftrightarrow> x = Inr y"
  by (cases x) auto

lemma map_sum_right: "map_sum f g x = Inr y \<longleftrightarrow> (\<exists>z. x = Inr z \<and> y = g z)"
  by (cases x) auto

lemma service_pair_offered:
  assumes "harness_registry_ok reg" "defaults_offered reg" "service_pair reg env conn sv v w = Inr (h, p)"
  shows "pair_offered reg h p"
  using assms(3)
  by (auto simp: service_pair_def resolve_harness_and_provider_def map_sum_id_Inr pair_offered_def
      dest: choose_pair_offered [OF assms(1,2)] split: sum.splits option.splits)

lemma view_runtime_offered:
  assumes "harness_registry_ok reg" "defaults_offered reg"
    and "resolve_agent_view_runtime reg env conn view_id tol = Inr rt"
  shows "pair_offered reg (ar_harness rt) (ar_provider rt) \<and> 0 \<le> ar_priority rt \<and> ar_priority rt \<le> 100"
proof -
  obtain rt0 sv where c: "view_context env conn view_id = Inr (rt0, sv)"
    using assms(3) by (auto simp: resolve_agent_view_runtime_def split: sum.splits)
  then have rt0: "ar_harness rt0 = None" "ar_provider rt0 = None" "0 \<le> ar_priority rt0" "ar_priority rt0 \<le> 100"
    using clamp_priority_bounds by (auto simp: view_context_def Let_def split: sum.splits)
  show ?thesis
  proof (cases "service_pair reg env conn sv (map_option (\<lambda>v. int (av_id v)) (ar_view rt0))
             (map_option (\<lambda>v. int (av_workspace v)) (ar_view rt0))")
    case (Inl e)
    with assms(3) c rt0 show ?thesis
      by (cases e) (auto simp: resolve_agent_view_runtime_def map_sum_right pair_offered_def split: if_splits)
  next
    case (Inr hp)
    obtain h p where hp: "hp = (h, p)" by (cases hp)
    from service_pair_offered [OF assms(1,2) Inr [unfolded hp]] assms(3) c rt0 Inr hp show ?thesis
      by (auto simp: resolve_agent_view_runtime_def map_sum_right)
  qed
qed

lemma job_runtime_offered:
  assumes "defaults_offered reg" "pair_offered reg (ar_harness rt) (ar_provider rt)"
    and "resolve_job_runtime reg ph pm mo rt = Inr rt'"
  shows "pair_offered reg (ar_harness rt') (ar_provider rt')
    \<and> (\<exists>h. ar_harness rt' = Some h \<and> find_harness reg h \<noteq> None)"
proof -
  obtain h where p: "py_or ph (ar_harness rt) = Some h"
    using assms(3) by (auto simp: resolve_job_runtime_def split: option.splits)
  with assms(3) have h: "find_harness reg h \<noteq> None" "ar_harness rt' = Some h"
    "ar_provider rt' = (if ar_harness rt = Some h then ar_provider rt else default_provider reg h)"
    by (auto simp: resolve_job_runtime_def Let_def split: if_splits)
  then show ?thesis using assms(1,2)
    by (auto simp: pair_offered_def intro: offers_default split: option.splits if_splits)
qed

text \<open>
  The pair a view resolves has a provider whenever its harness is registered, so a job that got
  a runtime also has the mark of one.
\<close>

lemma choose_pair_whole:
  assumes "choose_pair reg ho po = Inr (Some h, p)" "find_harness reg h \<noteq> None"
  shows "p \<noteq> None"
proof -
  obtain harness h_origin provider p_origin where o: "ho = (harness, h_origin)" "po = (provider, p_origin)"
    by (cases ho; cases po)
  show ?thesis
    using assms unfolding o choose_pair_def
    by (auto simp: Let_def default_provider_def truthy_def split: if_splits sum.splits option.splits)
qed

lemma view_runtime_whole:
  assumes "resolve_agent_view_runtime reg env conn view_id tol = Inr rt"
    and "ar_harness rt = Some h" "find_harness reg h \<noteq> None"
  shows "ar_provider rt \<noteq> None"
proof -
  obtain rt0 sv where c: "view_context env conn view_id = Inr (rt0, sv)"
    using assms(1) by (auto simp: resolve_agent_view_runtime_def split: sum.splits)
  then have rt0: "ar_harness rt0 = None"
    by (auto simp: view_context_def Let_def split: sum.splits)
  show ?thesis
  proof (cases "service_pair reg env conn sv (map_option (\<lambda>v. int (av_id v)) (ar_view rt0))
             (map_option (\<lambda>v. int (av_workspace v)) (ar_view rt0))")
    case (Inl e)
    with assms c rt0 show ?thesis
      by (cases e) (auto simp: resolve_agent_view_runtime_def map_sum_right split: if_splits)
  next
    case (Inr hp)
    obtain h' p where hp: "hp = (h', p)" by (cases hp)
    with assms c Inr have h: "h' = Some h" "ar_provider rt = p"
      by (auto simp: resolve_agent_view_runtime_def map_sum_right)
    from Inr hp h(1) obtain x y where "choose_pair reg x y = Inr (Some h, p)"
      by (auto simp: service_pair_def resolve_harness_and_provider_def map_sum_id_Inr split: sum.splits)
    from choose_pair_whole [OF this assms(3)] h(2) show ?thesis by simp
  qed
qed

lemma run_runtime_provider:
  assumes "resolve_run_runtime reg env conn mo job d = Inr (rt, job', d')"
  shows "ar_provider rt \<noteq> None"
proof (cases "j_provider job")
  case (Some p)
  with assms show ?thesis
    by (auto simp: resolve_run_runtime_def map_sum_right split: if_splits)
next
  case None
  with assms obtain view_rt where v:
    "resolve_agent_view_runtime reg env conn (j_view job) (j_agent_type job \<noteq> None) = Inr view_rt"
    "resolve_job_runtime reg (j_agent_type job) (j_model job) mo view_rt = Inr rt"
    by (auto simp: resolve_run_runtime_def split: if_splits sum.splits)
  then show ?thesis using view_runtime_whole [OF v(1)]
    by (auto simp: resolve_job_runtime_def Let_def default_provider_def split: option.splits if_splits)
qed

lemma job_from_row_runtime:
  "job_from_row types r = Inr j \<Longrightarrow> j_agent_type j = j_agent_type r \<and> j_provider j = j_provider r \<and> j_model j = j_model r"
  by (auto simp: job_from_row_def job_row.defs job.defs split: option.splits)

lemma run_runtime_row:
  assumes "resolve_run_runtime reg env conn mo job d = Inr (rt, job1, d1)" "j_provider job = None"
    and "find_job d (j_id job) = Some row"
  shows "find_job d1 (j_id job) = Some (row\<lparr>j_agent_type := ar_harness rt, j_provider := ar_provider rt,
    j_model := ar_model rt\<rparr>)"
proof -
  have d1: "d1 = update_jobs (\<lambda>r. j_id r = j_id job)
      (\<lambda>r. r\<lparr>j_agent_type := ar_harness rt, j_provider := ar_provider rt, j_model := ar_model rt\<rparr>) d"
    using assms(1,2) by (auto simp: resolve_run_runtime_def split: if_splits sum.splits)
  then show ?thesis using assms(3) find_SomeD [of "\<lambda>r. j_id r = j_id job" "jobs d" row]
    by (simp add: find_job_def update_jobs_def find_update_where)
qed

lemma run_runtime_snapshot:
  assumes "resolve_run_runtime reg env conn mo job d = Inr (rt, job1, d1)" "j_provider job \<noteq> None"
  shows "ar_harness rt = j_agent_type job \<and> ar_provider rt = j_provider job \<and> ar_model rt = j_model job \<and> d1 = d"
  using assms by (auto simp: resolve_run_runtime_def map_sum_right split: if_splits)


definition sample_harnesses :: harness_registry where
  "sample_harnesses = \<lparr>hr_harnesses = [(''claude'', \<lparr>rh_descriptor = \<lparr>ds_id = ''claude'', ds_label = ''Claude'',
       ds_providers = [\<lparr>pv_id = ''anthropic'', pv_label = ''A'', pv_required = False, pv_modes = [],
         pv_scope = None, pv_options = []\<rparr>], ds_default = ''anthropic'',
       ds_caps = \<lparr>cap_interactive = True, cap_resume = True, cap_transcripts = False,
         cap_structured_events = False, cap_toolbox = False, cap_mcp_init_report = False,
         cap_usage_reporting = False, cap_cost_reporting = False\<rparr>, ds_sandbox = None\<rparr>,
     rh_adapter = \<lparr>ad_authenticators = [], ad_owned = ([], []), ad_home = None\<rparr>,
     rh_module = ''claude'', rh_fields = []\<rparr>)], hr_owners = []\<rparr>"

definition sample_env_vars :: "(string \<times> string) list \<Rightarrow> cfg_env" where
  "sample_env_vars vars = \<lparr>ce_environ = vars, ce_decrypt = (\<lambda>s. None), ce_float = (\<lambda>_. None),
     ce_loads = (\<lambda>_. None), ce_str = (\<lambda>_. ''?''), ce_modules = [], ce_restricted = []\<rparr>"

definition sample_conn :: run_conn where
  "sample_conn = \<lparr>rc_workspaces = [], rc_views = [], rc_config = Some []\<rparr>"

lemma sample_harnesses_ok: "harness_registry_ok sample_harnesses" "defaults_offered sample_harnesses"
proof -
  have "credential_scopes (rh_descriptor r) = []" if "find_harness sample_harnesses h = Some r" for h r
    using find_harness_in [OF that] by (auto simp: sample_harnesses_def credential_scopes_def map_filter_simps)
  then show "harness_registry_ok sample_harnesses"
    by (auto simp: harness_registry_ok_def entry_ok_def sample_harnesses_def credential_scopes_def map_filter_simps)
  show "defaults_offered sample_harnesses"
    by (simp add: defaults_offered_def sample_harnesses_def find_provider_def)
qed

lemma sample_first_runtime:
  "map_sum id (\<lambda>rt. (ar_harness rt, ar_provider rt, ar_model rt))
     (resolve_agent_view_runtime sample_harnesses (sample_env_vars [(''CONFIG__AGENT_VIEW__HARNESS'', ''claude'')])
        sample_conn None False) = Inr (Some ''claude'', Some ''anthropic'', None)"
  by code_simp

lemma sample_second_context:
  "map_sum (\<lambda>_. ()) ar_priority (resolve_agent_view_context
     (sample_env_vars [(''CONFIG__AGENT_VIEW__HARNESS'', ''codex'')]) sample_conn None) = Inr 50"
  by code_simp

lemma sample_job_runtime:
  "j_agent_type (sample_job\<lparr>j_thread_key := None\<rparr>) = None" "j_provider (sample_job\<lparr>j_thread_key := None\<rparr>) = None"
  "j_model (sample_job\<lparr>j_thread_key := None\<rparr>) = None" "j_view (sample_job\<lparr>j_thread_key := None\<rparr>) = None"
  "j_provider sample_row = None"
  by (simp_all add: sample_job_def sample_row_def job_row.defs job.defs)

lemma sample_first_run:
  "\<exists>rt job1 d1. resolve_run_runtime sample_harnesses (sample_env_vars [(''CONFIG__AGENT_VIEW__HARNESS'', ''claude'')])
       sample_conn None (sample_job\<lparr>j_thread_key := None\<rparr>) sample_todo = Inr (rt, job1, d1)
     \<and> ar_harness rt = Some ''claude''"
proof -
  obtain rt0 where "resolve_agent_view_runtime sample_harnesses
      (sample_env_vars [(''CONFIG__AGENT_VIEW__HARNESS'', ''claude'')]) sample_conn None False = Inr rt0"
    "ar_harness rt0 = Some ''claude''"
    using sample_first_runtime by (auto simp: map_sum_right)
  moreover have "find_harness sample_harnesses ''claude'' \<noteq> None"
    by (simp add: find_harness_def sample_harnesses_def)
  ultimately show ?thesis
    by (simp add: resolve_run_runtime_def sample_job_runtime resolve_job_runtime_def)
qed

lemma job_from_builtin_row:
  "j_type r = ''todo'' \<Longrightarrow> j_rq_trust r = ''claimed'' \<Longrightarrow> \<exists>j. job_from_row types r = Inr j"
  by (simp add: job_from_row_def resolve_job_type_def builtin_of_def trust_of_def)


end
