(* ===== verification/Redaction.thy ===== *)
theory Redaction
  imports Retry_Policy
begin

text \<open>
  \<open>secret_redaction.py\<close>: the tokens of a run are taken out of every text the run persists. Of an
  exception the message, which \<open>args\<close> builds, and the agent's output are persisted.
\<close>

definition REDACTION :: string where "REDACTION = ''***''"

text \<open>\<open>text.replace(secret, REDACTION)\<close> for a secret that is not empty: from the left, without overlap.\<close>

fun replace_str :: "string \<Rightarrow> string \<Rightarrow> string" where
  "replace_str secret [] = []"
| "replace_str secret (c # cs) =
     (if starts_with secret (c # cs) then REDACTION @ replace_str secret (drop (length secret - 1) cs)
      else c # replace_str secret cs)"

definition redact_text :: "string option list \<Rightarrow> string \<Rightarrow> string" where
  "redact_text secrets t = fold (\<lambda>s t. if truthy s then replace_str (the s) t else t) secrets t"

definition redact_secret :: "string option list \<Rightarrow> string option \<Rightarrow> string option" where
  "redact_secret secrets t = (if truthy t then map_option (redact_text secrets) t else t)"

definition redact_exception :: "string option list \<Rightarrow> exn \<Rightarrow> exn" where
  "redact_exception secrets e =
     (if \<not> list_ex truthy secrets then e
      else e\<lparr>x_msg := redact_text secrets (x_msg e),
             x_agent_output := redact_secret secrets (x_agent_output e)\<rparr>)"

section \<open>No secret is left\<close>

text \<open>A token: not empty, and without the character of the replacement.\<close>

definition token :: "string \<Rightarrow> bool" where
  "token s \<longleftrightarrow> s \<noteq> [] \<and> CHR ''*'' \<notin> set s"

lemma starts_with_simps [simp]:
  "starts_with [] s" "starts_with (c # p) [] = False"
  "starts_with (c # p) (d # s) \<longleftrightarrow> c = d \<and> starts_with p s"
  by (auto simp: starts_with_def)

lemma contains_drop: "contains_str p (drop n s) \<Longrightarrow> p \<noteq> [] \<Longrightarrow> contains_str p s"
proof (induction s arbitrary: n)
  case (Cons c s)
  then show ?case by (cases n) auto
qed simp

lemma star_free_start: "starts_with (c # p) (REDACTION @ t) \<Longrightarrow> c = CHR ''*''"
  by (simp add: REDACTION_def)

lemma contains_after_stars:
  "token p \<Longrightarrow> contains_str p (REDACTION @ t) = contains_str p t"
  by (cases p) (auto simp: REDACTION_def token_def)

lemma replaced_start:
  "starts_with p (replace_str q s) \<Longrightarrow> CHR ''*'' \<notin> set p \<Longrightarrow> starts_with p s"
proof (induction q s arbitrary: p rule: replace_str.induct)
  case (2 q c cs)
  then show ?case by (cases p) (auto dest: star_free_start split: if_splits)
qed simp

text \<open>Redaction brings in no token, and the redacted one is gone.\<close>

lemma replaced_contains: "contains_str p (replace_str q s) \<Longrightarrow> token p \<Longrightarrow> contains_str p s"
proof (induction q s rule: replace_str.induct)
  case (2 q c cs)
  show ?case
  proof (cases "starts_with q (c # cs)")
    case True
    with 2 have "contains_str p (drop (length q - 1) cs)" by (simp add: contains_after_stars)
    with 2(4) show ?thesis by (auto simp: token_def dest: contains_drop)
  next
    case False
    with 2 show ?thesis
      using replaced_start [of p q "c # cs"] by (auto simp: token_def)
  qed
qed simp

lemma replaced_gone: "token q \<Longrightarrow> \<not> contains_str q (replace_str q s)"
proof (induction q s rule: replace_str.induct)
  case (1 q)
  then show ?case by (simp add: token_def)
next
  case (2 q c cs)
  show ?case
  proof (cases "starts_with q (c # cs)")
    case True
    with 2 show ?thesis by (simp add: contains_after_stars)
  next
    case False
    have "\<not> starts_with q (replace_str q (c # cs))"
      using replaced_start [of q q "c # cs"] False 2(3) by (auto simp: token_def)
    with False 2 show ?thesis by simp
  qed
qed

definition free_of :: "string \<Rightarrow> string option \<Rightarrow> bool" where
  "free_of s t \<longleftrightarrow> (case t of None \<Rightarrow> True | Some x \<Rightarrow> \<not> contains_str s x)"

lemma redact_text_keeps: "token s \<Longrightarrow> \<not> contains_str s t \<Longrightarrow> \<not> contains_str s (redact_text secrets t)"
  unfolding redact_text_def
  by (induction secrets arbitrary: t) (auto dest: replaced_contains)

lemma redact_text_free: "token s \<Longrightarrow> Some s \<in> set secrets \<Longrightarrow> \<not> contains_str s (redact_text secrets t)"
proof (induction secrets arbitrary: t)
  case (Cons x secrets)
  show ?case
  proof (cases "x = Some s")
    case True
    then have "redact_text (x # secrets) t = redact_text secrets (replace_str s t)"
      using Cons.prems by (cases s) (simp_all add: redact_text_def token_def)
    then show ?thesis using redact_text_keeps [OF Cons.prems(1) replaced_gone [OF Cons.prems(1)]] by simp
  next
    case False
    then have "Some s \<in> set secrets" using Cons.prems by auto
    from Cons.IH [OF Cons.prems(1) this] show ?thesis by (simp add: redact_text_def)
  qed
qed simp

lemma redact_secret_free: "token s \<Longrightarrow> Some s \<in> set secrets \<Longrightarrow> free_of s (redact_secret secrets t)"
  by (cases t) (auto simp: redact_secret_def free_of_def redact_text_free truthy_def token_def)

lemma redact_exception_free:
  assumes "token s" "Some s \<in> set secrets"
  shows "\<not> contains_str s (x_msg (redact_exception secrets e))" "free_of s (x_agent_output (redact_exception secrets e))"
proof -
  have "list_ex truthy secrets" using assms by (auto simp: list_ex_iff token_def truthy_def)
  then show "\<not> contains_str s (x_msg (redact_exception secrets e))"
    "free_of s (x_agent_output (redact_exception secrets e))"
    using assms by (simp_all add: redact_exception_def redact_text_free redact_secret_free)
qed

lemma redact_exception_class [simp]:
  "x_class (redact_exception s e) = x_class e" "x_other_token (redact_exception s e) = x_other_token e"
  "x_pool_retry_at (redact_exception s e) = x_pool_retry_at e" "x_session (redact_exception s e) = x_session e"
  "x_credential (redact_exception s e) = x_credential e" "x_reset_at (redact_exception s e) = x_reset_at e"
  "x_verdict (redact_exception s e) = x_verdict e"
  by (simp_all add: redact_exception_def)

lemma starts_with_take: "starts_with s (take n t) \<Longrightarrow> starts_with s t"
  by (auto simp: starts_with_def min_def split: if_splits)

lemma contains_take: "contains_str s (take n t) \<Longrightarrow> contains_str s t"
proof (induction t arbitrary: n)
  case (Cons c t)
  show ?case
  proof (cases n)
    case (Suc m)
    with Cons.prems have "starts_with s (take (Suc m) (c # t)) \<or> contains_str s (take m t)" by simp
    then show ?thesis using Cons.IH starts_with_take [of s "Suc m" "c # t"] by (simp only: contains_str.simps) blast
  next
    case 0
    with Cons.prems show ?thesis by (cases s) auto
  qed
qed simp

end
