(* ===== verification/Run_Credentials.thy ===== *)
theory Run_Credentials
  imports Samples Redaction
begin

text \<open>
  The credential of a run (\<open>consumer.py\<close>): the out-of-band refresh of a claimed credential, the
  handlers of the three credential failures, the retry after a crash, the renewal of leases and the
  end of the credential's life in a run. The leases a process holds are a dict from owner to
  credential. What the harness's adapter does to the database is an argument; a handler whose
  connection fails is \<open>NoDb\<close>, one whose count fails after the commit is \<open>NoCount\<close>.
\<close>

section \<open>Failures\<close>

definition DEFAULT_LIMIT_THROTTLE :: nat where "DEFAULT_LIMIT_THROTTLE = 3600"
definition DEFAULT_TRANSIENT_AUTH_THROTTLE :: nat where "DEFAULT_TRANSIENT_AUTH_THROTTLE = 15 * 60"

datatype handler_fault = Works | NoDb | NoCount

type_synonym held_leases = "(string \<times> nat) list"

text \<open>\<open>WHERE id = NULL\<close> and \<open>WHERE scope = NULL\<close> match no row.\<close>

definition with_credential :: "nat option \<Rightarrow> (nat \<Rightarrow> db \<Rightarrow> bool \<times> db) \<Rightarrow> db \<Rightarrow> db" where
  "with_credential cid f d = (case cid of None \<Rightarrow> d | Some i \<Rightarrow> snd (f i d))"

definition healthy_in_scope :: "string option \<Rightarrow> db \<Rightarrow> nat" where
  "healthy_in_scope scope d =
     (case scope of None \<Rightarrow> 0 | Some s \<Rightarrow> snd (count_credentials_for_scope s d))"

definition failed_credential :: "exn \<Rightarrow> cred_row option \<Rightarrow> nat option" where
  "failed_credential e credential =
     (case x_credential e of Some i \<Rightarrow> Some i | None \<Rightarrow> map_option k_id credential)"

definition scope_text :: "string option \<Rightarrow> string" where
  "scope_text scope = (case scope of None \<Rightarrow> [] | Some s \<Rightarrow> s)"

text \<open>The exception that leaves a handler: the wait for a credential when none is left.\<close>

definition raise_if_auth_wait :: "nat option \<Rightarrow> exn \<Rightarrow> db \<Rightarrow> exn" where
  "raise_if_auth_wait healthy e d =
     (if healthy = Some 0
      then (plain_exn ''CredentialsUnavailableError'' ''No healthy credential left'')
             \<lparr>x_pool_retry_at := Some (auth_wait_retry_at d), x_agent_output := x_agent_output e\<rparr>
      else e)"

definition handle_auth_failure ::
    "handler_fault \<Rightarrow> nat \<Rightarrow> cred_row option \<Rightarrow> string option \<Rightarrow> exn \<Rightarrow> db \<Rightarrow> exn \<times> db" where
  "handle_auth_failure fault job_id credential scope e d =
     (let cid = failed_credential e credential;
          d1 = (if fault = NoDb then d
                else with_credential cid (\<lambda>i. mark_credential_error i (Some (x_msg e)) Auto) d);
          healthy = (if fault = Works then Some (healthy_in_scope scope d1) else None);
          e1 = (case healthy of None \<Rightarrow> e | Some n \<Rightarrow> e\<lparr>x_other_token := 0 < n\<rparr>);
          d2 = dispatch (CredentialAuthFailedAfter (scope_text scope) cid job_id) d1
      in (raise_if_auth_wait healthy e1 d2, d2))"

definition handle_usage_limit ::
    "handler_fault \<Rightarrow> nat \<Rightarrow> cred_row option \<Rightarrow> string option \<Rightarrow> exn \<Rightarrow> db \<Rightarrow> exn \<times> db" where
  "handle_usage_limit fault job_id credential scope e d =
     (let cid = failed_credential e credential;
          until = (case x_reset_at e of Some t \<Rightarrow> t | None \<Rightarrow> now_us d + usec DEFAULT_LIMIT_THROTTLE);
          d1 = (if fault = NoDb then d else with_credential cid (\<lambda>i. throttle_credential i until) d);
          e1 = (if fault \<noteq> Works then e
                else let healthy = healthy_in_scope scope d1;
                         e2 = e\<lparr>x_other_token := 0 < healthy\<rparr>
                     in if healthy = 0
                        then e2\<lparr>x_pool_retry_at := Some
                               (case Option.bind scope (\<lambda>s. earliest_throttle_reset_for_scope s d1) of
                                  Some t \<Rightarrow> usec t | None \<Rightarrow> until)\<rparr>
                        else e2)
      in (e1, dispatch (CredentialUsageLimitedAfter (scope_text scope) cid until job_id) d1))"

text \<open>A credential with nothing to rotate has no stale copy to blame: its rejection is real.\<close>

definition rotatable :: "cred_row option \<Rightarrow> bool" where
  "rotatable credential \<longleftrightarrow>
     (case Option.bind credential k_payload of
        None \<Rightarrow> False | Some p \<Rightarrow> py_truth (py_get p ''refresh_token''))"

definition handle_transient_auth ::
    "handler_fault \<Rightarrow> nat \<Rightarrow> cred_row option \<Rightarrow> string option \<Rightarrow> exn \<Rightarrow> db \<Rightarrow> exn \<times> db" where
  "handle_transient_auth fault job_id credential scope e d =
     (if \<not> rotatable credential then handle_auth_failure fault job_id credential scope e d
      else let cid = failed_credential e credential;
               until = now_us d + usec DEFAULT_TRANSIENT_AUTH_THROTTLE;
               d1 = (if fault = NoDb then d else with_credential cid (\<lambda>i. throttle_credential i until) d);
               healthy = (if fault = Works then Some (healthy_in_scope scope d1) else None);
               e1 = (case healthy of None \<Rightarrow> e | Some n \<Rightarrow> e\<lparr>x_other_token := 0 < n\<rparr>);
               d2 = dispatch (CredentialAuthThrottledAfter (scope_text scope) cid until job_id) d1
           in (raise_if_auth_wait healthy e1 d2, d2))"

text \<open>The \<open>except\<close> clauses of a run, and of the refresh before it.\<close>

definition handle_failure ::
    "handler_fault \<Rightarrow> nat \<Rightarrow> cred_row option \<Rightarrow> string option \<Rightarrow> exn \<Rightarrow> db \<Rightarrow> exn \<times> db" where
  "handle_failure fault job_id credential scope e d =
     (if x_class e = ''TransientAuthError'' then handle_transient_auth fault job_id credential scope e d
      else if x_class e = ''UsageLimitError'' then handle_usage_limit fault job_id credential scope e d
      else if x_class e = ''AuthenticationError'' then handle_auth_failure fault job_id credential scope e d
      else (e, d))"

section \<open>The refresh before a run\<close>

text \<open>
  \<open>refresh\<close> is \<open>WorkspaceAdapter.refresh_credentials\<close> with what it commits. An exception that is none
  of the three credential failures costs the speed-up only.
\<close>

definition credential_failure :: "exn \<Rightarrow> bool" where
  "credential_failure e \<longleftrightarrow> x_class e \<in> set OTHER_TOKEN_ERRORS"

definition refresh_continue ::
    "(cred_row \<Rightarrow> bool) \<Rightarrow> cred_row \<Rightarrow> string \<Rightarrow> held_leases \<Rightarrow> bool \<Rightarrow> db
      \<Rightarrow> (exn + (cred_row \<times> bool)) \<times> held_leases \<times> db" where
  "refresh_continue imminent credential owner held refreshed d =
     (case find_cred (k_id credential) d of
        None \<Rightarrow> (Inl (plain_exn ''RuntimeError'' ''credential became ineligible during refresh''), held, d)
      | Some current \<Rightarrow>
          if \<not> k_enabled current \<or> k_status current \<noteq> CredOk
          then (Inl (plain_exn ''RuntimeError'' ''credential became ineligible during refresh''), held, d)
          else if refreshed \<and> \<not> imminent current
          then (Inr (current, False), held, snd (release_credential_lease (k_id current) owner d))
          else (Inr (current, True), dict_put (owner, k_id current) held, d))"

definition refresh_claimed_credential ::
    "(cred_row \<Rightarrow> db \<Rightarrow> (exn + bool) \<times> db) \<Rightarrow> (cred_row \<Rightarrow> bool) \<Rightarrow> handler_fault \<Rightarrow> nat \<Rightarrow> string option
      \<Rightarrow> cred_row \<Rightarrow> string \<Rightarrow> held_leases \<Rightarrow> db \<Rightarrow> (exn + (cred_row \<times> bool)) \<times> held_leases \<times> db" where
  "refresh_claimed_credential refresh imminent fault job_id scope credential owner held d =
     (case refresh credential d of (outcome, d1) \<Rightarrow>
        (case outcome of
           Inl e \<Rightarrow> if credential_failure e
                    then (let (e', d2) = handle_failure fault job_id (Some credential) scope e d1
                          in (Inl e', held, d2))
                    else refresh_continue imminent credential owner held False d1
         | Inr refreshed \<Rightarrow> refresh_continue imminent credential owner held refreshed d1))"

section \<open>One retry after a crash\<close>

text \<open>
  \<open>call\<close> runs the agent, \<open>again\<close> resumes its session; \<open>readable\<close> is false when the read of the job's
  status fails.
\<close>

definition execute_with_one_retry ::
    "runner_ask \<Rightarrow> string option \<Rightarrow> nat \<Rightarrow> bool \<Rightarrow> bool \<Rightarrow> (db \<Rightarrow> (exn + 'r) \<times> db)
      \<Rightarrow> (string \<Rightarrow> db \<Rightarrow> (exn + 'r) \<times> db) \<Rightarrow> db \<Rightarrow> (exn + 'r) \<times> db" where
  "execute_with_one_retry ask runner_ref job_id can_resume readable call again d =
     (case call d of
        (Inr r, d1) \<Rightarrow> (Inr r, d1)
      | (Inl e, d1) \<Rightarrow>
          if x_class e = ''RuntimeError'' \<and> truthy (x_session e) \<and> can_resume
             \<and> readable \<and> still_running job_id d1 \<and> run_alive ask runner_ref (job_tag job_id) = RunDead
          then again (the (x_session e)) d1
          else (Inl e, d1))"

section \<open>Leases of the process\<close>

definition renew_leases :: "bool \<Rightarrow> held_leases \<Rightarrow> db \<Rightarrow> db" where
  "renew_leases conn_ok held d =
     (if held = [] \<or> \<not> conn_ok then d
      else snd (renew_credential_leases (map fst held) DEFAULT_LEASE_TTL_SECONDS d))"

text \<open>
  The end of a run: \<open>capture\<close> persists what the CLI rotated and reports whether it did (\<open>None\<close> when
  there is no HOME; false when it raises), \<open>heals\<close> is false when the self-heal raises, \<open>committed\<close>
  when the transaction is. The first component says that a rotation happened without a lease.
\<close>

definition finish_credential_lifecycle ::
    "bool \<Rightarrow> (cred_row \<Rightarrow> db \<Rightarrow> bool \<times> db) option \<Rightarrow> bool \<Rightarrow> cred_row option \<Rightarrow> string option \<Rightarrow> bool
      \<Rightarrow> string option \<Rightarrow> bool \<Rightarrow> held_leases \<Rightarrow> db \<Rightarrow> bool \<times> held_leases \<times> db" where
  "finish_credential_lifecycle committed capture heals credential harness success owner leased held d =
     (let held' = (if truthy owner then filter (\<lambda>x. fst x \<noteq> the owner) held else held) in
      case (credential, harness) of
        (Some k, Some h) \<Rightarrow>
          (let (rotated, d1) = (case capture of None \<Rightarrow> (False, d) | Some f \<Rightarrow> f k d);
               d2 = (if success \<and> heals then snd (clear_auto_credential_error (k_id k) d1) else d1);
               d3 = (if truthy owner then snd (release_credential_lease (k_id k) (the owner) d2) else d2)
           in (rotated \<and> \<not> leased, held', if committed then d3 else d))
      | _ \<Rightarrow> (False, held', d))"

section \<open>A failure costs the credential, not the job\<close>

lemma handler_dispatch [simp]:
  "creds (dispatch ev d) = creds d" "now_us (dispatch ev d) = now_us d" "jobs (dispatch ev d) = jobs d"
  by (simp_all add: dispatch_def)

definition sidelined :: "nat \<Rightarrow> db \<Rightarrow> bool" where
  "sidelined i d \<longleftrightarrow> (\<forall>k \<in> set (creds d). k_id k = i \<longrightarrow> \<not> (usable d k \<and> unthrottled d k))"

lemma sidelined_candidate: "sidelined i d \<Longrightarrow> k \<in> set (creds d) \<Longrightarrow> candidate s c d k \<Longrightarrow> k_id k \<noteq> i"
  by (auto simp: sidelined_def candidate_def)

lemma eligible_now: "now_us d' = now_us d \<Longrightarrow> usable d' k = usable d k \<and> unthrottled d' k = unthrottled d k"
  by (simp only: usable_def unthrottled_def)

lemma sidelined_cong: "now_us d' = now_us d \<Longrightarrow> creds d' = creds d \<Longrightarrow> sidelined i d' = sidelined i d"
proof -
  assume h: "now_us d' = now_us d" "creds d' = creds d"
  show ?thesis by (simp add: sidelined_def eligible_now [OF h(1)] h(2))
qed

lemma sidelined_update:
  assumes "\<And>k. \<not> (usable d (f k) \<and> unthrottled d (f k))"
  shows "sidelined i (update_creds (\<lambda>k. k_id k = i) f d)"
proof -
  have "\<not> (usable d k \<and> unthrottled d k)"
    if k: "k \<in> set (update_where (\<lambda>k. k_id k = i) f (creds d))" "k_id k = i" for k
  proof -
    obtain q where "k = (if k_id q = i then f q else q)" using k(1) by (auto simp: in_update_where)
    with k(2) assms show ?thesis by (cases "k_id q = i") auto
  qed
  then show ?thesis by (simp add: sidelined_def eligible_now [of "update_creds _ _ d" d])
qed

lemma marked_sidelined: "sidelined i (snd (mark_credential_error i m Auto d))"
  unfolding mark_credential_error_def snd_set_cred
  by (rule sidelined_update) (simp add: usable_def error_row_def)

lemma throttled_sidelined:
  assumes "now_s d < stored_ts until"
  shows "sidelined i (snd (throttle_credential i until d))"
  unfolding throttle_credential_def snd_set_cred
  using assms by (intro sidelined_update) (simp add: unthrottled_def throttled_row_def)

definition not_yet :: "exn \<Rightarrow> db \<Rightarrow> bool" where
  "not_yet e d \<longleftrightarrow> (case x_reset_at e of None \<Rightarrow> True | Some t \<Rightarrow> now_s d < stored_ts t)"

lemma now_s_before: "0 < t \<Longrightarrow> now_s d < stored_ts (now_us d + usec t)"
  using sql_now_le_stored [of "now_us d"] stored_ts_plus [of "now_us d" t] by (simp add: mult.commute)

lemma sidelined_dispatch [simp]: "sidelined i (dispatch ev d) = sidelined i d"
  by (rule sidelined_cong) simp_all

lemma other_token_classes:
  "c \<in> set OTHER_TOKEN_ERRORS \<longleftrightarrow> c = ''AuthenticationError'' \<or> c = ''UsageLimitError'' \<or> c = ''TransientAuthError''"
  by (auto simp: OTHER_TOKEN_ERRORS_def)

lemma handled_sidelined:
  assumes "x_class e \<in> set OTHER_TOKEN_ERRORS" "fault \<noteq> NoDb" "not_yet e d"
    and "failed_credential e credential = Some i"
  shows "sidelined i (snd (handle_failure fault job_id credential scope e d))"
proof -
  have auth: "sidelined i (snd (handle_auth_failure fault job_id credential scope e d))"
    using assms(2,4) marked_sidelined by (simp add: handle_auth_failure_def Let_def with_credential_def)
  have usage: "sidelined i (snd (handle_usage_limit fault job_id credential scope e d))"
    using assms(2,3,4) throttled_sidelined [of d _ i] now_s_before [of DEFAULT_LIMIT_THROTTLE d]
    by (auto simp: handle_usage_limit_def Let_def with_credential_def not_yet_def DEFAULT_LIMIT_THROTTLE_def
        split: option.splits)
  have trans: "sidelined i (snd (handle_transient_auth fault job_id credential scope e d))"
    using auth assms(2,4) throttled_sidelined [of d _ i] now_s_before [of DEFAULT_TRANSIENT_AUTH_THROTTLE d]
    by (simp add: handle_transient_auth_def Let_def with_credential_def DEFAULT_TRANSIENT_AUTH_THROTTLE_def)
  show ?thesis
    using assms(1) auth usage trans by (auto simp: handle_failure_def other_token_classes)
qed

text \<open>What the error says about the pool after a handler that worked.\<close>

definition pool_answer :: "exn \<Rightarrow> exn \<Rightarrow> bool" where
  "pool_answer e e' \<longleftrightarrow> x_verdict e' = x_verdict e \<and>
     (x_class e' = x_class e \<and> x_other_token e'
      \<or> x_class e' = ''CredentialsUnavailableError'' \<and> x_pool_retry_at e' \<noteq> None \<and> x_verdict e' = None
      \<or> x_class e' = ''UsageLimitError'' \<and> x_pool_retry_at e' \<noteq> None)"

lemma handled_answer:
  assumes "x_class e \<in> set OTHER_TOKEN_ERRORS" "x_verdict e = None"
  shows "pool_answer e (fst (handle_failure Works job_id credential scope e d))"
proof -
  have auth: "pool_answer e (fst (handle_auth_failure Works job_id credential scope e d))"
    using assms(2) by (simp add: handle_auth_failure_def Let_def pool_answer_def raise_if_auth_wait_def plain_exn_def)
  have trans: "pool_answer e (fst (handle_transient_auth Works job_id credential scope e d))"
  proof (cases "rotatable credential")
    case True
    with assms(2) show ?thesis
      by (simp add: handle_transient_auth_def Let_def pool_answer_def raise_if_auth_wait_def plain_exn_def)
  next
    case False
    with auth show ?thesis by (simp add: handle_transient_auth_def)
  qed
  have usage: "x_class e = ''UsageLimitError''
      \<Longrightarrow> pool_answer e (fst (handle_usage_limit Works job_id credential scope e d))"
    using assms(2) by (simp add: handle_usage_limit_def Let_def pool_answer_def)
  show ?thesis
    using assms(1) auth usage trans by (auto simp: handle_failure_def other_token_classes)
qed


text \<open>
  A provider that needs no credential has no scope, and no credential counts as healthy for it: an
  authentication error of its run becomes a wait for a credential that nobody can add.
\<close>

lemma scopeless_refusal_waits:
  "fst (handle_auth_failure Works job_id None None e d)
     = (plain_exn ''CredentialsUnavailableError'' ''No healthy credential left'')
         \<lparr>x_pool_retry_at := Some (auth_wait_retry_at d), x_agent_output := x_agent_output e\<rparr>"
  by (simp add: handle_auth_failure_def Let_def healthy_in_scope_def raise_if_auth_wait_def
      auth_wait_retry_at_def with_credential_def failed_credential_def mark_credential_error_def
      split: option.splits)

definition sample_refusal :: exn where
  "sample_refusal = (plain_exn ''AuthenticationError'' ''401'')\<lparr>x_credential := Some 1\<rparr>"


end
