(* ===== verification/Run_Job.thy ===== *)
theory Run_Job
  imports Agent_Runtime Run_Credentials Credential_Properties
begin

text \<open>
  One run of a claimed job: \<open>Consumer._run_job\<close> and \<open>Consumer._execute_job\<close>, over the operations of
  the other theories. The answers of everything outside the database are the record \<open>run_world\<close>: the
  harness adapters, the provider of execution ids, the workspace on disk, the configuration reads and
  the agent itself, whose run is the list of what it reported and of what others committed meanwhile.
\<close>

section \<open>What a run is given\<close>

record raw_result =
  rr_output :: string
  rr_input :: "nat option"
  rr_output_tokens :: "nat option"
  rr_session :: "string option"
  rr_harness :: "string option"
  rr_model :: "string option"
  rr_prompt :: "string option"
  rr_stats :: string

datatype observed =
    SawPid nat "string option"
  | SawSession string
  | SawReference string
  | Meanwhile "db \<Rightarrow> db"

datatype agent_call = ResumeCall string | WorkflowCall "string option"

record run_profile =
  rp_harness :: "string option"
  rp_provider :: string
  rp_model :: "string option"
  rp_credential :: "nat option"

text \<open>
  A field of type \<open>exn option\<close> is a step that touches nothing of the model and may raise:
  \<open>w_config\<close> the reads of the core configuration, \<open>w_identity\<close> the SSH identity, \<open>w_setup\<close> what lies
  between the workspace and the run, \<open>w_context\<close> the run context, \<open>w_workflow\<close> the workflow with its
  configuration. The workspace, given the sessions to copy in, says whether the run has a HOME of its
  own; \<open>w_finder\<close> is the adapter's \<open>session_file\<close>, \<open>None\<close> when it has no such member.
\<close>

record run_world =
  w_reg :: harness_registry
  w_env :: cfg_env
  w_conn :: run_conn
  w_model :: "string option"
  w_channel :: "exn option"
  w_ttl_of :: "cred_row \<Rightarrow> int option"
  w_timeout :: nat
  w_pinned :: "nat option"
  w_sleeps :: "(db \<Rightarrow> db) list"
  w_config :: "exn option"
  w_refresh :: "cred_row \<Rightarrow> db \<Rightarrow> (exn + bool) \<times> db"
  w_fault :: handler_fault
  w_mint :: "run_profile \<Rightarrow> exn + string option"
  w_auth :: auth_config
  w_test :: bool
  w_sha :: "string \<Rightarrow> string"
  w_mcp :: string
  w_rest :: string
  w_identity :: "exn option"
  w_seam :: "(nat \<Rightarrow> nat \<Rightarrow> string option) option"
  w_workspace :: "string list \<Rightarrow> exn + bool"
  w_setup :: "exn option"
  w_context :: "exn option"
  w_ask :: runner_ask
  w_finder :: "(string \<Rightarrow> bool option) option"
  w_workflow :: "exn option"
  w_agent :: "agent_call \<Rightarrow> observed list \<times> (exn + raw_result)"
  w_readable :: bool
  w_commits :: bool
  w_capture :: "cred_row \<Rightarrow> db \<Rightarrow> bool \<times> db"
  w_heals :: bool

text \<open>The variables of \<open>_run_job\<close> that its \<open>finally\<close> reads.\<close>

record run_locals =
  lo_job :: job
  lo_harness :: "string option"
  lo_credential :: "cred_row option"
  lo_owner :: "string option"
  lo_leased :: bool
  lo_home :: bool
  lo_success :: bool

definition start_locals :: "job \<Rightarrow> run_locals" where
  "start_locals job = \<lparr>lo_job = job, lo_harness = None, lo_credential = None, lo_owner = None,
     lo_leased = False, lo_home = False, lo_success = False\<rparr>"

section \<open>The runtime and the credential\<close>

text \<open>The freshness horizon of the consumer's resolver, in seconds.\<close>

definition refresh_horizon :: "run_world \<Rightarrow> int" where
  "refresh_horizon w = int (w_timeout w) + 900"

definition run_provider :: "harness_registry \<Rightarrow> agent_runtime \<Rightarrow> harness_error + (registered \<times> provider)" where
  "run_provider reg rt =
     (case ar_harness rt of
        None \<Rightarrow> Inl (UnknownHarness [])
      | Some h \<Rightarrow>
          (case get_harness reg h of
             Inl e \<Rightarrow> Inl e
           | Inr entry \<Rightarrow>
               (case ar_provider rt of
                  None \<Rightarrow> Inl (ProviderNotOffered h [])
                | Some p \<Rightarrow> map_sum id (Pair entry) (resolve_provider reg h p))))"

text \<open>No row has the scope \<open>NULL\<close>.\<close>

definition resolve_for_provider ::
    "run_world \<Rightarrow> provider \<Rightarrow> string \<Rightarrow> db \<Rightarrow> (exn + cred_row option) \<times> db" where
  "resolve_for_provider w pv owner d =
     (if \<not> pv_required pv then (Inr None, d)
      else case pv_scope pv of
        None \<Rightarrow> (Inl (resolve_exn (case w_pinned w of
                        Some i \<Rightarrow> PinnedNotUsable i | None \<Rightarrow> CredentialsUnavailable (auth_wait_retry_at d))), d)
      | Some s \<Rightarrow>
          (case resolve (w_ttl_of w) (refresh_horizon w) CLAIM_LEASE_TTL_SECONDS s (Some owner) (w_pinned w) (w_sleeps w) d of
             (Inl e, d') \<Rightarrow> (Inl (resolve_exn e), d')
           | (Inr k, d') \<Rightarrow> (Inr (Some k), d')))"

definition claim_stage ::
    "run_world \<Rightarrow> job \<Rightarrow> db \<Rightarrow> (exn + (registered \<times> provider)) \<times> run_locals \<times> db" where
  "claim_stage w job d =
     (case resolve_run_runtime (w_reg w) (w_env w) (w_conn w) (w_model w) job d of
        Inl e \<Rightarrow> (Inl (runtime_exn e), start_locals job, d)
      | Inr (rt, job1, d1) \<Rightarrow>
          (let lo = (start_locals job1)\<lparr>lo_harness := ar_harness rt\<rparr> in
           case run_provider (w_reg w) rt of
             Inl e \<Rightarrow> (Inl (runtime_exn (RtHarness e)), lo, d1)
           | Inr (entry, pv) \<Rightarrow>
               (let owner = lease_owner_for_job (j_id job) (j_attempt job);
                    lo1 = lo\<lparr>lo_owner := Some owner\<rparr> in
                case resolve_for_provider w pv owner d1 of
                  (Inl e, d2) \<Rightarrow> (Inl e, lo1, d2)
                | (Inr k, d2) \<Rightarrow>
                    (case w_config w of
                       Some e \<Rightarrow> (Inl e, lo1\<lparr>lo_credential := k\<rparr>, d2)
                     | None \<Rightarrow> (Inr (entry, pv), lo1\<lparr>lo_credential := k\<rparr>, d2)))))"

definition refresh_stage ::
    "run_world \<Rightarrow> provider \<Rightarrow> run_locals \<Rightarrow> held_leases \<Rightarrow> db \<Rightarrow> exn option \<times> run_locals \<times> held_leases \<times> db" where
  "refresh_stage w pv lo owned d =
     (case (lo_credential lo, lo_owner lo) of
        (Some k, Some owner) \<Rightarrow>
          if k_lease_owner k \<noteq> Some owner then (None, lo, owned, d)
          else (case refresh_claimed_credential (w_refresh w) (refresh_imminent (w_ttl_of w) (refresh_horizon w))
                       (w_fault w) (j_id (lo_job lo)) (pv_scope pv) k owner owned d of
                  (Inl e, owned', d') \<Rightarrow> (Some e, lo, owned', d')
                | (Inr (k', leased), owned', d') \<Rightarrow>
                    (None, lo\<lparr>lo_credential := Some k', lo_leased := leased\<rparr>, owned', d'))
      | _ \<Rightarrow> (None, lo, owned, d))"

section \<open>The tokens of the run\<close>

definition issue_exn :: "issue_error \<Rightarrow> exn" where
  "issue_exn e = plain_exn ''ValueError'' ''capability cannot be issued''"

definition run_profile_of :: "provider \<Rightarrow> run_locals \<Rightarrow> run_profile" where
  "run_profile_of pv lo = \<lparr>rp_harness = lo_harness lo, rp_provider = pv_id pv,
     rp_model = j_model (lo_job lo), rp_credential = map_option k_id (lo_credential lo)\<rparr>"

text \<open>An error rolls the transaction back; the job object keeps the id that was minted in it.\<close>

definition mint_stage ::
    "run_world \<Rightarrow> provider \<Rightarrow> run_locals \<Rightarrow> db \<Rightarrow> (exn + run_tokens) \<times> run_locals \<times> db" where
  "mint_stage w pv lo d =
     (case w_mint w (run_profile_of pv lo) of
        Inl e \<Rightarrow> (Inl e, lo, d)
      | Inr execution \<Rightarrow>
          (let job = (lo_job lo)\<lparr>j_execution := execution\<rparr>; lo1 = lo\<lparr>lo_job := job\<rparr> in
           case issue_run_capabilities (w_auth w) (w_test w) (w_sha w) (w_mcp w) (w_rest w) job d of
             Inl e \<Rightarrow> (Inl (issue_exn e), lo1, d)
           | Inr (toks, d') \<Rightarrow> (Inr toks, lo1, d')))"

fun secrets_of :: "run_tokens \<Rightarrow> string option list" where
  "secrets_of (Tokens m r) = [Some m, r]"
| "secrets_of _ = [None, None]"

section \<open>The agent\<close>

definition session_missing :: "(string \<Rightarrow> bool option) option \<Rightarrow> bool \<Rightarrow> string \<Rightarrow> bool" where
  "session_missing finder home session \<longleftrightarrow>
     (case finder of None \<Rightarrow> False | Some f \<Rightarrow> home \<and> f session = Some False)"

fun observe :: "nat \<Rightarrow> observed list \<Rightarrow> db \<Rightarrow> db" where
  "observe job_id [] d = d"
| "observe job_id (SawPid pid ref # os) d = observe job_id os (save_pid job_id pid ref d)"
| "observe job_id (SawSession s # os) d = observe job_id os (save_session_id job_id s d)"
| "observe job_id (SawReference r # os) d = observe job_id os (update_job_reference_id job_id r d)"
| "observe job_id (Meanwhile f # os) d = observe job_id os (f d)"

fun session_seen :: "observed list \<Rightarrow> string option \<Rightarrow> string option" where
  "session_seen [] s = s"
| "session_seen (SawSession s' # os) s = session_seen os (Some s')"
| "session_seen (_ # os) s = session_seen os s"

fun ref_seen :: "observed list \<Rightarrow> string option \<Rightarrow> string option" where
  "ref_seen [] r = r"
| "ref_seen (SawPid pid r' # os) r = ref_seen os r'"
| "ref_seen (_ # os) r = ref_seen os r"

text \<open>A call of the agent: its result comes with the session the job object has afterwards.\<close>

definition play ::
    "run_world \<Rightarrow> nat \<Rightarrow> string option \<Rightarrow> agent_call \<Rightarrow> db \<Rightarrow> (exn + (raw_result \<times> string option)) \<times> db" where
  "play w job_id session call d =
     (case w_agent w call of
        (os, out) \<Rightarrow> (map_sum id (\<lambda>r. (r, session_seen os session)) out, observe job_id os d))"

definition run_agent ::
    "run_world \<Rightarrow> job \<Rightarrow> bool \<Rightarrow> agent_call \<Rightarrow> db \<Rightarrow> (exn + (raw_result \<times> string option)) \<times> db" where
  "run_agent w job can_resume call d =
     (let os = fst (w_agent w call) in
      execute_with_one_retry (w_ask w) (ref_seen os None) (j_id job) can_resume (w_readable w)
        (play w (j_id job) (j_session job) call)
        (\<lambda>s. play w (j_id job) (session_seen os (j_session job)) (ResumeCall s)) d)"

definition from_run_result :: "raw_result \<Rightarrow> string \<Rightarrow> run_result" where
  "from_run_result r summary =
     \<lparr>u_summary = summary, u_agent_type = rr_harness r, u_model = rr_model r, u_input = rr_input r,
      u_output_tokens = rr_output_tokens r, u_prompt = rr_prompt r, u_output = Some (rr_output r),
      u_session = rr_session r\<rparr>"

definition redacted :: "string option list \<Rightarrow> run_result \<Rightarrow> run_result" where
  "redacted secrets u =
     u\<lparr>u_summary := (case redact_secret secrets (Some (u_summary u)) of None \<Rightarrow> [] | Some s \<Rightarrow> s),
       u_prompt := redact_secret secrets (u_prompt u), u_output := redact_secret secrets (u_output u)\<rparr>"

definition session_text :: "string option \<Rightarrow> string" where
  "session_text s = (case s of None \<Rightarrow> ''None'' | Some t \<Rightarrow> t)"

definition resume_summary :: "raw_result \<Rightarrow> string option \<Rightarrow> run_result" where
  "resume_summary r session =
     from_run_result (r\<lparr>rr_prompt := Some (''[RESUME] session_id='' @ session_text session)\<rparr>)
       (''resumed session_id='' @ session_text session @ '' '' @ rr_stats r)"

definition workflow_summary :: "raw_result \<Rightarrow> run_result" where
  "workflow_summary r =
     from_run_result r
       (if rr_input r = None \<and> rr_output r \<noteq> [] then rr_output r
        else ''session_id='' @ (if truthy (rr_session r) then the (rr_session r) else ''?'') @ '' '' @ rr_stats r)"

text \<open>The body of the inner \<open>try\<close>: resume the job's own session, or run its workflow.\<close>

definition run_inner ::
    "run_world \<Rightarrow> registered \<Rightarrow> string option list \<Rightarrow> string option \<Rightarrow> run_locals \<Rightarrow> db
      \<Rightarrow> (exn + run_result) \<times> db" where
  "run_inner w entry secrets line_sid lo d =
     (case w_context w of
        Some e \<Rightarrow> (Inl e, d)
      | None \<Rightarrow>
          (let job = lo_job lo;
               can_resume = cap_resume (ds_caps (rh_descriptor entry));
               pid_alive = (j_pid job \<noteq> None
                 \<and> run_alive (w_ask w) (j_runner job) (job_tag (j_id job)) \<noteq> RunDead);
               present = (case j_session job of
                 None \<Rightarrow> True | Some s \<Rightarrow> \<not> session_missing (w_finder w) (lo_home lo) s)
           in if should_resume (j_attempt job) (j_session job) pid_alive can_resume present
              then (case run_agent w job True (ResumeCall (the (j_session job))) d of
                      (Inl e, d') \<Rightarrow> (Inl e, d')
                    | (Inr (r, session), d') \<Rightarrow> (Inr (redacted secrets (resume_summary r session)), d'))
              else case w_workflow w of
                Some e \<Rightarrow> (Inl e, d)
              | None \<Rightarrow>
                  (let resume = (if truthy line_sid \<and> session_missing (w_finder w) (lo_home lo) (the line_sid)
                                 then None else line_sid) in
                   case run_agent w job can_resume (WorkflowCall resume) d of
                     (Inl e, d') \<Rightarrow> (Inl e, d')
                   | (Inr (r, session), d') \<Rightarrow> (Inr (redacted secrets (workflow_summary r)), d'))))"

section \<open>The run\<close>

definition guarded_run ::
    "run_world \<Rightarrow> registered \<Rightarrow> provider \<Rightarrow> string option list \<Rightarrow> string option \<Rightarrow> run_locals \<Rightarrow> db
      \<Rightarrow> (exn + run_result) \<times> run_locals \<times> db" where
  "guarded_run w entry pv secrets line_sid lo d =
     (let job = lo_job lo;
          start = AgentViewRunStartBefore (j_id job) (lo_harness lo) (pv_id pv) (j_model job);
          finish = (\<lambda>ok. AgentViewRunFinishAfter (j_id job) (lo_harness lo) (pv_id pv) (j_model job) ok);
          d1 = dispatch start d
      in case w_setup w of
           Some e \<Rightarrow> (Inl e, lo, d1)
         | None \<Rightarrow>
             (case run_inner w entry secrets line_sid lo d1 of
                (Inr r, d2) \<Rightarrow> (Inr r, lo\<lparr>lo_success := True\<rparr>, dispatch (finish True) d2)
              | (Inl e, d2) \<Rightarrow>
                  (let (e', d3) = handle_failure (w_fault w) (j_id job) (lo_credential lo) (pv_scope pv)
                                    (redact_exception secrets e) d2
                   in (Inl e', lo, dispatch (finish False) d3))))"

definition prepare_stage ::
    "run_world \<Rightarrow> registered \<Rightarrow> provider \<Rightarrow> string option list \<Rightarrow> run_locals \<Rightarrow> db
      \<Rightarrow> (exn + run_result) \<times> run_locals \<times> db" where
  "prepare_stage w entry pv secrets lo d =
     (case w_identity w of
        Some e \<Rightarrow> (Inl e, lo, d)
      | None \<Rightarrow>
          (let job = lo_job lo;
               line_sid = (if cap_resume (ds_caps (rh_descriptor entry))
                           then resume_session (w_seam w) job (lo_harness lo) d else None);
               retry_sid = (if 1 < j_attempt job then j_session job else None);
               sids = map the (filter truthy [retry_sid, line_sid])
           in case w_workspace w sids of
                Inl e \<Rightarrow> (Inl (redact_exception secrets e), lo, d)
              | Inr home \<Rightarrow> guarded_run w entry pv secrets line_sid (lo\<lparr>lo_home := home\<rparr>) d))"

text \<open>The body of the outer \<open>try\<close>. \<open>Inr None\<close> is a job that was no longer running at the mint.\<close>

definition run_body ::
    "run_world \<Rightarrow> held_leases \<Rightarrow> job \<Rightarrow> db \<Rightarrow> (exn + run_result option) \<times> run_locals \<times> held_leases \<times> db" where
  "run_body w owned job d =
     (case claim_stage w job d of
        (Inl e, lo, d1) \<Rightarrow> (Inl e, lo, owned, d1)
      | (Inr (entry, pv), lo, d1) \<Rightarrow>
     (case refresh_stage w pv lo owned d1 of
        (Some e, lo1, owned1, d2) \<Rightarrow> (Inl e, lo1, owned1, d2)
      | (None, lo1, owned1, d2) \<Rightarrow>
     (case mint_stage w pv lo1 d2 of
        (Inl e, lo2, d3) \<Rightarrow> (Inl e, lo2, owned1, d3)
      | (Inr toks, lo2, d3) \<Rightarrow>
          if toks = NotRunnable then (Inr None, lo2, owned1, d3)
          else let job2 = lo_job lo2;
                   d4 = dispatch (ExecutionStartAfter (j_execution job2) (j_id job2) (j_attempt job2)) d3;
                   (out, lo3, d5) = prepare_stage w entry pv (secrets_of toks) lo2 d4
               in (map_sum id Some out, lo3, owned1, d5))))"

definition finish_run ::
    "run_world \<Rightarrow> run_locals \<Rightarrow> held_leases \<Rightarrow> db \<Rightarrow> bool \<times> held_leases \<times> db" where
  "finish_run w lo owned d =
     finish_credential_lifecycle (w_commits w) (if lo_home lo then Some (w_capture w) else None) (w_heals w)
       (lo_credential lo) (lo_harness lo) (lo_success lo) (lo_owner lo) (lo_leased lo) owned d"

definition run_job ::
    "run_world \<Rightarrow> held_leases \<Rightarrow> job \<Rightarrow> db \<Rightarrow> (exn + run_result option) \<times> job \<times> held_leases \<times> db" where
  "run_job w owned job d =
     (case w_channel w of
        Some e \<Rightarrow> (Inl e, job, owned, d)
      | None \<Rightarrow>
          (let (out, lo, owned1, d1) = run_body w owned job d;
               (unleased_rotation, owned2, d2) = finish_run w lo owned1 d1
           in (out, lo_job lo, owned2, d2)))"

definition execute_job ::
    "run_world \<Rightarrow> held_leases \<Rightarrow> verdict option \<Rightarrow> db_try list \<Rightarrow> job \<Rightarrow> db \<Rightarrow> held_leases \<times> db" where
  "execute_job w owned veto tries job d =
     (let (out, job', owned', d1) = run_job w owned job (dispatch (WorkerStartAfter (j_id job)) d);
          error = (case out of Inl e \<Rightarrow> Some e | Inr r \<Rightarrow> None);
          res = (case out of Inl e \<Rightarrow> None | Inr r \<Rightarrow> r)
      in (owned', dispatch (WorkerStopAfter (j_id job)) (finalize_job job' error res veto tries d1)))"

section \<open>The lease of a run\<close>

text \<open>The credentials leased to an owner. What others commit never leases to it: it names a job and an attempt.\<close>

definition lease_ids :: "string \<Rightarrow> db \<Rightarrow> nat set" where
  "lease_ids owner d = k_id ` {k \<in> set (creds d). k_lease_owner k = Some owner}"

definition spares :: "string \<Rightarrow> (db \<Rightarrow> db) \<Rightarrow> bool" where
  "spares owner f \<longleftrightarrow> (\<forall>d. lease_ids owner (f d) \<subseteq> lease_ids owner d)"

definition world_spares :: "string \<Rightarrow> run_world \<Rightarrow> bool" where
  "world_spares owner w \<longleftrightarrow>
     (\<forall>f \<in> set (w_sleeps w). spares owner f)
     \<and> (\<forall>k. spares owner (snd \<circ> w_refresh w k)) \<and> (\<forall>k. spares owner (snd \<circ> w_capture w k))
     \<and> (\<forall>call f. Meanwhile f \<in> set (fst (w_agent w call)) \<longrightarrow> spares owner f)"

lemma lease_ids_cong: "creds d' = creds d \<Longrightarrow> lease_ids owner d' = lease_ids owner d"
  by (simp add: lease_ids_def)

lemma leased_update:
  assumes "j \<in> lease_ids owner (update_creds p f d)"
  obtains q where "q \<in> set (creds d)" "j = k_id (if p q then f q else q)"
    "k_lease_owner (if p q then f q else q) = Some owner"
proof -
  obtain k where k: "k \<in> set (update_where p f (creds d))" "k_lease_owner k = Some owner" "j = k_id k"
    using assms by (auto simp: lease_ids_def update_creds_def)
  obtain q where "q \<in> set (creds d)" "k = (if p q then f q else q)" using k(1) by (auto simp: in_update_where)
  with k that show thesis by simp
qed

lemma leasedI: "q \<in> set (creds d) \<Longrightarrow> k_lease_owner q = Some owner \<Longrightarrow> k_id q \<in> lease_ids owner d"
  by (auto simp: lease_ids_def)

lemma lease_ids_update:
  assumes "\<And>k. p k \<Longrightarrow> k_id (f k) = k_id k"
    and "\<And>k. p k \<Longrightarrow> k_lease_owner (f k) = Some owner \<Longrightarrow> k_lease_owner k = Some owner"
  shows "lease_ids owner (update_creds p f d) \<subseteq> lease_ids owner d"
proof
  fix j assume "j \<in> lease_ids owner (update_creds p f d)"
  then show "j \<in> lease_ids owner d"
    by (rule leased_update) (use assms in \<open>auto intro: leasedI split: if_splits\<close>)
qed

lemma mark_spares: "lease_ids owner (snd (mark_credential_error i m src d)) \<subseteq> lease_ids owner d"
  unfolding mark_credential_error_def snd_set_cred
  by (rule lease_ids_update) (simp_all add: error_row_def touch_def)

lemma throttle_spares: "lease_ids owner (snd (throttle_credential i u d)) \<subseteq> lease_ids owner d"
  unfolding throttle_credential_def snd_set_cred
  by (rule lease_ids_update) (simp_all add: throttled_row_def touch_def)

lemma clear_auto_spares: "lease_ids owner (snd (clear_auto_credential_error i d)) \<subseteq> lease_ids owner d"
  unfolding clear_auto_credential_error_def snd_set_cred
  by (rule lease_ids_update) (simp_all add: cleared_row_def touch_def)

lemma dispatch_lease_ids [simp]: "lease_ids owner (dispatch e d) = lease_ids owner d"
  by (rule lease_ids_cong) simp

lemma with_credential_spares:
  "(\<And>i. lease_ids owner (snd (f i d)) \<subseteq> lease_ids owner d) \<Longrightarrow> lease_ids owner (with_credential cid f d) \<subseteq> lease_ids owner d"
  by (cases cid) (simp_all add: with_credential_def)

lemma handled_spares: "lease_ids owner (snd (handle_failure fault j k s e d)) \<subseteq> lease_ids owner d"
proof -
  note w = with_credential_spares [where f = "\<lambda>i. mark_credential_error i _ _", OF mark_spares]
    with_credential_spares [where f = "\<lambda>i. throttle_credential i _", OF throttle_spares]
  have auth: "lease_ids owner (snd (handle_auth_failure fault j k s e d)) \<subseteq> lease_ids owner d"
    by (simp add: handle_auth_failure_def Let_def w)
  have usage: "lease_ids owner (snd (handle_usage_limit fault j k s e d)) \<subseteq> lease_ids owner d"
    by (simp add: handle_usage_limit_def Let_def w)
  have trans: "lease_ids owner (snd (handle_transient_auth fault j k s e d)) \<subseteq> lease_ids owner d"
    using auth by (simp add: handle_transient_auth_def Let_def w)
  show ?thesis using auth usage trans by (simp add: handle_failure_def)
qed

lemma release_lease_ids: "lease_ids owner (snd (release_credential_lease i owner d)) \<subseteq> lease_ids owner d - {i}"
proof -
  let ?d = "update_creds (\<lambda>k. k_id k = i \<and> k_lease_owner k = Some owner) (\<lambda>k. touch d (unleased_row k)) d"
  have c: "creds (snd (release_credential_lease i owner d)) = creds ?d"
    by (simp add: release_credential_lease_def set_cred_def Let_def)
  have "lease_ids owner ?d \<subseteq> lease_ids owner d - {i}"
  proof
    fix j assume "j \<in> lease_ids owner ?d"
    then show "j \<in> lease_ids owner d - {i}"
      by (rule leased_update) (auto simp: unleased_row_def touch_def intro: leasedI split: if_splits)
  qed
  then show ?thesis using lease_ids_cong [OF c] by simp
qed

lemma claim_lease_ids:
  assumes "select_credential scope lease cid d = (k, d')"
  shows "lease_ids owner d' \<subseteq> k_id ` set_option k \<union> lease_ids owner d"
proof (cases "best pool_before (filter (candidate scope cid d) (creds d))")
  case None
  with assms show ?thesis by (simp add: select_credential_def)
next
  case (Some c)
  let ?f = "auto_touch (claimed_row (lease_taken lease c) d) d"
  have r: "k = Some (?f c)" "d' = update_creds (\<lambda>r. k_id r = k_id c) ?f d"
    using assms Some by (auto simp: select_credential_def Let_def)
  show ?thesis
  proof
    fix j assume "j \<in> lease_ids owner d'"
    then obtain q where q: "q \<in> set (creds d)" "j = k_id (if k_id q = k_id c then ?f q else q)"
      "k_lease_owner (if k_id q = k_id c then ?f q else q) = Some owner"
      unfolding r(2) by (rule leased_update)
    show "j \<in> k_id ` set_option k \<union> lease_ids owner d"
    proof (cases "k_id q = k_id c")
      case True
      then have "j = k_id (?f c)" using q(2) by (simp add: claimed.same_id)
      with r(1) show ?thesis by simp
    next
      case False
      with q show ?thesis by (auto intro: leasedI)
    qed
  qed
qed

lemma resolve_lease_ids:
  assumes "resolve_rounds scope lease cid sleeps d = (r, d')" "\<forall>f \<in> set sleeps. spares owner f"
  shows "lease_ids owner d' \<subseteq> (case r of Inl e \<Rightarrow> {} | Inr k \<Rightarrow> {k_id k}) \<union> lease_ids owner d"
  using assms
proof (induction sleeps arbitrary: d)
  case Nil
  then show ?case
    using claim_lease_ids [of scope lease cid d _ _ owner]
    unfolding resolve_rounds.simps [of scope lease cid "[]" d]
    by (fastforce simp: Let_def split: prod.splits option.splits if_splits)
next
  case (Cons f sleeps)
  show ?case
  proof (cases "select_credential scope lease cid d")
    case (Pair k d1)
    note cl = claim_lease_ids [OF Pair, of owner]
    have run: "resolve_rounds scope lease cid (f # sleeps) d = (r, d')" by (rule Cons.prems)
    show ?thesis
    proof (cases k)
      case (Some c)
      with run Pair have "r = Inr c" "d' = d1"
        unfolding resolve_rounds.simps [of scope lease cid "f # sleeps" d] by simp_all
      with cl Some show ?thesis by simp
    next
      case None
      have "d' = d1 \<and> (\<exists>e. r = Inl e) \<or> resolve_rounds scope lease cid sleeps (f d1) = (r, d')"
        using run Pair None unfolding resolve_rounds.simps [of scope lease cid "f # sleeps" d]
        by (auto simp: Let_def split: option.splits prod.splits if_splits)
      moreover have "lease_ids owner (f d1) \<subseteq> lease_ids owner d1"
        using Cons.prems(2) by (simp add: spares_def)
      moreover have "lease_ids owner d1 \<subseteq> lease_ids owner d" using cl None by simp
      ultimately show ?thesis using Cons.IH [of "f d1"] Cons.prems(2) by auto
    qed
  qed
qed

text \<open>Between the stages: at most the run's credential is leased to it, and then the end of the run knows it.\<close>

definition lease_inv :: "string \<Rightarrow> run_locals \<Rightarrow> held_leases \<Rightarrow> db \<Rightarrow> bool" where
  "lease_inv owner lo owned d \<longleftrightarrow> lease_ids owner d \<subseteq> k_id ` set_option (lo_credential lo)
     \<and> (lo_credential lo \<noteq> None \<or> owner \<in> fst ` set owned \<longrightarrow> lo_owner lo = Some owner \<and> lo_harness lo \<noteq> None)
     \<and> (owner \<in> fst ` set owned \<longrightarrow> lo_credential lo \<noteq> None)"

lemma lease_inv_mono:
  "lease_inv owner lo owned d \<Longrightarrow> lease_ids owner d' \<subseteq> lease_ids owner d
    \<Longrightarrow> lo_credential lo' = lo_credential lo \<Longrightarrow> lo_owner lo' = lo_owner lo \<Longrightarrow> lo_harness lo' = lo_harness lo
    \<Longrightarrow> lease_inv owner lo' owned d'"
  by (auto simp: lease_inv_def)

lemma runtime_creds: "resolve_run_runtime reg env conn mo job d = Inr (rt, job', d') \<Longrightarrow> creds d' = creds d"
  by (auto simp: resolve_run_runtime_def map_sum_right split: if_splits sum.splits)

lemma resolved_lease_ids:
  assumes "resolve_for_provider w pv owner d = (r, d')" "world_spares owner w"
  shows "lease_ids owner d' \<subseteq> (case r of Inl e \<Rightarrow> {} | Inr k \<Rightarrow> k_id ` set_option k) \<union> lease_ids owner d"
proof -
  have sl: "\<forall>f \<in> set (w_sleeps w). spares owner f" using assms(2) by (simp add: world_spares_def)
  consider "d' = d" | s q where "resolve (w_ttl_of w) (refresh_horizon w) CLAIM_LEASE_TTL_SECONDS s (Some owner)
      (w_pinned w) (w_sleeps w) d = (q, d')" "r = (case q of Inl e \<Rightarrow> Inl (resolve_exn e) | Inr k \<Rightarrow> Inr (Some k))"
    using assms(1) by (auto simp: resolve_for_provider_def split: if_splits option.splits prod.splits sum.splits)
  then show ?thesis
  proof cases
    case (2 s q)
    show ?thesis using resolve_lease_ids [OF 2(1) [unfolded resolve_def] sl] 2(2) by (cases q) simp_all
  qed simp
qed

lemma claim_stage_lease:
  assumes "claim_stage w job d = (r, lo, d')" "world_spares owner w"
    and "owner = lease_owner_for_job (j_id job) (j_attempt job)"
    and "lease_ids owner d = {}" "owner \<notin> fst ` set owned"
  shows "lease_inv owner lo owned d'"
proof (cases "resolve_run_runtime (w_reg w) (w_env w) (w_conn w) (w_model w) job d")
  case (Inl e)
  with assms show ?thesis by (auto simp: claim_stage_def lease_inv_def start_locals_def)
next
  case (Inr x)
  obtain rt job1 d1 where x: "x = (rt, job1, d1)" by (cases x)
  have d1: "lease_ids owner d1 = {}" using lease_ids_cong [OF runtime_creds [OF Inr [unfolded x]]] assms(4) by simp
  show ?thesis
  proof (cases "run_provider (w_reg w) rt")
    case (Inl e)
    with Inr x assms d1 show ?thesis by (auto simp: claim_stage_def lease_inv_def start_locals_def)
  next
    case provided: (Inr y)
    obtain entry pv where y: "y = (entry, pv)" by (cases y)
    have h: "ar_harness rt \<noteq> None" using provided by (auto simp: run_provider_def split: option.splits)
    obtain r2 d2 where res: "resolve_for_provider w pv owner d1 = (r2, d2)" by (cases "resolve_for_provider w pv owner d1")
    have ids: "lease_ids owner d2 \<subseteq> (case r2 of Inl e \<Rightarrow> {} | Inr k \<Rightarrow> k_id ` set_option k)"
      using resolved_lease_ids [OF res assms(2)] d1 by simp
    have run: "d' = d2 \<and> lo = (start_locals job1)\<lparr>lo_harness := ar_harness rt, lo_owner := Some owner,
        lo_credential := (case r2 of Inl e \<Rightarrow> None | Inr k \<Rightarrow> k)\<rparr>"
      using assms(1) Inr x provided y res
      by (cases r2) (auto simp: claim_stage_def Let_def assms(3) start_locals_def split: option.splits)
    with ids h assms(5) show ?thesis
      by (cases r2) (auto simp: lease_inv_def)
  qed
qed

lemma refresh_continue_lease:
  assumes "refresh_continue imminent k owner owned b d = (r, owned', d')"
  shows "lease_ids owner d' \<subseteq> lease_ids owner d
    \<and> (\<forall>k' leased. r = Inr (k', leased) \<longrightarrow> k_id k' = k_id k)
    \<and> (owner \<in> fst ` set owned' \<longrightarrow> owner \<in> fst ` set owned \<or> (\<exists>x. r = Inr x))"
proof -
  have find_id: "k_id q = i" if "find_cred i d = Some q" for i q
    using that unfolding find_cred_def by (auto dest: find_SomeD)
  show ?thesis
    using assms release_lease_ids [of owner _ d]
    by (fastforce simp: refresh_continue_def find_id split: option.splits if_splits)
qed

lemma refresh_lease_ids:
  assumes "refresh_claimed_credential refresh imminent fault j scope k owner owned d = (r, owned', d')"
    and "spares owner (snd \<circ> refresh k)"
  shows "lease_ids owner d' \<subseteq> lease_ids owner d
    \<and> (\<forall>k' leased. r = Inr (k', leased) \<longrightarrow> k_id k' = k_id k)
    \<and> (owner \<in> fst ` set owned' \<longrightarrow> owner \<in> fst ` set owned \<or> (\<exists>x. r = Inr x))"
proof -
  obtain out d1 where ref: "refresh k d = (out, d1)" by (cases "refresh k d")
  have sp: "lease_ids owner d1 \<subseteq> lease_ids owner d"
    using assms(2) ref unfolding spares_def by (metis comp_apply snd_conv)
  show ?thesis
  proof (cases "\<exists>e. out = Inl e \<and> credential_failure e")
    case True
    then obtain e where e: "out = Inl e" "credential_failure e" by blast
    obtain e' d2 where h: "handle_failure fault j (Some k) scope e d1 = (e', d2)"
      by (cases "handle_failure fault j (Some k) scope e d1")
    have "lease_ids owner d2 \<subseteq> lease_ids owner d1"
      using handled_spares [of owner fault j "Some k" scope e d1] h by simp
    with sp assms(1) ref e h show ?thesis by (auto simp: refresh_claimed_credential_def)
  next
    case False
    then obtain b where "refresh_continue imminent k owner owned b d1 = (r, owned', d')"
      using assms(1) ref by (auto simp: refresh_claimed_credential_def split: sum.splits if_splits)
    from refresh_continue_lease [OF this] sp show ?thesis by blast
  qed
qed

lemma refresh_stage_lease:
  assumes "refresh_stage w pv lo owned d = (r, lo', owned', d')" "world_spares owner w"
    and "lease_inv owner lo owned d"
  shows "lease_inv owner lo' owned' d'"
proof (cases "refresh_stage w pv lo owned d = (None, lo, owned, d)")
  case True
  with assms show ?thesis by simp
next
  case False
  then obtain k o1 where k: "lo_credential lo = Some k" "lo_owner lo = Some o1" "k_lease_owner k = Some o1"
    by (auto simp: refresh_stage_def split: option.splits if_splits)
  have o1: "o1 = owner" using assms(3) k by (simp add: lease_inv_def)
  obtain out owned1 d1 where ref: "refresh_claimed_credential (w_refresh w) (refresh_imminent (w_ttl_of w) (refresh_horizon w))
      (w_fault w) (j_id (lo_job lo)) (pv_scope pv) k owner owned d = (out, owned1, d1)"
    by (metis prod_cases3)
  have sp: "spares owner (snd \<circ> w_refresh w k)" using assms(2) by (simp add: world_spares_def)
  note L = refresh_lease_ids [OF ref sp]
  show ?thesis
  proof (cases out)
    case (Inl e)
    then have "lo' = lo" "owned' = owned1" "d' = d1" using assms(1) k o1 ref by (auto simp: refresh_stage_def)
    with L Inl assms(3) k show ?thesis by (auto simp: lease_inv_def)
  next
    case (Inr x)
    obtain k' leased where x: "x = (k', leased)" by (cases x)
    then have "lo' = lo\<lparr>lo_credential := Some k', lo_leased := leased\<rparr>" "owned' = owned1" "d' = d1"
      using assms(1) k o1 ref Inr by (auto simp: refresh_stage_def)
    with L Inr x assms(3) k show ?thesis by (auto simp: lease_inv_def)
  qed
qed

lemma issue_creds: "issue_capability cfg tm sha t i d = Inr d' \<Longrightarrow> creds d' = creds d"
  by (erule issue_capabilityD) simp

lemma mint_stage_lease:
  assumes "mint_stage w pv lo d = (r, lo', d')"
  shows "creds d' = creds d \<and> lo_credential lo' = lo_credential lo \<and> lo_owner lo' = lo_owner lo
    \<and> lo_harness lo' = lo_harness lo"
proof -
  have tokens: "creds d2 = creds d1"
    if "issue_run_capabilities cfg tm sha m t job d1 = Inr (toks, d2)" for cfg tm sha m t job toks d1 d2
    using that
    by (auto simp: issue_run_capabilities_def end_execution_def Let_def dest!: issue_creds
        split: option.splits if_splits sum.splits)
  show ?thesis
    using assms by (auto simp: mint_stage_def Let_def dest: tokens split: sum.splits)
qed

lemma observed_spares:
  "(\<And>f. Meanwhile f \<in> set os \<Longrightarrow> spares owner f) \<Longrightarrow> lease_ids owner (observe j os d) \<subseteq> lease_ids owner d"
proof (induction j os d rule: observe.induct)
  case (5 j f os d)
  have "lease_ids owner (observe j os (f d)) \<subseteq> lease_ids owner (f d)" using 5 by simp
  also have "\<dots> \<subseteq> lease_ids owner d" using 5(2) [of f] by (simp add: spares_def)
  finally show ?case by simp
qed (simp_all add: lease_ids_cong save_pid_def save_session_id_def update_job_reference_id_def
    lease_ids_def)

lemma played_spares:
  assumes "world_spares owner w"
  shows "lease_ids owner (snd (play w j s call d)) \<subseteq> lease_ids owner d"
  using assms observed_spares [of "fst (w_agent w call)" owner j d]
  by (auto simp: play_def world_spares_def split: prod.splits)

lemma agent_spares:
  assumes "world_spares owner w"
  shows "lease_ids owner (snd (run_agent w job cr call d)) \<subseteq> lease_ids owner d"
proof -
  obtain r d1 where p: "play w (j_id job) (j_session job) call d = (r, d1)"
    by (cases "play w (j_id job) (j_session job) call d")
  have 1: "lease_ids owner d1 \<subseteq> lease_ids owner d" using played_spares [OF assms] p by (metis snd_conv)
  show ?thesis
  proof (cases r)
    case (Inl e)
    have 2: "lease_ids owner (snd (play w (j_id job) s (ResumeCall x) d1)) \<subseteq> lease_ids owner d" for s x
      using 1 played_spares [OF assms, of "j_id job" s "ResumeCall x" d1] by blast
    show ?thesis using 1 2 p Inl by (simp add: run_agent_def execute_with_one_retry_def Let_def)
  next
    case (Inr x)
    with 1 p show ?thesis by (simp add: run_agent_def execute_with_one_retry_def Let_def)
  qed
qed

lemma run_inner_state:
  "snd (run_inner w entry secrets sid lo d) = d
    \<or> (\<exists>cr call. snd (run_inner w entry secrets sid lo d) = snd (run_agent w (lo_job lo) cr call d))"
proof -
  have "snd (case x of (Inl e, d') \<Rightarrow> (Inl e, d') | (Inr (r, session), d') \<Rightarrow> (Inr (f r session), d')) = snd x"
    for x :: "(exn + (raw_result \<times> string option)) \<times> db" and f :: "raw_result \<Rightarrow> string option \<Rightarrow> run_result"
    by (auto split: prod.split sum.split)
  then show ?thesis by (simp add: run_inner_def Let_def split: option.split) blast
qed

lemma inner_spares:
  assumes "world_spares owner w"
  shows "lease_ids owner (snd (run_inner w entry secrets sid lo d)) \<subseteq> lease_ids owner d"
proof -
  consider "snd (run_inner w entry secrets sid lo d) = d"
    | cr call where "snd (run_inner w entry secrets sid lo d) = snd (run_agent w (lo_job lo) cr call d)"
    using run_inner_state [of w entry secrets sid lo d] by blast
  then show ?thesis by cases (simp_all add: agent_spares [OF assms])
qed

lemma guarded_spares:
  assumes "world_spares owner w" "guarded_run w entry pv secrets sid lo d = (r, lo', d')"
  shows "lease_ids owner d' \<subseteq> lease_ids owner d \<and> lo_credential lo' = lo_credential lo
    \<and> lo_owner lo' = lo_owner lo \<and> lo_harness lo' = lo_harness lo \<and> lo_job lo' = lo_job lo"
proof -
  let ?d1 = "dispatch (AgentViewRunStartBefore (j_id (lo_job lo)) (lo_harness lo) (pv_id pv) (j_model (lo_job lo))) d"
  obtain out d2 where i: "run_inner w entry secrets sid lo ?d1 = (out, d2)"
    by (cases "run_inner w entry secrets sid lo ?d1")
  have 2: "lease_ids owner d2 \<subseteq> lease_ids owner d" using inner_spares [OF assms(1), of entry secrets sid lo ?d1] i by simp
  show ?thesis
  proof (cases "w_setup w")
    case (Some e)
    with assms(2) show ?thesis by (auto simp: guarded_run_def Let_def)
  next
    case None
    show ?thesis
    proof (cases out)
      case (Inl e)
      have "lease_ids owner (snd (handle_failure (w_fault w) (j_id (lo_job lo)) (lo_credential lo) (pv_scope pv)
          (redact_exception secrets e) d2)) \<subseteq> lease_ids owner d" using handled_spares 2 by blast
      with assms(2) None i Inl show ?thesis by (auto simp: guarded_run_def Let_def split: prod.splits)
    next
      case (Inr u)
      with assms(2) None i 2 show ?thesis by (auto simp: guarded_run_def Let_def)
    qed
  qed
qed

lemma prepare_spares:
  assumes "world_spares owner w" "prepare_stage w entry pv secrets lo d = (r, lo', d')"
  shows "lease_ids owner d' \<subseteq> lease_ids owner d \<and> lo_credential lo' = lo_credential lo
    \<and> lo_owner lo' = lo_owner lo \<and> lo_harness lo' = lo_harness lo"
proof (cases "d' = d \<and> lo' = lo")
  case False
  then obtain sid home where "guarded_run w entry pv secrets sid (lo\<lparr>lo_home := home\<rparr>) d = (r, lo', d')"
    using assms(2) by (auto simp: prepare_stage_def Let_def split: option.splits sum.splits)
  from guarded_spares [OF assms(1) this] show ?thesis by simp
qed simp

lemma run_body_lease:
  assumes "run_body w owned job d = (r, lo, owned', d')" "world_spares owner w"
    and "owner = lease_owner_for_job (j_id job) (j_attempt job)"
    and "lease_ids owner d = {}" "owner \<notin> fst ` set owned"
  shows "lease_inv owner lo owned' d'"
proof -
  obtain r1 lo1 d1 where c: "claim_stage w job d = (r1, lo1, d1)" by (metis prod_cases3)
  have inv1: "lease_inv owner lo1 owned d1" by (rule claim_stage_lease [OF c assms(2,3,4,5)])
  show ?thesis
  proof (cases r1)
    case (Inl e)
    with assms(1) c inv1 show ?thesis by (auto simp: run_body_def)
  next
    case (Inr x)
    obtain entry pv where x: "x = (entry, pv)" by (cases x)
    obtain r2 lo2 owned2 d2 where f: "refresh_stage w pv lo1 owned d1 = (r2, lo2, owned2, d2)" by (metis prod_cases4)
    have inv2: "lease_inv owner lo2 owned2 d2" by (rule refresh_stage_lease [OF f assms(2) inv1])
    obtain r3 lo3 d3 where m: "mint_stage w pv lo2 d2 = (r3, lo3, d3)" by (metis prod_cases3)
    have inv3: "lease_inv owner lo3 owned2 d3"
      using mint_stage_lease [OF m] lease_inv_mono [OF inv2] lease_ids_cong [of d3 d2 owner] by simp
    show ?thesis
    proof (cases "(\<exists>e. r2 = Some e) \<or> (\<exists>e. r3 = Inl e) \<or> r3 = Inr NotRunnable")
      case True
      with assms(1) c Inr x f m inv2 inv3 show ?thesis by (cases r2) (auto simp: run_body_def)
    next
      case False
      then obtain toks where r: "r2 = None" "r3 = Inr toks" "toks \<noteq> NotRunnable" by (cases r2; cases r3) auto
      let ?d4 = "dispatch (ExecutionStartAfter (j_execution (lo_job lo3)) (j_id (lo_job lo3)) (j_attempt (lo_job lo3))) d3"
      obtain out lo4 d5 where p: "prepare_stage w entry pv (secrets_of toks) lo3 ?d4 = (out, lo4, d5)"
        by (metis prod_cases3)
      have "lo = lo4" "owned' = owned2" "d' = d5"
        using assms(1) c Inr x f m r p by (simp_all add: run_body_def Let_def)
      with prepare_spares [OF assms(2) p] lease_inv_mono [OF inv3] show ?thesis by simp
    qed
  qed
qed

lemma owner_truthy: "truthy (Some (lease_owner_for_job j a))"
  by (simp add: truthy_def lease_owner_for_job_def)

lemma finish_run_releases:
  assumes "lease_inv owner lo owned d" "world_spares owner w" "w_commits w"
    and "owner = lease_owner_for_job j a" "finish_run w lo owned d = (b, owned', d')"
  shows "lease_ids owner d' = {} \<and> owner \<notin> fst ` set owned'"
proof (cases "lo_credential lo")
  case None
  with assms(1,5) show ?thesis
    by (auto simp: finish_run_def finish_credential_lifecycle_def lease_inv_def Let_def split: if_splits)
next
  case (Some k)
  then have o: "lo_owner lo = Some owner" "lo_harness lo \<noteq> None" "lease_ids owner d \<subseteq> {k_id k}"
    using assms(1) by (auto simp: lease_inv_def)
  have t: "truthy (Some owner)" using owner_truthy assms(4) by simp
  define d1 where "d1 = snd (if lo_home lo then w_capture w k d else (False, d))"
  define d2 where "d2 = (if lo_success lo \<and> w_heals w then snd (clear_auto_credential_error (k_id k) d1) else d1)"
  have "lease_ids owner d1 \<subseteq> lease_ids owner d"
    using assms(2) by (auto simp: d1_def world_spares_def spares_def)
  then have "lease_ids owner d2 \<subseteq> {k_id k}" using o(3) clear_auto_spares [of owner "k_id k" d1] by (auto simp: d2_def)
  then have e: "lease_ids owner (snd (release_credential_lease (k_id k) owner d2)) = {}"
    using release_lease_ids [of owner "k_id k" d2] by blast
  have "d' = snd (release_credential_lease (k_id k) owner d2) \<and> owned' = filter (\<lambda>x. fst x \<noteq> owner) owned"
    using assms(3,5) Some o(1,2) t
    by (auto simp: finish_run_def finish_credential_lifecycle_def Let_def d1_def d2_def split: prod.splits if_splits option.splits)
  with e show ?thesis by auto
qed


section \<open>No token is persisted\<close>

definition exn_free :: "string \<Rightarrow> exn \<Rightarrow> bool" where
  "exn_free t e \<longleftrightarrow> \<not> contains_str t (x_msg e) \<and> free_of t (x_agent_output e)"

definition row_free :: "string \<Rightarrow> job_row \<Rightarrow> bool" where
  "row_free t r \<longleftrightarrow> free_of t (j_error_msg r) \<and> free_of t (j_output r) \<and> free_of t (j_summary r)
     \<and> free_of t (j_prompt r)"

definition result_free :: "string \<Rightarrow> run_result \<Rightarrow> bool" where
  "result_free t u \<longleftrightarrow> \<not> contains_str t (u_summary u) \<and> free_of t (u_prompt u) \<and> free_of t (u_output u)"

lemma handled_free:
  assumes "exn_free t e" "\<not> contains_str t ''No healthy credential left''"
  shows "exn_free t (fst (handle_failure fault j k s e d))"
proof -
  have wait: "exn_free t (raise_if_auth_wait n (e\<lparr>x_other_token := b\<rparr>) d)" "exn_free t (raise_if_auth_wait n e d)" for n b d
    using assms by (simp_all add: raise_if_auth_wait_def exn_free_def plain_exn_def)
  have auth: "exn_free t (fst (handle_auth_failure fault j k s e d))"
    using wait by (simp add: handle_auth_failure_def Let_def)
  have usage: "exn_free t (fst (handle_usage_limit fault j k s e d))"
    using assms by (simp add: handle_usage_limit_def Let_def exn_free_def)
  have trans: "exn_free t (fst (handle_transient_auth fault j k s e d))"
    using auth wait by (simp add: handle_transient_auth_def Let_def)
  show ?thesis using auth usage trans assms(1) by (simp add: handle_failure_def)
qed

lemma redacted_free: "token t \<Longrightarrow> Some t \<in> set secrets \<Longrightarrow> result_free t (redacted secrets u)"
  using redact_secret_free [of t secrets]
  by (auto simp: result_free_def redacted_def redact_secret_def redact_text_free free_of_def truthy_def token_def
      split: option.splits)

lemma inner_free:
  assumes "token t" "Some t \<in> set secrets" "run_inner w entry secrets sid lo d = (Inr u, d')"
  shows "result_free t u"
  using assms(3) redacted_free [OF assms(1,2)]
  by (auto simp: run_inner_def Let_def split: option.splits if_splits prod.splits sum.splits)

lemma guarded_free:
  assumes "token t" "Some t \<in> set secrets" "\<not> contains_str t ''No healthy credential left''"
    and "\<And>e. w_setup w = Some e \<Longrightarrow> exn_free t e"
    and "guarded_run w entry pv secrets sid lo d = (out, lo', d')"
  shows "case out of Inl e \<Rightarrow> exn_free t e | Inr u \<Rightarrow> result_free t u"
proof (cases "w_setup w")
  case (Some e)
  with assms(4,5) show ?thesis by (auto simp: guarded_run_def Let_def)
next
  case None
  let ?d1 = "dispatch (AgentViewRunStartBefore (j_id (lo_job lo)) (lo_harness lo) (pv_id pv) (j_model (lo_job lo))) d"
  obtain r d2 where i: "run_inner w entry secrets sid lo ?d1 = (r, d2)" by (cases "run_inner w entry secrets sid lo ?d1")
  show ?thesis
  proof (cases r)
    case (Inl e)
    have "exn_free t (redact_exception secrets e)"
      using redact_exception_free [OF assms(1,2)] by (simp add: exn_free_def)
    from handled_free [OF this assms(3)] None i Inl assms(5) show ?thesis
      by (auto simp: guarded_run_def Let_def split: prod.splits) (metis fst_conv)
  next
    case (Inr u)
    with inner_free [OF assms(1,2) i [unfolded Inr]] None i assms(5) show ?thesis
      by (auto simp: guarded_run_def Let_def)
  qed
qed

lemma prepare_free:
  assumes "token t" "Some t \<in> set secrets" "\<not> contains_str t ''No healthy credential left''"
    and "\<And>e. w_identity w = Some e \<or> w_setup w = Some e \<Longrightarrow> exn_free t e"
    and "prepare_stage w entry pv secrets lo d = (out, lo', d')"
  shows "case out of Inl e \<Rightarrow> exn_free t e | Inr u \<Rightarrow> result_free t u"
proof -
  have "exn_free t (redact_exception secrets e)" for e
    using redact_exception_free [OF assms(1,2)] by (simp add: exn_free_def)
  then show ?thesis
    using assms(4,5) guarded_free [OF assms(1,2,3), of w entry pv _ _ d out lo' d']
    by (fastforce simp: prepare_stage_def Let_def split: option.splits sum.splits)
qed

lemma failed_row_free:
  assumes "exn_free t e" "row_free t r"
  shows "row_free t (left_row (failure_how job e res jitter now) ended r)"
proof -
  let ?h = "failure_how job e res jitter now"
  have h: "h_msg ?h = take 2000 (x_msg e)" "h_output ?h = x_agent_output e"
    by (simp_all add: failure_how_def Let_def)
  have "free_of t (coalesce (x_agent_output e) (j_output r))"
    using assms by (cases "x_agent_output e") (simp_all add: exn_free_def row_free_def)
  moreover have "free_of t (Some (take 2000 (x_msg e)))"
    using assms(1) contains_take [of t 2000 "x_msg e"] by (simp only: exn_free_def free_of_def) auto
  ultimately show ?thesis using assms(2) by (simp add: row_free_def left_row_def h)
qed

lemma success_row_free: "result_free t u \<Longrightarrow> row_free t r \<Longrightarrow> row_free t (success_row (Some u) ended r)"
  by (simp add: row_free_def result_free_def success_row_def free_of_def)


section \<open>A pause before the mint\<close>

lemma claim_stage_start: "claim_stage w job d = (r, lo, d') \<Longrightarrow> \<not> lo_home lo \<and> \<not> lo_success lo"
  by (auto simp: claim_stage_def start_locals_def Let_def split: sum.splits prod.splits option.splits)

lemma refresh_stage_start:
  "refresh_stage w pv lo owned d = (r, lo', owned', d') \<Longrightarrow> lo_home lo' = lo_home lo \<and> lo_success lo' = lo_success lo
     \<and> lo_job lo' = lo_job lo"
  by (auto simp: refresh_stage_def split: option.splits if_splits prod.splits sum.splits)

lemma release_keeps:
  "closes (snd (release_credential_lease i owner d)) = closes d"
  "events (snd (release_credential_lease i owner d)) = events d"
  "map j_id (jobs (snd (release_credential_lease i owner d))) = map j_id (jobs d)"
  by (simp_all add: release_credential_lease_def set_cred_def Let_def update_creds_def map_update_where)

lemma release_running: "is_running j (snd (release_credential_lease i owner d)) = is_running j d"
proof -
  have "map_option j_status (find_job (update_jobs p (\<lambda>r. r\<lparr>j_sched := n\<rparr>) d2) j) = map_option j_status (find_job d2 j)"
    for p n d2 by (subst find_job_update) (auto simp: option.map_comp comp_def intro: option.map_cong)
  then have "is_running j (update_jobs p (\<lambda>r. r\<lparr>j_sched := n\<rparr>) d2) = is_running j d2" for p n d2
    by (simp only: is_running_def)
  moreover have "is_running j (update_creds p f d) = is_running j d" for p f
    by (simp add: is_running_def find_job_def update_creds_def)
  ultimately show ?thesis by (simp add: release_credential_lease_def set_cred_def Let_def)
qed

text \<open>Nothing was run: no HOME to capture from, no success that heals.\<close>

lemma finish_early:
  assumes "finish_run w lo owned d = (b, owned', d')" "\<not> lo_home lo" "\<not> lo_success lo"
  shows "closes d' = closes d \<and> events d' = events d \<and> is_running j d' = is_running j d"
  using assms
  by (auto simp: finish_run_def finish_credential_lifecycle_def Let_def release_keeps release_running
      split: option.splits if_splits)

lemma dispatch_all_running: "is_running j (dispatch_all es d) = is_running j d"
  by (simp add: is_running_def find_job_def)

text \<open>
  C21. A job that is paused between its claim and the mint of its capabilities is abandoned twice: the
  issue closes the execution and announces it, and the finalize of the same attempt does it again.
\<close>

theorem paused_before_mint_abandons_twice:
  assumes "w_channel w = None"
    and "claim_stage w job (dispatch (WorkerStartAfter (j_id job)) d) = (Inr (entry, pv), lo, d1)"
    and "refresh_stage w pv lo owned d1 = (None, lo1, owned1, d2)"
    and "w_mint w (run_profile_of pv lo1) = Inr x" "j_view (lo_job lo1) = Some v"
    and "\<not> is_running (j_id (lo_job lo1)) d2" "y_fault t = NoFault"
    and "execute_job w owned veto (t # ts) job d = (owned', d')"
  shows "\<exists>c. f_outcome c = Abandoned \<and> closes d' = closes d2 @ [c, c]
    \<and> events d' = events d2 @ [ExecutionStartAfter x (j_id (lo_job lo1)) (j_attempt (lo_job lo1)),
         ExecutionAbandonAfter x (j_id (lo_job lo1)) (j_attempt (lo_job lo1)),
         ExecutionAbandonAfter x (j_id (lo_job lo1)) (j_attempt (lo_job lo1)), WorkerStopAfter (j_id job)]"
proof -
  let ?j = "j_id (lo_job lo1)" and ?a = "j_attempt (lo_job lo1)"
  let ?c = "\<lparr>f_job = ?j, f_attempt = ?a, f_execution = x, f_outcome = Abandoned, f_terminal = False\<rparr>"
  let ?lo = "lo1\<lparr>lo_job := (lo_job lo1)\<lparr>j_execution := x\<rparr>\<rparr>"
  let ?start = "ExecutionStartAfter x ?j ?a" and ?gone = "ExecutionAbandonAfter x ?j ?a"
  let ?d3 = "dispatch_all [?start, ?gone] (d2\<lparr>closes := closes d2 @ [?c]\<rparr>)"
  have m: "mint_stage w pv lo1 d2 = (Inr NotRunnable, ?lo, ?d3)"
    using assms(4,5,6) by (simp add: mint_stage_def issue_run_capabilities_def end_execution_def Let_def is_running_def)
  have body: "run_body w owned job (dispatch (WorkerStartAfter (j_id job)) d) = (Inr None, ?lo, owned1, ?d3)"
    using assms(2,3) m by (simp add: run_body_def)
  obtain b owned2 d4 where f: "finish_run w ?lo owned1 ?d3 = (b, owned2, d4)" by (metis prod_cases3)
  have early: "\<not> lo_home ?lo" "\<not> lo_success ?lo"
    using claim_stage_start [OF assms(2)] refresh_stage_start [OF assms(3)] by simp_all
  have d3: "\<not> is_running ?j ?d3"
    using assms(6) dispatch_all_running [of ?j "[?start, ?gone]"] by (simp add: is_running_def find_job_def)
  have d4: "closes d4 = closes d2 @ [?c]" "events d4 = events d2 @ [?start, ?gone]" "\<not> is_running ?j d4"
    using finish_early [OF f early, of ?j] d3 by simp_all
  have "finalize_job (lo_job ?lo) None None veto (t # ts) d4
      = dispatch ?gone (d4\<lparr>closes := closes d4 @ [?c]\<rparr>)"
    using d4(3) assms(7) by (simp add: finalize_job_def finalize_skip_def end_execution_def)
  then have "d' = dispatch (WorkerStopAfter (j_id job)) (dispatch ?gone (d4\<lparr>closes := closes d4 @ [?c]\<rparr>))"
    using assms(8) body f assms(1) by (simp add: execute_job_def run_job_def)
  then show ?thesis using d4 by simp
qed

text \<open>
  A run that fails before the mint, here for want of its channel, announces the finish of an attempt
  whose start nobody saw.
\<close>

lemma unprepared_run_is_unpaired:
  assumes "w_channel w = Some e" "x_pool_retry_at e = None" "j_execution job = None"
    and "is_running (j_id job) d" "y_fault t = NoFault" "y_others t = id"
  shows "\<exists>es. events (snd (execute_job w owned veto (t # ts) job d)) = events d @ es
    \<and> ExecutionFinishAfter None (j_id job) (j_attempt job) \<in> set es
    \<and> (\<forall>x. ExecutionStartAfter x (j_id job) (j_attempt job) \<notin> set es)"
proof -
  let ?d = "dispatch (WorkerStartAfter (j_id job)) d"
  let ?d1 = "dispatch_all [JobFailAfter (j_id job) (x_class e)] ?d"
  have run: "is_running (j_id job) ?d" using assms(4) by (simp add: is_running_def find_job_def)
  let ?h = "failure_how job e None (y_jitter t) (now_us d)"
  have h: "h_outcome ?h = Failed" "\<forall>x. h_after ?h \<noteq> Some (ExecutionStartAfter x (j_id job) (j_attempt job))"
    using assms(2) by (auto simp: failure_how_def Let_def)
  obtain es d2 where f: "finalize_failure job e None (y_jitter t) ?d1 = Inr (es, d2)"
    using transition_total [of "j_execution job" "j_id job" "j_attempt job"] assms(3)
    unfolding finalize_failure_def Let_def by (metis option.distinct(1) surj_pair)
  have es: "es = ExecutionFinishAfter None (j_id job) (j_attempt job)
      # (case h_after ?h of None \<Rightarrow> [] | Some ev \<Rightarrow> [ev])"
    using f assms(3) h(1)
    by (auto simp: finalize_failure_def transition_def end_execution_def Let_def split: if_splits sum.splits prod.splits)
  have ev: "events d2 = events ?d1"
    using f transitionD [of "j_id job" "j_attempt job"] by (auto simp: finalize_failure_def Let_def)
  have "finalize_job job (Some e) None veto (t # ts) ?d
      = dispatch_all (es @ [JobFinalizeAfter (j_id job) None]) d2"
    using run assms(5,6) f by (simp add: finalize_job_def vetoed_def finalize_tx_def)
  then have "events (snd (execute_job w owned veto (t # ts) job d))
      = events d @ ([WorkerStartAfter (j_id job), JobFailAfter (j_id job) (x_class e)]
          @ es @ [JobFinalizeAfter (j_id job) None, WorkerStopAfter (j_id job)])" (is "_ = events d @ ?es")
    using assms(1) ev by (simp add: execute_job_def run_job_def)
  moreover have "ExecutionFinishAfter None (j_id job) (j_attempt job) \<in> set ?es" using es by simp
  moreover have "\<forall>x. ExecutionStartAfter x (j_id job) (j_attempt job) \<notin> set ?es"
    using es h(2) by (auto split: option.splits)
  ultimately show ?thesis by blast
qed

section \<open>A sample run\<close>

text \<open>One credential with a refresh token; the agent is refused and quotes its token.\<close>

definition sample_paid_harnesses :: harness_registry where
  "sample_paid_harnesses = \<lparr>hr_harnesses = [(''claude'', \<lparr>rh_descriptor = \<lparr>ds_id = ''claude'', ds_label = ''Claude'',
       ds_providers = [\<lparr>pv_id = ''anthropic'', pv_label = ''A'', pv_required = True, pv_modes = [API_KEY],
         pv_scope = Some ''claude'', pv_options = []\<rparr>], ds_default = ''anthropic'',
       ds_caps = \<lparr>cap_interactive = True, cap_resume = True, cap_transcripts = False,
         cap_structured_events = False, cap_toolbox = False, cap_mcp_init_report = False,
         cap_usage_reporting = False, cap_cost_reporting = False\<rparr>, ds_sandbox = None\<rparr>,
     rh_adapter = \<lparr>ad_authenticators = [(''claude'', None)], ad_owned = ([], []), ad_home = None\<rparr>,
     rh_module = ''claude'', rh_fields = []\<rparr>)], hr_owners = [(''claude'', ''claude'')]\<rparr>"

definition sample_world :: run_world where
  "sample_world =
     \<lparr>w_reg = sample_paid_harnesses, w_env = sample_env_vars [], w_conn = sample_conn, w_model = None,
      w_channel = None, w_ttl_of = (\<lambda>_. None), w_timeout = 1200, w_pinned = None, w_sleeps = [],
      w_config = None, w_refresh = (\<lambda>k d. (Inl (plain_exn ''NotImplementedError'' []), d)),
      w_fault = Works, w_mint = (\<lambda>_. Inr (Some ''e1'')), w_auth = sample_cfg, w_test = False,
      w_sha = (\<lambda>s. s), w_mcp = ''tok'', w_rest = ''rest'', w_identity = None, w_seam = None,
      w_workspace = (\<lambda>_. Inr True), w_setup = None, w_context = None, w_ask = (\<lambda>_ _. None),
      w_finder = None, w_workflow = None,
      w_agent = (\<lambda>_. ([SawPid 7 (Some ''b:1'')], Inl (plain_exn ''AuthenticationError'' ''401 tok''))),
      w_readable = True, w_commits = True, w_capture = (\<lambda>k d. (False, d)), w_heals = True\<rparr>"

definition sample_paid :: db where
  "sample_paid = sample_running\<lparr>creds := [sample_cred 1 ''a''], next_cred := 2\<rparr>"

definition sample_paid_job :: job where
  "sample_paid_job = sample_claimed_job\<lparr>j_agent_type := Some ''claude'', j_provider := Some ''anthropic''\<rparr>"

lemma sample_world_fields [simp]:
  "w_reg sample_world = sample_paid_harnesses" "w_env sample_world = sample_env_vars []"
  "w_conn sample_world = sample_conn" "w_channel sample_world = None" "w_ttl_of sample_world = (\<lambda>_. None)"
  "w_pinned sample_world = None" "w_sleeps sample_world = []" "w_config sample_world = None"
  "w_commits sample_world" "w_mint sample_world = (\<lambda>_. Inr (Some ''e1''))" "w_identity sample_world = None"
  "w_setup sample_world = None"
  by (simp_all add: sample_world_def)

lemma sample_paid_fields [simp]:
  "creds sample_paid = [sample_cred 1 ''a'']" "now_us sample_paid = 1000000000"
  "j_id sample_paid_job = 1" "j_attempt sample_paid_job = 1" "j_view sample_paid_job = None"
  "j_agent_type sample_paid_job = Some ''claude''" "j_provider sample_paid_job = Some ''anthropic''"
  by (simp_all add: sample_paid_def sample_paid_job_def sample_claimed_job_def sample_job_def sample_row_def
      sample_running_def sample_todo_def job_row.defs job.defs)

lemma sample_context:
  "\<exists>rt. resolve_agent_view_context (sample_env_vars []) sample_conn None = Inr rt"
proof -
  have "map_sum (\<lambda>_. ()) ar_priority (resolve_agent_view_context (sample_env_vars []) sample_conn None) = Inr 50"
    by code_simp
  then show ?thesis by (auto simp: map_sum_right)
qed

lemma sample_owner: "lease_owner_for_job 1 1 = ''job-1-attempt-1''"
  by (simp add: lease_owner_for_job_def str_nat.simps digit_char_def)

text \<open>The claim leases the credential to the run.\<close>

lemma sample_paid_claim:
  "lease_ids ''job-1-attempt-1'' (snd (snd (claim_stage sample_world sample_paid_job sample_paid))) = {1}"
proof -
  obtain c where c: "resolve_agent_view_context (sample_env_vars []) sample_conn None = Inr c"
    using sample_context by blast
  have f: "find_harness sample_paid_harnesses ''claude'' \<noteq> None"
    by (simp add: find_harness_def sample_paid_harnesses_def)
  let ?rt = "c\<lparr>ar_harness := Some ''claude'', ar_provider := Some ''anthropic'', ar_model := j_model sample_paid_job\<rparr>"
  have r: "resolve_run_runtime sample_paid_harnesses (sample_env_vars []) sample_conn (w_model sample_world)
      sample_paid_job sample_paid = Inr (?rt, sample_paid_job, sample_paid)"
    using c f by (simp add: resolve_run_runtime_def)
  obtain entry pv where p: "run_provider sample_paid_harnesses ?rt = Inr (entry, pv)" "pv_required pv"
    "pv_scope pv = Some ''claude''"
    by (simp add: run_provider_def get_harness_def resolve_provider_def find_harness_def find_provider_def
        sample_paid_harnesses_def)
  let ?lease = "resolve_lease (\<lambda>_. None) (refresh_horizon sample_world) CLAIM_LEASE_TTL_SECONDS (Some ''job-1-attempt-1'')"
  let ?f = "auto_touch (claimed_row (Some (''job-1-attempt-1'', CLAIM_LEASE_TTL_SECONDS)) sample_paid) sample_paid"
  have taken: "lease_taken ?lease (sample_cred 1 ''a'') = Some (''job-1-attempt-1'', CLAIM_LEASE_TTL_SECONDS)"
    by (simp add: lease_taken_def resolve_lease_def truthy_def refresh_imminent_def sample_cred_def)
  have s: "select_credential ''claude'' ?lease None sample_paid
      = (Some (?f (sample_cred 1 ''a'')), update_creds (\<lambda>k. k_id k = 1) ?f sample_paid)"
    using taken by (simp add: select_credential_def candidate_def usable_def unthrottled_def lease_active_def Let_def)
  have "k_lease_owner (auto_touch g d k) = k_lease_owner (g k) \<and> k_id (auto_touch g d k) = k_id (g k)" for g d k
    by (simp add: auto_touch_def touch_def)
  then have o: "k_lease_owner (?f (sample_cred 1 ''a'')) = Some ''job-1-attempt-1''" "k_id (?f (sample_cred 1 ''a'')) = 1"
    by (simp_all add: claimed_row_def)
  have "creds (update_creds (\<lambda>k. k_id k = 1) ?f sample_paid) = [?f (sample_cred 1 ''a'')]"
    by (simp add: update_creds_def update_where_def)
  with o have "lease_ids ''job-1-attempt-1'' (update_creds (\<lambda>k. k_id k = 1) ?f sample_paid) = {1}"
    by (auto simp: lease_ids_def)
  then show ?thesis
    using r p by (simp add: claim_stage_def resolve_for_provider_def resolve_def resolve_rounds.simps s sample_owner Let_def
        del: One_nat_def)
qed


definition sample_entry :: registered where
  "sample_entry = snd (hd (hr_harnesses sample_paid_harnesses))"


definition sample_free_world :: run_world where
  "sample_free_world = sample_world\<lparr>w_reg := sample_harnesses\<rparr>"

definition sample_free_job :: job where
  "sample_free_job = sample_paid_job\<lparr>j_view := Some 1\<rparr>"

definition sample_paused_row_db :: db where
  "sample_paused_row_db = sample_running\<lparr>jobs := [sample_run_row\<lparr>j_status := PAUSED\<rparr>]\<rparr>"

lemma sample_free_claim:
  "\<exists>entry pv lo. claim_stage sample_free_world sample_free_job d = (Inr (entry, pv), lo, d)
     \<and> lo_job lo = sample_free_job \<and> lo_credential lo = None"
proof -
  obtain c where "resolve_agent_view_context (sample_env_vars []) sample_conn None = Inr c"
    using sample_context by blast
  then have c: "resolve_agent_view_context (sample_env_vars []) sample_conn (Some 1) = Inr c"
    by (simp add: resolve_agent_view_context_def view_context_def sample_conn_def get_agent_view_def)
  have f: "find_harness sample_harnesses ''claude'' \<noteq> None" by (simp add: find_harness_def sample_harnesses_def)
  have j: "j_agent_type sample_free_job = Some ''claude''" "j_provider sample_free_job = Some ''anthropic''"
    "j_view sample_free_job = Some 1"
    by (simp_all add: sample_free_job_def)
  let ?rt = "c\<lparr>ar_harness := Some ''claude'', ar_provider := Some ''anthropic'', ar_model := j_model sample_free_job\<rparr>"
  have r: "resolve_run_runtime sample_harnesses (sample_env_vars []) sample_conn mo sample_free_job d
      = Inr (?rt, sample_free_job, d)" for mo
    using c f j by (simp add: resolve_run_runtime_def)
  obtain entry pv where p: "run_provider sample_harnesses ?rt = Inr (entry, pv)" "\<not> pv_required pv"
    by (simp add: run_provider_def get_harness_def resolve_provider_def find_harness_def find_provider_def
        sample_harnesses_def)
  show ?thesis
    using r p by (simp add: claim_stage_def sample_free_world_def resolve_for_provider_def start_locals_def Let_def)
qed

theorem paused_before_mint_abandons_twice_witness:
  "\<exists>c. f_outcome c = Abandoned
    \<and> closes (snd (execute_job sample_free_world [] None
        [\<lparr>y_fault = NoFault, y_others = (\<lambda>d. d), y_jitter = 0\<rparr>] sample_free_job sample_paused_row_db))
      = closes sample_paused_row_db @ [c, c]"
proof -
  let ?d = "dispatch (WorkerStartAfter (j_id sample_free_job)) sample_paused_row_db"
  obtain entry pv lo where c: "claim_stage sample_free_world sample_free_job ?d = (Inr (entry, pv), lo, ?d)"
    "lo_job lo = sample_free_job" "lo_credential lo = None"
    using sample_free_claim by blast
  have r: "refresh_stage sample_free_world pv lo [] ?d = (None, lo, [], ?d)"
    by (simp add: refresh_stage_def c(3))
  have m: "w_mint sample_free_world (run_profile_of pv lo) = Inr (Some ''e1'')" "w_channel sample_free_world = None"
    by (simp_all add: sample_free_world_def)
  have v: "j_view (lo_job lo) = Some 1" by (simp add: c(2) sample_free_job_def)
  have n: "\<not> is_running (j_id (lo_job lo)) ?d"
    by (simp add: is_running_def find_job_def sample_paused_row_db_def c(2) sample_free_job_def)
  show ?thesis
    using paused_before_mint_abandons_twice [OF m(2) c(1) r m(1) v n _ prod.collapse [symmetric],
        of "\<lparr>y_fault = NoFault, y_others = (\<lambda>d. d), y_jitter = 0\<rparr>" None "[]"]
    by auto
qed

end
