(* ===== verification/Delta_Stream.thy ===== *)
theory Delta_Stream
  imports Redaction "HOL-Library.Sublist"
begin

text \<open>
  The stream of a run's fragments (\<open>execution_deltas.py\<close>, \<open>Consumer._delta_callback\<close>): the bounded
  queue with its gap markers, the live text of each run and its redaction, the batches the writer
  thread takes, and the handover when the module behind the sink changes. The clock is an argument,
  in microseconds. A character is Latin-1, one or two bytes of UTF-8. Every operation holds the lock
  of its object, so it is one step.
\<close>

definition MAX_QUEUE :: nat where "MAX_QUEUE = 2000"
definition BATCH :: nat where "BATCH = 200"
definition MAX_GAPS :: nat where "MAX_GAPS = 200"
definition WRITE_INTERVAL :: nat where "WRITE_INTERVAL = 250000"
definition PARTIAL_FLUSH :: nat where "PARTIAL_FLUSH = 250000"
definition PARTIAL_FLUSH_BYTES :: nat where "PARTIAL_FLUSH_BYTES = 4096"
definition PARTIAL_MAX_BYTES :: nat where "PARTIAL_MAX_BYTES = 16384"
definition MAX_FRAGMENT_FIELD_BYTES :: nat where "MAX_FRAGMENT_FIELD_BYTES = 65536"

text \<open>\<open>SUPERSEDED_BY\<close>, a dict.\<close>

definition SUPERSEDED_BY :: "(string \<times> string) list" where
  "SUPERSEDED_BY = [(''assistant.partial'', ''assistant.text''), (''reasoning.partial'', ''assistant.reasoning'')]"

definition FRAGMENT_KINDS :: "string list" where
  "FRAGMENT_KINDS = [''assistant.text'', ''tool.started'', ''tool.completed'', ''error'',
     ''assistant.reasoning'', ''assistant.partial'', ''reasoning.partial'']"

section \<open>Bytes\<close>

definition utf8_len :: "char \<Rightarrow> nat" where
  "utf8_len c = (if of_char c < (128 :: nat) then 1 else 2)"

definition bytes_of :: "string \<Rightarrow> nat" where "bytes_of s = sum_list (map utf8_len s)"

text \<open>\<open>text.encode()[:n].decode(errors="ignore")\<close>.\<close>

fun cut_bytes :: "nat \<Rightarrow> string \<Rightarrow> string" where
  "cut_bytes n [] = []"
| "cut_bytes n (c # cs) = (if utf8_len c \<le> n then c # cut_bytes (n - utf8_len c) cs else [])"

definition bound :: "string option list \<Rightarrow> string \<Rightarrow> string" where
  "bound secrets v =
     (let r = redact_text secrets v in
      if bytes_of r \<le> MAX_FRAGMENT_FIELD_BYTES then r else cut_bytes MAX_FRAGMENT_FIELD_BYTES r)"

section \<open>The stream of a worker\<close>

record delta =
  dl_exec :: string
  dl_seq :: nat
  dl_kind :: string
  dl_text :: "string option"
  dl_tool :: pyval
  dl_data :: "pyval option"

record pending =
  pn_secrets :: "string list"
  pn_kind :: "string option"
  pn_since :: nat
  pn_parts :: "string list"
  pn_size :: nat
  pn_last :: nat

text \<open>\<open>st_count\<close> holds the next number of each run's counter, which its records share.\<close>

record stream =
  st_queue :: "delta list"
  st_gaps :: "(string \<times> delta) list"
  st_pending :: "(string \<times> pending) list"
  st_count :: "string \<Rightarrow> nat"
  st_next_write :: nat
  st_stopping :: bool

definition new_stream :: stream where
  "new_stream = \<lparr>st_queue = [], st_gaps = [], st_pending = [], st_count = (\<lambda>_. 1), st_next_write = 0,
     st_stopping = False\<rparr>"

text \<open>The length of the longest suffix of the text that is a proper prefix of a secret.\<close>

definition held_for :: "string \<Rightarrow> string \<Rightarrow> nat \<Rightarrow> nat" where
  "held_for t secret n =
     (case find (\<lambda>k. drop (length t - k) t = take k secret)
             (rev [n + 1..<min (length secret - 1) (length t) + 1]) of
        None \<Rightarrow> n | Some k \<Rightarrow> k)"

definition held_back :: "string \<Rightarrow> string list \<Rightarrow> nat" where
  "held_back t secrets = fold (held_for t) secrets 0"

definition mark_gap :: "delta \<Rightarrow> (string \<times> delta) list \<Rightarrow> (string \<times> delta) list" where
  "mark_gap dropped gaps =
     (if dl_exec dropped \<in> fst ` set gaps \<or> dl_kind dropped \<in> fst ` set SUPERSEDED_BY then gaps
      else (if MAX_GAPS \<le> length gaps then tl gaps else gaps)
             @ [(dl_exec dropped, dropped\<lparr>dl_kind := ''gap'', dl_text := None, dl_tool := PyNone\<rparr>)])"

definition append_delta :: "delta \<Rightarrow> stream \<Rightarrow> stream" where
  "append_delta r st =
     (let full = (MAX_QUEUE \<le> length (st_queue st)) in
      st\<lparr>st_gaps := (if full then mark_gap (hd (st_queue st)) (st_gaps st) else st_gaps st),
         st_queue := (if full then tl (st_queue st) else st_queue st) @ [r]\<rparr>)"

definition put_pending :: "string \<Rightarrow> pending \<Rightarrow> stream \<Rightarrow> stream" where
  "put_pending x p st = st\<lparr>st_pending := dict_put (x, p) (st_pending st)\<rparr>"

definition closed_segment :: "pending \<Rightarrow> pending" where
  "closed_segment p = p\<lparr>pn_kind := None, pn_parts := [], pn_size := 0\<rparr>"

text \<open>What a flush writes, and the tail it holds back.\<close>

definition flush_text :: "pending \<Rightarrow> string \<times> string" where
  "flush_text p =
     (let t = redact_text (map Some (pn_secrets p)) (concat (pn_parts p)); n = held_back t (pn_secrets p)
      in (take (length t - n) t, drop (length t - n) t))"

definition flush :: "bool \<Rightarrow> nat \<Rightarrow> string \<Rightarrow> pending \<Rightarrow> stream \<Rightarrow> pending \<times> stream" where
  "flush final now x p st =
     (let (out, tail) = flush_text p;
          p1 = (if final \<or> tail = [] then closed_segment p
                else p\<lparr>pn_parts := [tail], pn_size := bytes_of tail, pn_since := now\<rparr>)
      in if out \<noteq> [] \<and> pn_kind p \<noteq> None \<and> length (st_queue st) < MAX_QUEUE
         then (p1\<lparr>pn_last := st_count st x\<rparr>,
               st\<lparr>st_count := (st_count st)(x := st_count st x + 1),
                  st_queue := st_queue st @ [\<lparr>dl_exec = x, dl_seq = st_count st x, dl_kind = the (pn_kind p),
                    dl_text = Some out, dl_tool = PyNone, dl_data = None\<rparr>]\<rparr>)
         else (p1, st))"

definition flush_put :: "bool \<Rightarrow> nat \<Rightarrow> string \<Rightarrow> pending \<Rightarrow> stream \<Rightarrow> stream" where
  "flush_put final now x p st = (let (p', st') = flush final now x p st in put_pending x p' st')"

section \<open>The producer's side\<close>

text \<open>\<open>seq = itertools.count(1)\<close>, then \<open>open\<close>.\<close>

definition open_run :: "string \<Rightarrow> string option list \<Rightarrow> stream \<Rightarrow> stream" where
  "open_run x secrets st =
     put_pending x \<lparr>pn_secrets = map the (filter truthy secrets), pn_kind = None, pn_since = 0, pn_parts = [],
       pn_size = 0, pn_last = 0\<rparr> (st\<lparr>st_count := (st_count st)(x := 1)\<rparr>)"

definition close_run :: "nat \<Rightarrow> string \<Rightarrow> stream \<Rightarrow> stream" where
  "close_run now x st =
     (case map_of (st_pending st) x of
        None \<Rightarrow> st
      | Some p \<Rightarrow>
          (let st1 = st\<lparr>st_pending := filter (\<lambda>e. fst e \<noteq> x) (st_pending st)\<rparr> in
           if pn_kind p = None then st1 else snd (flush True now x p st1)))"

definition offer :: "nat \<Rightarrow> delta \<Rightarrow> stream \<Rightarrow> stream" where
  "offer now r st =
     (let x = dl_exec r in
      case map_of (st_pending st) x of
        None \<Rightarrow> append_delta r st
      | Some p \<Rightarrow>
          (let (p1, st1) = (case pn_kind p of
                 None \<Rightarrow> (p, st)
               | Some k \<Rightarrow> if map_of SUPERSEDED_BY k = Some (dl_kind r) then (closed_segment p, st)
                          else flush True now x p st);
               st2 = put_pending x p1 st1
           in if dl_seq r \<le> pn_last p1
              then append_delta (r\<lparr>dl_seq := st_count st2 x\<rparr>)
                     (st2\<lparr>st_count := (st_count st2)(x := st_count st2 x + 1)\<rparr>)
              else append_delta r st2))"

definition add_part :: "string \<Rightarrow> pending \<Rightarrow> pending" where
  "add_part t p =
     (let piece = (if PARTIAL_MAX_BYTES div 4 < length t then cut_bytes PARTIAL_MAX_BYTES t else t)
      in p\<lparr>pn_parts := pn_parts p @ [piece], pn_size := pn_size p + bytes_of piece\<rparr>)"

definition offer_partial :: "nat \<Rightarrow> string \<Rightarrow> string \<Rightarrow> string \<Rightarrow> stream \<Rightarrow> stream" where
  "offer_partial now x k t st =
     (case map_of (st_pending st) x of
        None \<Rightarrow> st
      | Some p \<Rightarrow>
          (let (p1, st1) = (if pn_kind p \<noteq> None \<and> pn_kind p \<noteq> Some k then flush True now x p st else (p, st));
               p2 = (if pn_kind p1 = None then p1\<lparr>pn_kind := Some k, pn_since := now\<rparr> else p1);
               p3 = add_part t p2
           in if PARTIAL_MAX_BYTES \<le> pn_size p3 then flush_put False now x p3 st1
              else put_pending x p3 st1))"

text \<open>
  One fragment from the harness's mapper. The record takes the next number of the run; the writer may
  flush before it is offered, which is the step \<open>offer\<close> with an older number.
\<close>

definition bound_field :: "string option list \<Rightarrow> pyval \<Rightarrow> pyval" where
  "bound_field secrets v = (case v of PyStr s \<Rightarrow> PyStr (bound secrets s) | _ \<Rightarrow> v)"

definition on_fragment :: "nat \<Rightarrow> string \<Rightarrow> string option list \<Rightarrow> pyval \<Rightarrow> stream \<Rightarrow> stream" where
  "on_fragment now x secrets fragment st =
     (if \<not> is_py_dict fragment then st
      else let raw = py_get fragment ''kind'';
               kind = (if \<not> py_truth raw \<or> raw = PyStr ''delta'' then PyStr ''assistant.text'' else raw)
           in case kind of
             PyStr k \<Rightarrow>
               if k \<notin> set FRAGMENT_KINDS then st
               else if k \<in> fst ` set SUPERSEDED_BY
               then (case py_get fragment ''text'' of
                       PyStr t \<Rightarrow> if t = [] then st else offer_partial now x k t st
                     | _ \<Rightarrow> st)
               else offer now
                      \<lparr>dl_exec = x, dl_seq = st_count st x, dl_kind = k,
                       dl_text = (case py_get fragment ''text'' of PyStr t \<Rightarrow> Some (bound secrets t) | _ \<Rightarrow> None),
                       dl_tool = py_get fragment ''tool_name'',
                       dl_data = (case py_get fragment ''data'' of
                          PyDict kvs \<Rightarrow> Some (PyDict (map (\<lambda>(f, v). (f, bound_field secrets v)) kvs)) | _ \<Rightarrow> None)\<rparr>
                      (st\<lparr>st_count := (st_count st)(x := st_count st x + 1)\<rparr>)
           | _ \<Rightarrow> st)"

section \<open>The writer's side\<close>

definition due :: "bool \<Rightarrow> nat \<Rightarrow> pending \<Rightarrow> bool" where
  "due final now p \<longleftrightarrow> pn_kind p \<noteq> None
     \<and> (final \<or> PARTIAL_FLUSH \<le> now - pn_since p \<or> PARTIAL_FLUSH_BYTES \<le> pn_size p)"

definition flush_due :: "bool \<Rightarrow> nat \<Rightarrow> stream \<Rightarrow> stream" where
  "flush_due final now st =
     fold (\<lambda>(x, p) st. if due final now p then flush_put final now x p st else st) (st_pending st) st"

datatype taken = Waits | Ends | Takes "delta list"

text \<open>One pass of the loop of \<open>_take\<close>.\<close>

definition take_batch :: "nat \<Rightarrow> stream \<Rightarrow> taken \<times> stream" where
  "take_batch now st =
     (let st1 = flush_due (st_stopping st) now st;
          waiting = length (st_queue st1) + length (st_gaps st1)
      in if \<not> st_stopping st1 \<and> waiting < BATCH \<and> (waiting = 0 \<or> now < st_next_write st1) then (Waits, st1)
         else if waiting = 0 then (Ends, st1)
         else let marks = take BATCH (st_gaps st1); room = BATCH - length marks
              in (Takes (map snd marks @ take room (st_queue st1)),
                  st1\<lparr>st_gaps := drop BATCH (st_gaps st1), st_queue := drop room (st_queue st1),
                      st_next_write := now + WRITE_INTERVAL\<rparr>))"

definition discard :: "stream \<Rightarrow> stream" where
  "discard st = st\<lparr>st_queue := [], st_gaps := [], st_pending := []\<rparr>"

section \<open>Secrets in live text\<close>

lemma starts_prefix: "starts_with p s \<longleftrightarrow> prefix p s"
proof
  assume "starts_with p s"
  then show "prefix p s" unfolding starts_with_def using take_is_prefix [of "length p" s] by simp
next
  assume "prefix p s"
  then show "starts_with p s" by (auto simp: starts_with_def elim: prefixE)
qed

lemma contains_sublist: "p \<noteq> [] \<Longrightarrow> contains_str p s \<longleftrightarrow> sublist p s"
  by (induction s) (auto simp: starts_prefix sublist_Cons_right)

lemma replace_unstarred: "CHR ''*'' \<notin> set (replace_str q t) \<Longrightarrow> replace_str q t = t"
  by (induction q t rule: replace_str.induct) (auto simp: REDACTION_def split: if_splits)

lemma redact_unstarred: "CHR ''*'' \<notin> set (redact_text secrets t) \<Longrightarrow> redact_text secrets t = t"
proof (induction secrets arbitrary: t)
  case (Cons a secrets)
  let ?t = "if truthy a then replace_str (the a) t else t"
  have r: "redact_text (a # secrets) t = redact_text secrets ?t" by (simp add: redact_text_def)
  then have "redact_text secrets ?t = ?t" using Cons by simp
  moreover from this have "?t = t" using Cons.prems r replace_unstarred by (metis (full_types))
  ultimately show ?case using r by simp
qed (simp add: redact_text_def)

lemma redacted_prefix: "prefix p (redact_text secrets t) \<Longrightarrow> CHR ''*'' \<notin> set p \<Longrightarrow> prefix p t"
proof (induction secrets arbitrary: t)
  case (Cons a secrets)
  let ?t = "if truthy a then replace_str (the a) t else t"
  have "prefix p (redact_text secrets ?t)" using Cons.prems(1) by (simp add: redact_text_def)
  then have "prefix p ?t" using Cons.IH Cons.prems(2) by blast
  then show ?case using replaced_start [of p "the a" t] Cons.prems(2) by (simp add: starts_prefix split: if_splits)
qed (simp add: redact_text_def)

lemma held_for_cases:
  "held_for t s n = n
    \<or> (n < held_for t s n \<and> held_for t s n \<le> length t \<and> drop (length t - held_for t s n) t = take (held_for t s n) s)"
proof (cases "find (\<lambda>k. drop (length t - k) t = take k s) (rev [n + 1..<min (length s - 1) (length t) + 1])")
  case (Some k)
  then have k: "held_for t s n = k" by (simp add: held_for_def)
  from Some have "drop (length t - k) t = take k s \<and> k \<in> set (rev [n + 1..<min (length s - 1) (length t) + 1])"
    by (auto dest: find_SomeD)
  with k show ?thesis by auto
qed (simp add: held_for_def)

lemma rev_upt_nth: "j < length [n + 1..<m + 1] \<Longrightarrow> rev [n + 1..<m + 1] ! j = m - j"
  using nth_upt [of "n + 1" "m - Suc (n + j)" "m + 1"] by (simp add: rev_nth del: upt_Suc)

lemma held_for_max:
  assumes "k \<le> min (length s - 1) (length t)" "drop (length t - k) t = take k s"
  shows "k \<le> held_for t s n"
proof (cases "k \<le> n")
  case True
  then show ?thesis using held_for_cases [of t s n] by auto
next
  case False
  define m where "m = min (length s - 1) (length t)"
  define ks where "ks = rev [n + 1..<m + 1]"
  let ?P = "\<lambda>k. drop (length t - k) t = take k s"
  have km: "n < k" "k \<le> m" using False assms(1) by (simp_all add: m_def)
  have nth: "ks ! j = m - j" if "j < length ks" for j
    using rev_upt_nth [of j n m] that by (simp add: ks_def)
  have len: "length ks = m - n" by (simp add: ks_def del: upt_Suc)
  have "k \<in> set ks" using km by (auto simp: ks_def)
  then have "find ?P ks \<noteq> None" using assms(2) unfolding find_None_iff by blast
  then obtain q where q: "find ?P ks = Some q" by blast
  then obtain i where i: "i < length ks" "ks ! i = q" "\<forall>j<i. \<not> ?P (ks ! j)"
    by (auto simp: find_Some_iff)
  have "m - k < length ks" "ks ! (m - k) = k" using nth [of "m - k"] km len by simp_all
  then have "\<not> m - k < i" using i(3) assms(2) by metis
  then have "k \<le> q" using nth [OF i(1)] i(2) km by linarith
  with q show ?thesis by (simp add: held_for_def m_def ks_def)
qed

lemma held_fold:
  "n \<le> length t \<Longrightarrow> n \<le> fold (held_for t) ss n \<and> fold (held_for t) ss n \<le> length t
    \<and> (\<forall>s \<in> set ss. \<forall>k. k \<le> min (length s - 1) (length t) \<and> drop (length t - k) t = take k s
        \<longrightarrow> k \<le> fold (held_for t) ss n)"
proof (induction ss arbitrary: n)
  case (Cons s ss)
  have le: "held_for t s n \<le> length t" "n \<le> held_for t s n" using held_for_cases [of t s n] Cons.prems by auto
  have "k \<le> fold (held_for t) ss (held_for t s n)"
    if "k \<le> min (length s - 1) (length t)" "drop (length t - k) t = take k s" for k
    using held_for_max [OF that, of n] Cons.IH [OF le(1)] by auto
  with Cons.IH [OF le(1)] le(2) show ?case by auto
qed simp

lemma held_back_le: "held_back t ss \<le> length t"
  using held_fold [of 0 t ss] by (simp add: held_back_def)

lemma held_back_suffix:
  assumes "s \<in> set ss" "suffix x t" "strict_prefix x s"
  shows "length x \<le> held_back t ss"
proof -
  obtain u where t: "t = u @ x" using assms(2) by (auto simp: suffix_def)
  obtain z v where s: "s = x @ z # v" using assms(3) by (elim strict_prefixE')
  have "length x \<le> min (length s - 1) (length t)" "drop (length t - length x) t = take (length x) s"
    by (simp_all add: t s)
  with held_fold [of 0 t ss] assms(1) show ?thesis by (auto simp: held_back_def)
qed

text \<open>
  \<open>shown\<close> is what readers got of a segment, \<open>kept\<close> the tail that waits: no secret is in sight, and
  whatever could still become one is kept.
\<close>

definition covers :: "string \<Rightarrow> string \<Rightarrow> string \<Rightarrow> bool" where
  "covers s shown kept \<longleftrightarrow> \<not> sublist s (shown @ kept)
     \<and> (\<forall>x. suffix x (shown @ kept) \<and> strict_prefix x s \<longrightarrow> length x \<le> length kept)"

lemma covers_start: "s \<noteq> [] \<Longrightarrow> covers s [] []"
  by (simp add: covers_def)

lemma covers_flush:
  assumes secrets: "\<forall>s \<in> set ss. token s" and s: "s \<in> set ss" and cov: "covers s shown kept"
    and r: "r = redact_text (map Some ss) (kept @ rest)"
    and out: "out = take (length r - held_back r ss) r" "tail = drop (length r - held_back r ss) r"
  shows "covers s (shown @ out) tail"
proof -
  have tok: "s \<noteq> []" "CHR ''*'' \<notin> set s" using secrets s by (auto simp: token_def)
  have ot: "out @ tail = r" "length tail = held_back r ss"
    using held_back_le [of r ss] by (simp_all add: out)
  have clean: "\<not> sublist s r"
    using redact_text_free [of s "map Some ss" "kept @ rest"] secrets s tok(1) by (simp add: r contains_sublist)
  have orig: "prefix p (kept @ rest)" if "prefix p r" "set p \<subseteq> set s" for p
    using redacted_prefix [of p "map Some ss" "kept @ rest"] that tok(2) r by auto
  have cross: False if "a \<noteq> []" "suffix a shown" "strict_prefix (a @ kept) s" for a
    using cov that unfolding covers_def by (fastforce simp: suffix_def)
  have free: "\<not> sublist s (shown @ r)"
  proof
    assume "sublist s (shown @ r)"
    then consider "sublist s shown" | "sublist s r"
      | a b where "s = a @ b" "suffix a shown" "prefix b r" by (auto simp: sublist_append)
    then show False
    proof cases
      case 1
      then show False using cov by (auto simp: covers_def sublist_append)
    next
      case 2
      with clean show False by blast
    next
      case (3 a b)
      show False
      proof (cases "a = []")
        case True
        with 3 clean show False by auto
      next
        case a: False
        have "prefix b (kept @ rest)" using orig 3 by auto
        then consider "prefix b kept" | y where "b = kept @ y" "y \<noteq> []"
          by (cases "prefix b kept") (auto simp: prefix_append)
        then show False
        proof cases
          case 1
          with 3 have "sublist s (shown @ kept)" by (auto simp: sublist_append)
          with cov show False by (simp add: covers_def)
        next
          case (2 y)
          have "strict_prefix (a @ kept) s" using 3(1) 2 by (simp add: strict_prefix_def)
          with cross a 3(2) show False by blast
        qed
      qed
    qed
  qed
  moreover have "length x \<le> length tail" if x: "suffix x (shown @ r)" "strict_prefix x s" for x
  proof -
    consider "suffix x r" | a where "x = a @ r" "suffix a shown" using x(1) by (auto simp: suffix_append)
    then show ?thesis
    proof cases
      case 1
      then show ?thesis using held_back_suffix [OF s 1 x(2)] ot(2) by simp
    next
      case (2 a)
      show ?thesis
      proof (cases "a = []")
        case True
        then have "suffix x r" using 2 by simp
        then show ?thesis using held_back_suffix [OF s _ x(2)] ot(2) by simp
      next
        case a: False
        have "set r \<subseteq> set s" using x(2) 2(1) by (auto simp: strict_prefix_def prefix_def)
        then have "r = kept @ rest" using redact_unstarred [of "map Some ss" "kept @ rest"] r tok(2) by auto
        then have "strict_prefix (a @ kept) s"
          using x(2) 2(1) by (metis append.assoc prefix_order.le_less_trans prefixI)
        with cross a 2(2) show ?thesis by blast
      qed
    qed
  qed
  ultimately show ?thesis using ot(1) by (simp add: covers_def)
qed

section \<open>The text a reader joins\<close>

definition text_of :: "string \<Rightarrow> stream \<Rightarrow> string" where
  "text_of x st = concat (map (\<lambda>r. case dl_text r of None \<Rightarrow> [] | Some t \<Rightarrow> t)
     (filter (\<lambda>r. dl_exec r = x) (st_queue st)))"

datatype live_input = Piece nat string | Tick nat

fun live_step :: "string \<Rightarrow> string \<Rightarrow> live_input \<Rightarrow> stream \<Rightarrow> stream" where
  "live_step x k (Piece now t) st = offer_partial now x k t st"
| "live_step x k (Tick now) st = flush_due False now st"

lemma put_pending_fields [simp]:
  "st_queue (put_pending x p st) = st_queue st" "st_gaps (put_pending x p st) = st_gaps st"
  "st_count (put_pending x p st) = st_count st" "text_of y (put_pending x p st) = text_of y st"
  "map_of (st_pending (put_pending x p st)) y = (if x = y then Some p else map_of (st_pending st) y)"
  "st_stopping (put_pending x p st) = st_stopping st" "st_next_write (put_pending x p st) = st_next_write st"
  by (simp_all add: put_pending_def text_of_def map_of_dict_put)

lemma put_pending_distinct:
  "distinct (map fst (st_pending st)) \<Longrightarrow> distinct (map fst (st_pending (put_pending x p st)))"
  by (simp add: put_pending_def dict_put_distinct)

lemma flush_fields:
  assumes "flush final now x p st = (p', st')"
  shows "st_pending st' = st_pending st" "st_gaps st' = st_gaps st" "st_stopping st' = st_stopping st"
    "length (st_queue st) \<le> length (st_queue st')" "pn_secrets p' = pn_secrets p"
    "y \<noteq> x \<Longrightarrow> text_of y st' = text_of y st"
    "pn_kind p' = (if final \<or> snd (flush_text p) = [] then None else pn_kind p)"
    "pn_parts p' = (if final \<or> snd (flush_text p) = [] then [] else [snd (flush_text p)])"
    "pn_size p' = (if final \<or> snd (flush_text p) = [] then 0 else bytes_of (snd (flush_text p)))"
    "st_next_write st' = st_next_write st"
  using assms
  by (auto simp: flush_def Let_def closed_segment_def text_of_def split: prod.splits if_splits)

lemma flush_shows:
  assumes "flush final now x p st = (p', st')" "pn_kind p \<noteq> None" "length (st_queue st') < MAX_QUEUE"
  shows "text_of x st' = text_of x st @ fst (flush_text p)"
  using assms by (auto simp: flush_def Let_def text_of_def split: prod.splits if_splits)

text \<open>The live text of a run is safe: readers have \<open>text_of x\<close>, a tail of the buffer is held back.\<close>

definition live_ok :: "string \<Rightarrow> string \<Rightarrow> string list \<Rightarrow> stream \<Rightarrow> bool" where
  "live_ok x k ss st \<longleftrightarrow>
     (\<exists>p kept rest. map_of (st_pending st) x = Some p \<and> pn_secrets p = ss \<and> pn_kind p \<in> {None, Some k}
        \<and> (pn_kind p = None \<longrightarrow> pn_parts p = []) \<and> concat (pn_parts p) = kept @ rest
        \<and> (\<forall>s \<in> set ss. covers s (text_of x st) kept))"

lemma flush_live:
  assumes "\<forall>s \<in> set ss. token s" "pn_secrets p = ss" "pn_kind p = Some k"
    and "concat (pn_parts p) = kept @ rest" "\<forall>s \<in> set ss. covers s (text_of x st) kept"
    and "flush final now x p st = (p', st')" "length (st_queue st') < MAX_QUEUE"
  shows "\<forall>s \<in> set ss. covers s (text_of x st') (snd (flush_text p))"
    and "\<not> final \<Longrightarrow> live_ok x k ss (put_pending x p' st')"
proof -
  have t: "text_of x st' = text_of x st @ fst (flush_text p)" using flush_shows [OF assms(6) _ assms(7)] assms(3) by simp
  have c: "covers s (text_of x st @ fst (flush_text p)) (snd (flush_text p))" if "s \<in> set ss" for s
  proof (rule covers_flush [OF assms(1) that _ refl])
    show "covers s (text_of x st) kept" using assms(5) that by blast
    show "fst (flush_text p) = take (length (redact_text (map Some ss) (kept @ rest))
        - held_back (redact_text (map Some ss) (kept @ rest)) ss) (redact_text (map Some ss) (kept @ rest))"
      "snd (flush_text p) = drop (length (redact_text (map Some ss) (kept @ rest))
        - held_back (redact_text (map Some ss) (kept @ rest)) ss) (redact_text (map Some ss) (kept @ rest))"
      using assms(2,4) by (simp_all add: flush_text_def Let_def)
  qed
  then show *: "\<forall>s \<in> set ss. covers s (text_of x st') (snd (flush_text p))" using t by simp
  note f = flush_fields [OF assms(6)]
  show "live_ok x k ss (put_pending x p' st')" if "\<not> final"
    unfolding live_ok_def
  proof (intro exI conjI)
    show "concat (pn_parts p') = snd (flush_text p) @ []" using f(8) that by simp
  qed (use * f(5,7,8) that assms(2,3) in auto)
qed

lemma flush_put_live:
  assumes "\<forall>s \<in> set ss. token s" "pn_secrets p = ss" "pn_kind p = Some k"
    and "concat (pn_parts p) = kept @ rest" "\<forall>s \<in> set ss. covers s (text_of x st) kept"
    and "length (st_queue (flush_put False now x p st)) < MAX_QUEUE"
  shows "live_ok x k ss (flush_put False now x p st)"
proof -
  obtain p' st' where f: "flush False now x p st = (p', st')" by (cases "flush False now x p st")
  have "length (st_queue st') < MAX_QUEUE" using assms(6) f by (simp add: flush_put_def)
  from flush_live(2) [OF assms(1-5) f this] f show ?thesis by (simp add: flush_put_def)
qed

lemma offer_partial_live:
  assumes "\<forall>s \<in> set ss. token s" "live_ok x k ss st"
    and "length (st_queue (offer_partial now x k t st)) < MAX_QUEUE"
  shows "live_ok x k ss (offer_partial now x k t st)"
proof -
  obtain p kept rest where i: "map_of (st_pending st) x = Some p" "pn_secrets p = ss" "pn_kind p \<in> {None, Some k}"
    "pn_kind p = None \<longrightarrow> pn_parts p = []" "concat (pn_parts p) = kept @ rest"
    "\<forall>s \<in> set ss. covers s (text_of x st) kept"
    using assms(2) by (auto simp: live_ok_def)
  let ?p2 = "if pn_kind p = None then p\<lparr>pn_kind := Some k, pn_since := now\<rparr> else p"
  let ?p3 = "add_part t ?p2"
  obtain piece where p3: "pn_secrets ?p3 = ss" "pn_kind ?p3 = Some k" "concat (pn_parts ?p3) = kept @ (rest @ piece)"
    using i by (auto simp: add_part_def Let_def)
  have run: "offer_partial now x k t st =
      (if PARTIAL_MAX_BYTES \<le> pn_size ?p3 then flush_put False now x ?p3 st else put_pending x ?p3 st)"
    using i(1,3) by (auto simp: offer_partial_def)
  have put: "live_ok x k ss (put_pending x ?p3 st)"
    unfolding live_ok_def using p3 i(6) by (intro exI conjI) auto
  show ?thesis
  proof (cases "PARTIAL_MAX_BYTES \<le> pn_size ?p3")
    case True
    then have r: "offer_partial now x k t st = flush_put False now x ?p3 st" using run by simp
    show ?thesis unfolding r by (rule flush_put_live [OF assms(1) p3 i(6)]) (use assms(3) r in simp)
  next
    case False
    with run put show ?thesis by simp
  qed
qed

text \<open>A pass over all runs.\<close>

lemma flush_put_pending:
  "map_of (st_pending (flush_put final now x p st)) y
     = (if x = y then Some (fst (flush final now x p st)) else map_of (st_pending st) y)"
  "length (st_queue st) \<le> length (st_queue (flush_put final now x p st))"
  "y \<noteq> x \<Longrightarrow> text_of y (flush_put final now x p st) = text_of y st"
proof -
  obtain p' st' where f: "flush final now x p st = (p', st')" by (cases "flush final now x p st")
  note ff = flush_fields [OF f]
  show "map_of (st_pending (flush_put final now x p st)) y
     = (if x = y then Some (fst (flush final now x p st)) else map_of (st_pending st) y)"
    using f by (cases "x = y") (simp_all add: flush_put_def ff(1))
  show "length (st_queue st) \<le> length (st_queue (flush_put final now x p st))" by (simp add: flush_put_def f ff(4))
  show "text_of y (flush_put final now x p st) = text_of y st" if "y \<noteq> x"
    using ff(6) [OF that] by (simp add: flush_put_def f)
qed

definition pass_over :: "bool \<Rightarrow> nat \<Rightarrow> (string \<times> pending) list \<Rightarrow> stream \<Rightarrow> stream" where
  "pass_over final now ps st =
     fold (\<lambda>(x, p) st. if due final now p then flush_put final now x p st else st) ps st"

lemma pass_over_simps [simp]:
  "pass_over final now [] st = st"
  "pass_over final now ((x, p) # ps) st =
     pass_over final now ps (if due final now p then flush_put final now x p st else st)"
  by (simp_all add: pass_over_def)

lemma pass_over_queue: "length (st_queue st) \<le> length (st_queue (pass_over final now ps st))"
proof (induction ps arbitrary: st)
  case (Cons e ps)
  obtain x p where e: "e = (x, p)" by (cases e)
  have "length (st_queue st) \<le> length (st_queue (if due final now p then flush_put final now x p st else st))"
    using flush_put_pending(2) by simp
  also note Cons.IH
  finally show ?case by (simp add: e)
qed simp

lemma pass_over_live:
  assumes "\<forall>s \<in> set ss. token s" "live_ok x k ss st" "distinct (map fst ps)"
    and "\<forall>p. (x, p) \<in> set ps \<longrightarrow> map_of (st_pending st) x = Some p"
    and "length (st_queue (pass_over False now ps st)) < MAX_QUEUE"
  shows "live_ok x k ss (pass_over False now ps st)"
  using assms(2-5)
proof (induction ps arbitrary: st)
  case (Cons e ps)
  obtain y p where e: "e = (y, p)" by (cases e)
  let ?st = "if due False now p then flush_put False now y p st else st"
  have room: "length (st_queue ?st) < MAX_QUEUE"
    using Cons.prems(4) pass_over_queue [of ?st False now ps] by (simp add: e)
  have "live_ok x k ss ?st \<and> (\<forall>q. (x, q) \<in> set ps \<longrightarrow> map_of (st_pending ?st) x = Some q)"
  proof (cases "y = x \<and> due False now p")
    case True
    then have p: "map_of (st_pending st) x = Some p" "pn_kind p \<noteq> None" using Cons.prems(3) by (simp_all add: e due_def)
    obtain kept rest where i: "pn_secrets p = ss" "pn_kind p = Some k" "concat (pn_parts p) = kept @ rest"
      "\<forall>s \<in> set ss. covers s (text_of x st) kept"
      using Cons.prems(1) p by (auto simp: live_ok_def)
    have "live_ok x k ss (flush_put False now x p st)"
      by (rule flush_put_live [OF assms(1) i]) (use room True in simp)
    moreover have "(x, q) \<notin> set ps" for q using Cons.prems(2) True by (force simp: e)
    ultimately show ?thesis using True by simp
  next
    case False
    have "map_of (st_pending ?st) x = map_of (st_pending st) x" "text_of x ?st = text_of x st"
      using False flush_put_pending(1,3) by auto
    with Cons.prems show ?thesis by (simp add: live_ok_def e)
  qed
  then show ?case using Cons.IH [of ?st] Cons.prems(2,4) by (simp add: e)
qed simp

definition runs_distinct :: "stream \<Rightarrow> bool" where
  "runs_distinct st \<longleftrightarrow> distinct (map fst (st_pending st))"

lemma flush_put_distinct: "runs_distinct st \<Longrightarrow> runs_distinct (flush_put final now x p st)"
proof -
  obtain p' st' where f: "flush final now x p st = (p', st')" by (cases "flush final now x p st")
  show "runs_distinct st \<Longrightarrow> runs_distinct (flush_put final now x p st)"
    using flush_fields(1) [OF f] put_pending_distinct [of st' x p'] by (simp add: flush_put_def f runs_distinct_def)
qed

lemma pass_over_distinct: "runs_distinct st \<Longrightarrow> runs_distinct (pass_over final now ps st)"
proof (induction ps arbitrary: st)
  case (Cons e ps)
  then show ?case by (cases e) (simp add: flush_put_distinct)
qed simp

lemma flush_due_pass: "flush_due final now st = pass_over final now (st_pending st) st"
  by (simp add: flush_due_def pass_over_def)

lemma offer_partial_distinct:
  assumes "runs_distinct st"
  shows "runs_distinct (offer_partial now x k t st)"
proof (cases "map_of (st_pending st) x")
  case (Some p)
  let ?r = "if pn_kind p \<noteq> None \<and> pn_kind p \<noteq> Some k then flush True now x p st else (p, st)"
  obtain p1 st1 where r: "?r = (p1, st1)" by (cases ?r)
  have "st_pending st1 = st_pending st" using r flush_fields(1) by (auto split: if_splits)
  then have "runs_distinct st1" using assms by (simp add: runs_distinct_def)
  then show ?thesis
    using Some r flush_put_distinct [of st1] put_pending_distinct [of st1]
    by (auto simp: offer_partial_def runs_distinct_def Let_def)
qed (simp add: offer_partial_def assms)

lemma live_step_distinct: "runs_distinct st \<Longrightarrow> runs_distinct (live_step x k e st)"
  by (cases e) (simp_all add: offer_partial_distinct flush_due_pass pass_over_distinct)

lemma live_step_queue: "length (st_queue st) \<le> length (st_queue (live_step x k e st))"
proof (cases e)
  case (Piece now t)
  show ?thesis
  proof (cases "map_of (st_pending st) x")
    case (Some p)
    let ?r = "if pn_kind p \<noteq> None \<and> pn_kind p \<noteq> Some k then flush True now x p st else (p, st)"
    obtain p1 st1 where r: "?r = (p1, st1)" by (cases ?r)
    have "length (st_queue st) \<le> length (st_queue st1)" using r flush_fields(4) by (auto split: if_splits)
    then show ?thesis
      using Some r Piece flush_put_pending(2) [of st1] by (auto simp: offer_partial_def Let_def intro: order_trans)
  qed (simp add: Piece offer_partial_def)
next
  case (Tick now)
  then show ?thesis by (simp add: flush_due_pass pass_over_queue)
qed

lemma live_run:
  assumes "\<forall>s \<in> set ss. token s" "live_ok x k ss st" "runs_distinct st"
    and "length (st_queue (fold (live_step x k) es st)) < MAX_QUEUE"
  shows "live_ok x k ss (fold (live_step x k) es st)"
  using assms(2-4)
proof (induction es arbitrary: st)
  case (Cons e es)
  have grow: "length (st_queue s) \<le> length (st_queue (fold (live_step x k) es s))" for s
  proof (induction es arbitrary: s)
    case (Cons f es)
    then show ?case using live_step_queue [of s x k f] by (simp add: order_trans)
  qed simp
  have room: "length (st_queue (live_step x k e st)) < MAX_QUEUE"
    using Cons.prems(3) grow [of "live_step x k e st"] by simp
  have "live_ok x k ss (live_step x k e st)"
  proof (cases e)
    case (Piece now t)
    with offer_partial_live [OF assms(1) Cons.prems(1)] room show ?thesis by simp
  next
    case (Tick now)
    have "\<forall>p. (x, p) \<in> set (st_pending st) \<longrightarrow> map_of (st_pending st) x = Some p"
      using Cons.prems(2) by (auto simp: runs_distinct_def)
    with pass_over_live [OF assms(1) Cons.prems(1)] Cons.prems(2) room Tick show ?thesis
      by (simp add: flush_due_pass runs_distinct_def)
  qed
  then show ?case using Cons.IH [of "live_step x k e st"] Cons.prems(2,3) live_step_distinct by simp
qed simp

lemma close_live:
  assumes "\<forall>s \<in> set ss. token s" "live_ok x k ss st" "s \<in> set ss"
    and "length (st_queue (close_run now x st)) < MAX_QUEUE"
  shows "\<not> contains_str s (text_of x (close_run now x st))"
proof -
  obtain p kept rest where i: "map_of (st_pending st) x = Some p" "pn_secrets p = ss" "pn_kind p \<in> {None, Some k}"
    "concat (pn_parts p) = kept @ rest" "\<forall>s \<in> set ss. covers s (text_of x st) kept"
    using assms(2) by (auto simp: live_ok_def)
  have tok: "s \<noteq> []" using assms(1,3) by (auto simp: token_def)
  let ?st1 = "st\<lparr>st_pending := filter (\<lambda>e. fst e \<noteq> x) (st_pending st)\<rparr>"
  have t1: "text_of x ?st1 = text_of x st" by (simp add: text_of_def)
  show ?thesis
  proof (cases "pn_kind p")
    case None
    then have "close_run now x st = ?st1" using i(1) by (simp add: close_run_def)
    with i(5) assms(3) t1 tok show ?thesis by (auto simp: covers_def contains_sublist sublist_append)
  next
    case (Some k')
    then have k: "pn_kind p = Some k" using i(3) by simp
    obtain p' st' where f: "flush True now x p ?st1 = (p', st')" by (cases "flush True now x p ?st1")
    have c: "close_run now x st = st'" using i(1) Some f by (simp add: close_run_def Let_def)
    have "covers s (text_of x st') (snd (flush_text p))"
      using flush_live(1) [OF assms(1) i(2) k i(4) _ f] i(5) t1 assms(3,4) c by simp
    with c tok show ?thesis by (auto simp: covers_def contains_sublist sublist_append)
  qed
qed

lemma close_run_queue: "length (st_queue st) \<le> length (st_queue (close_run now x st))"
proof -
  have "length (st_queue st1) \<le> length (st_queue (snd (flush True now x p st1)))" for p st1
    using flush_fields(4) [OF prod.collapse [symmetric]] .
  from this [of "st\<lparr>st_pending := filter (\<lambda>e. fst e \<noteq> x) (st_pending st)\<rparr>"] show ?thesis
    by (simp add: close_run_def Let_def split: option.split)
qed


definition sample_pieces :: "live_input list" where
  "sample_pieces = [Piece 0 ''ak'', Tick 250000, Piece 250001 ''zb'']"

lemmas stream_eval = open_run_def new_stream_def offer_partial_def add_part_def flush_put_def flush_def
  flush_text_def held_back_def held_for_def redact_text_def starts_with_def REDACTION_def put_pending_def
  dict_put_def closed_segment_def close_run_def text_of_def truthy_def PARTIAL_MAX_BYTES_def MAX_QUEUE_def
  bytes_of_def utf8_len_def flush_due_def due_def PARTIAL_FLUSH_def PARTIAL_FLUSH_BYTES_def upt_rec

text \<open>
  A boundary drops the tail it holds back, but what it writes may itself end in a prefix of the
  secret: the next segment completes it.
\<close>

lemma boundary_shows_a_secret:
  "text_of ''e'' (close_run 0 ''e'' (offer_partial 0 ''e'' ''reasoning.partial'' ''z''
     (offer_partial 0 ''e'' ''assistant.partial'' ''kk'' (open_run ''e'' [Some ''kz''] new_stream)))) = ''kz''"
  by (simp add: stream_eval)

lemma sample_live:
  "text_of ''e'' (close_run 260000 ''e''
     (fold (live_step ''e'' ''assistant.partial'') sample_pieces (open_run ''e'' [Some ''kz'', None] new_stream))) = ''a***b''"
  by (simp add: stream_eval sample_pieces_def)


section \<open>Bounds\<close>

datatype stream_op =
    Open string "string option list"
  | Close nat string
  | Offer nat delta
  | Partial nat string string string
  | Fragment nat string "string option list" pyval
  | Pass nat
  | Discard

fun stream_step :: "stream_op \<Rightarrow> stream \<Rightarrow> stream" where
  "stream_step (Open x secrets) st = open_run x secrets st"
| "stream_step (Close now x) st = close_run now x st"
| "stream_step (Offer now r) st = offer now r st"
| "stream_step (Partial now x k t) st = offer_partial now x k t st"
| "stream_step (Fragment now x secrets fragment) st = on_fragment now x secrets fragment st"
| "stream_step (Pass now) st = snd (take_batch now st)"
| "stream_step Discard st = discard st"

text \<open>A token has some forty characters; the bound on the buffer of a run needs them shorter than it.\<close>

definition short_secrets :: "string list \<Rightarrow> bool" where
  "short_secrets ss \<longleftrightarrow> (\<forall>s \<in> set ss. 2 * length s \<le> PARTIAL_MAX_BYTES)"

fun short_op :: "stream_op \<Rightarrow> bool" where
  "short_op (Open x secrets) = short_secrets (map the (filter truthy secrets))"
| "short_op _ = True"

definition pending_ok :: "pending \<Rightarrow> bool" where
  "pending_ok p \<longleftrightarrow> pn_size p < PARTIAL_MAX_BYTES \<and> short_secrets (pn_secrets p)"

definition stream_ok :: "stream \<Rightarrow> bool" where
  "stream_ok st \<longleftrightarrow> length (st_queue st) \<le> MAX_QUEUE \<and> length (st_gaps st) \<le> MAX_GAPS
     \<and> (\<forall>e \<in> set (st_pending st). pending_ok (snd e))"

lemma stream_okD:
  "stream_ok st \<Longrightarrow> map_of (st_pending st) x = Some p \<Longrightarrow> pending_ok p"
  using map_of_SomeD [of "st_pending st" x p] by (force simp: stream_ok_def)

lemma bytes_le: "bytes_of s \<le> 2 * length s"
  by (induction s) (auto simp: bytes_of_def utf8_len_def)

lemma held_for_short: "held_for t s n \<le> n \<or> held_for t s n < length s"
  by (cases "held_for t s n = n")
    (auto simp: held_for_def split: option.splits dest!: find_SomeD)

lemma held_back_short:
  assumes "short_secrets ss"
  shows "2 * held_back t ss < PARTIAL_MAX_BYTES"
proof -
  have "2 * fold (held_for t) ss n < PARTIAL_MAX_BYTES" if "2 * n < PARTIAL_MAX_BYTES" "short_secrets ss" for n
    using that
  proof (induction ss arbitrary: n)
    case (Cons s ss)
    have "2 * held_for t s n < PARTIAL_MAX_BYTES"
      using held_for_short [of t s n] Cons.prems by (auto simp: short_secrets_def)
    with Cons show ?case by (auto simp: short_secrets_def)
  qed simp
  from this [OF _ assms, of 0] show ?thesis by (simp add: held_back_def PARTIAL_MAX_BYTES_def)
qed

lemma tail_short:
  assumes "short_secrets (pn_secrets p)"
  shows "bytes_of (snd (flush_text p)) < PARTIAL_MAX_BYTES"
proof -
  let ?t = "redact_text (map Some (pn_secrets p)) (concat (pn_parts p))"
  have "length (snd (flush_text p)) = held_back ?t (pn_secrets p)"
    using held_back_le [of ?t "pn_secrets p"] by (simp add: flush_text_def Let_def)
  with bytes_le [of "snd (flush_text p)"] held_back_short [OF assms, of ?t] show ?thesis by linarith
qed

lemma put_pending_ok: "stream_ok st \<Longrightarrow> pending_ok p \<Longrightarrow> stream_ok (put_pending x p st)"
  by (auto simp: stream_ok_def put_pending_def dest!: dict_put_item)

lemma flush_ok:
  assumes "stream_ok st" "short_secrets (pn_secrets p)" "flush final now x p st = (p', st')"
  shows "stream_ok st' \<and> pending_ok p'"
proof -
  note f = flush_fields [OF assms(3)]
  have "length (st_queue st') \<le> MAX_QUEUE"
    using assms(1,3) by (auto simp: flush_def stream_ok_def Let_def split: prod.splits if_splits)
  moreover have "pending_ok p'"
    using f(5,9) assms(2) tail_short [of p] by (auto simp: pending_ok_def PARTIAL_MAX_BYTES_def)
  ultimately show ?thesis using assms(1) f(1,2) by (simp add: stream_ok_def)
qed

lemma flush_put_ok:
  assumes "stream_ok st" "short_secrets (pn_secrets p)"
  shows "stream_ok (flush_put final now x p st)"
proof -
  obtain p' st' where f: "flush final now x p st = (p', st')" by (cases "flush final now x p st")
  with flush_ok [OF assms f] put_pending_ok show ?thesis by (simp add: flush_put_def)
qed

lemma append_delta_ok: "stream_ok st \<Longrightarrow> stream_ok (append_delta r st)"
  by (auto simp: stream_ok_def append_delta_def mark_gap_def Let_def MAX_QUEUE_def MAX_GAPS_def)

lemma count_ok [simp]: "stream_ok (st\<lparr>st_count := f\<rparr>) = stream_ok st"
  by (simp add: stream_ok_def)

lemma close_ok: "stream_ok st \<Longrightarrow> stream_ok (close_run now x st)"
proof -
  assume ok: "stream_ok st"
  let ?st1 = "st\<lparr>st_pending := filter (\<lambda>e. fst e \<noteq> x) (st_pending st)\<rparr>"
  have 1: "stream_ok ?st1" using ok by (auto simp: stream_ok_def)
  have "stream_ok (snd (flush True now x p ?st1))" if "pending_ok p" for p
    using flush_ok [OF 1 _ prod.collapse [symmetric]] that by (simp add: pending_ok_def)
  with ok 1 stream_okD [OF ok, of x] show ?thesis by (auto simp: close_run_def Let_def split: option.split)
qed

lemma offer_ok: "stream_ok st \<Longrightarrow> stream_ok (offer now r st)"
proof -
  assume ok: "stream_ok st"
  show ?thesis
  proof (cases "map_of (st_pending st) (dl_exec r)")
    case None
    then show ?thesis using append_delta_ok ok by (simp add: offer_def)
  next
    case (Some p)
    have p: "pending_ok p" by (rule stream_okD [OF ok Some])
    let ?x = "case pn_kind p of None \<Rightarrow> (p, st)
       | Some k \<Rightarrow> if map_of SUPERSEDED_BY k = Some (dl_kind r) then (closed_segment p, st)
                  else flush True now (dl_exec r) p st"
    obtain p1 st1 where r: "?x = (p1, st1)" by (cases ?x)
    have "stream_ok st1 \<and> pending_ok p1"
      using r ok p flush_ok [OF ok, of p True now "dl_exec r" p1 st1]
      by (auto simp: closed_segment_def pending_ok_def PARTIAL_MAX_BYTES_def split: option.splits if_splits)
    then show ?thesis using Some r append_delta_ok put_pending_ok by (auto simp: offer_def Let_def)
  qed
qed

lemma partial_ok: "stream_ok st \<Longrightarrow> stream_ok (offer_partial now x k t st)"
proof -
  assume ok: "stream_ok st"
  show ?thesis
  proof (cases "map_of (st_pending st) x")
    case None
    then show ?thesis using ok by (simp add: offer_partial_def)
  next
    case (Some p)
    have p: "pending_ok p" by (rule stream_okD [OF ok Some])
    let ?r = "if pn_kind p \<noteq> None \<and> pn_kind p \<noteq> Some k then flush True now x p st else (p, st)"
    obtain p1 st1 where r: "?r = (p1, st1)" by (cases ?r)
    have 1: "stream_ok st1 \<and> pending_ok p1"
      using r ok p flush_ok [OF ok, of p True now x p1 st1] by (auto simp: pending_ok_def split: if_splits)
    let ?p3 = "add_part t (if pn_kind p1 = None then p1\<lparr>pn_kind := Some k, pn_since := now\<rparr> else p1)"
    have s: "short_secrets (pn_secrets ?p3)" using 1 by (simp add: pending_ok_def add_part_def Let_def)
    have run: "offer_partial now x k t st =
        (if PARTIAL_MAX_BYTES \<le> pn_size ?p3 then flush_put False now x ?p3 st1 else put_pending x ?p3 st1)"
      using Some r by (simp add: offer_partial_def Let_def)
    show ?thesis
    proof (cases "PARTIAL_MAX_BYTES \<le> pn_size ?p3")
      case True
      with run flush_put_ok [of st1 ?p3] 1 s show ?thesis by simp
    next
      case False
      then have "pending_ok ?p3" using s by (simp add: pending_ok_def)
      with run False put_pending_ok [of st1 ?p3] 1 show ?thesis by simp
    qed
  qed
qed

lemma pass_over_ok:
  assumes "stream_ok st" "\<forall>e \<in> set ps. pending_ok (snd e)"
  shows "stream_ok (pass_over final now ps st)"
  using assms
proof (induction ps arbitrary: st)
  case (Cons e ps)
  then show ?case by (cases e) (simp add: flush_put_ok pending_ok_def)
qed simp

lemma take_batch_ok:
  assumes "stream_ok st"
  shows "stream_ok (snd (take_batch now st)) \<and> (\<forall>b. fst (take_batch now st) = Takes b \<longrightarrow> length b \<le> BATCH)"
proof -
  have "\<forall>e \<in> set (st_pending st). pending_ok (snd e)" using assms by (simp add: stream_ok_def)
  then have 1: "stream_ok (flush_due final now st)" for final
    using pass_over_ok [OF assms] by (simp add: flush_due_pass)
  show ?thesis
    using 1 [of "st_stopping st"] by (auto simp: take_batch_def Let_def stream_ok_def)
qed

lemma fragment_ok: "stream_ok st \<Longrightarrow> stream_ok (on_fragment now x secrets fragment st)"
  by (auto simp: on_fragment_def Let_def offer_ok partial_ok split: pyval.split)

lemma stream_step_ok: "stream_ok st \<Longrightarrow> short_op op \<Longrightarrow> stream_ok (stream_step op st)"
  by (cases op) (simp_all add: close_ok offer_ok partial_ok fragment_ok take_batch_ok put_pending_ok open_run_def
      pending_ok_def PARTIAL_MAX_BYTES_def discard_def stream_ok_def [of "st\<lparr>st_queue := [], st_gaps := [], st_pending := []\<rparr>"]
      MAX_QUEUE_def MAX_GAPS_def)



section \<open>The worker and its handover\<close>

text \<open>
  The process has one worker at most; its thread takes a batch and then writes it under the handover
  lock. \<open>pc_written\<close> logs what reached a sink: the worker's generation and declaration, and the batch.
  What the thread and the producers do while a stop waits in \<open>join\<close> is a list of steps.
\<close>

record worker =
  wk_key :: "string \<times> string"
  wk_sink :: string
  wk_gen :: nat
  wk_stream :: stream
  wk_hand :: "delta list option"
  wk_alive :: bool

record process =
  pc_gen :: nat
  pc_worker :: "worker option"
  pc_written :: "(nat \<times> (string \<times> string) \<times> delta list) list"

definition new_process :: process where
  "new_process = \<lparr>pc_gen = 0, pc_worker = None, pc_written = []\<rparr>"

text \<open>\<open>submit\<close>, \<open>open\<close>, \<open>submit_partial\<close>, \<open>close\<close>: without a worker nothing is kept.\<close>

definition produce :: "stream_op \<Rightarrow> process \<Rightarrow> process" where
  "produce op p = p\<lparr>pc_worker := map_option (\<lambda>wk. wk\<lparr>wk_stream := stream_step op (wk_stream wk)\<rparr>) (pc_worker p)\<rparr>"

definition is_streaming :: "process \<Rightarrow> bool" where "is_streaming p \<longleftrightarrow> pc_worker p \<noteq> None"

text \<open>The next step of the thread's loop: take a batch, or write the one in hand.\<close>

definition thread_step :: "nat \<Rightarrow> process \<Rightarrow> process" where
  "thread_step now p =
     (case pc_worker p of
        None \<Rightarrow> p
      | Some wk \<Rightarrow>
          if \<not> wk_alive wk then p
          else (case wk_hand wk of
                  Some b \<Rightarrow>
                    p\<lparr>pc_worker := Some (wk\<lparr>wk_hand := None\<rparr>),
                      pc_written := (if wk_gen wk = pc_gen p then pc_written p @ [(wk_gen wk, wk_key wk, b)]
                                     else pc_written p)\<rparr>
                | None \<Rightarrow>
                    (case take_batch now (wk_stream wk) of
                       (Waits, st) \<Rightarrow> p\<lparr>pc_worker := Some (wk\<lparr>wk_stream := st\<rparr>)\<rparr>
                     | (Ends, st) \<Rightarrow> p\<lparr>pc_worker := Some (wk\<lparr>wk_stream := st, wk_alive := False\<rparr>)\<rparr>
                     | (Takes b, st) \<Rightarrow> p\<lparr>pc_worker := Some (wk\<lparr>wk_stream := st, wk_hand := Some b\<rparr>)\<rparr>)))"

datatype proc_op = Produce stream_op | Thread nat

fun proc_step :: "proc_op \<Rightarrow> process \<Rightarrow> process" where
  "proc_step (Produce op) p = produce op p"
| "proc_step (Thread now) p = thread_step now p"

definition bump_generation :: "process \<Rightarrow> process" where
  "bump_generation p = p\<lparr>pc_gen := pc_gen p + 1\<rparr>"

definition on_worker :: "(worker \<Rightarrow> worker) \<Rightarrow> process \<Rightarrow> process" where
  "on_worker f p = p\<lparr>pc_worker := map_option f (pc_worker p)\<rparr>"

text \<open>\<open>_stop_locked\<close>: true when the worker is really gone.\<close>

definition stop_locked :: "bool \<Rightarrow> proc_op list \<Rightarrow> process \<Rightarrow> bool \<times> process" where
  "stop_locked discards during p =
     (if pc_worker p = None then (True, p)
      else let p1 = (if discards then on_worker (\<lambda>wk. wk\<lparr>wk_stream := discard (wk_stream wk)\<rparr>) (bump_generation p) else p);
               p2 = on_worker (\<lambda>wk. wk\<lparr>wk_stream := (wk_stream wk)\<lparr>st_stopping := True\<rparr>\<rparr>) p1;
               p3 = fold proc_step during p2;
               alive = (case pc_worker p3 of None \<Rightarrow> False | Some wk \<Rightarrow> wk_alive wk);
               p4 = (if discards then p3 else bump_generation p3)
           in if alive then (False, p4) else (True, p4\<lparr>pc_worker := None\<rparr>))"

definition start_worker :: "string \<Rightarrow> string \<times> string \<Rightarrow> process \<Rightarrow> process" where
  "start_worker sink k p =
     (let p1 = bump_generation p
      in p1\<lparr>pc_worker := Some \<lparr>wk_key = k, wk_sink = sink, wk_gen = pc_gen p1, wk_stream = new_stream,
              wk_hand = None, wk_alive = True\<rparr>\<rparr>)"

text \<open>\<open>sync\<close>: the sink with its declaration (module and class path), or none.\<close>

definition sync_sink :: "(string \<times> (string \<times> string)) option \<Rightarrow> proc_op list \<Rightarrow> process \<Rightarrow> process" where
  "sync_sink registered during p =
     (case registered of
        None \<Rightarrow> snd (stop_locked True during p)
      | Some (sink, k) \<Rightarrow>
          (case pc_worker p of
             None \<Rightarrow> start_worker sink k p
           | Some wk \<Rightarrow>
               if wk_alive wk \<and> wk_key wk = k then on_worker (\<lambda>wk. wk\<lparr>wk_sink := sink\<rparr>) p
               else (case stop_locked True during p of
                       (False, p1) \<Rightarrow> p1
                     | (True, p1) \<Rightarrow> start_worker sink k p1)))"

definition shutdown_stream :: "proc_op list \<Rightarrow> process \<Rightarrow> process" where
  "shutdown_stream during p = snd (stop_locked False during p)"

datatype sys_op =
    Runs proc_op
  | Syncs "(string \<times> (string \<times> string)) option" "proc_op list"
  | Shuts "proc_op list"

fun sys_step :: "sys_op \<Rightarrow> process \<Rightarrow> process" where
  "sys_step (Runs op) p = proc_step op p"
| "sys_step (Syncs r during) p = sync_sink r during p"
| "sys_step (Shuts during) p = shutdown_stream during p"

section \<open>Nothing is written after a handover\<close>

text \<open>
  \<open>gated k n p\<close>: the worker, if it runs for the declaration \<open>k\<close>, has lost its generation, and the log
  holds nothing of \<open>k\<close> beyond the first \<open>n\<close> entries.
\<close>

definition gated :: "string \<times> string \<Rightarrow> nat \<Rightarrow> process \<Rightarrow> bool" where
  "gated k n p \<longleftrightarrow> (\<forall>wk. pc_worker p = Some wk \<longrightarrow> wk_gen wk \<le> pc_gen p \<and> (wk_key wk = k \<longrightarrow> wk_gen wk < pc_gen p))
     \<and> (\<forall>e \<in> set (drop n (pc_written p)). fst (snd e) \<noteq> k)"

lemma thread_step_effect:
  "pc_gen (thread_step now p) = pc_gen p
   \<and> (\<forall>wk'. pc_worker (thread_step now p) = Some wk' \<longrightarrow>
        (\<exists>wk. pc_worker p = Some wk \<and> wk_gen wk' = wk_gen wk \<and> wk_key wk' = wk_key wk))
   \<and> (pc_written (thread_step now p) = pc_written p
      \<or> (\<exists>wk b. pc_worker p = Some wk \<and> wk_gen wk = pc_gen p
           \<and> pc_written (thread_step now p) = pc_written p @ [(wk_gen wk, wk_key wk, b)]))"
proof (cases "pc_worker p")
  case (Some wk)
  obtain t st where t: "take_batch now (wk_stream wk) = (t, st)" by (cases "take_batch now (wk_stream wk)")
  show ?thesis
    using Some t by (cases t; cases "wk_hand wk") (auto simp: thread_step_def)
qed (simp add: thread_step_def)

lemma thread_gated:
  assumes "gated k n p"
  shows "gated k n (thread_step now p)"
proof -
  let ?p = "thread_step now p"
  note eff = thread_step_effect [of now p]
  have "wk_gen wk' \<le> pc_gen ?p \<and> (wk_key wk' = k \<longrightarrow> wk_gen wk' < pc_gen ?p)" if w: "pc_worker ?p = Some wk'" for wk'
  proof -
    obtain wk where "pc_worker p = Some wk" "wk_gen wk' = wk_gen wk" "wk_key wk' = wk_key wk"
      using eff [THEN conjunct2, THEN conjunct1] w by blast
    with assms eff show ?thesis by (simp add: gated_def)
  qed
  moreover have "fst (snd e) \<noteq> k" if e: "e \<in> set (drop n (pc_written ?p))" for e
  proof (cases "e \<in> set (drop n (pc_written p))")
    case True
    with assms show ?thesis by (simp add: gated_def)
  next
    case False
    then obtain wk b where "pc_worker p = Some wk" "wk_gen wk = pc_gen p"
      "pc_written ?p = pc_written p @ [(wk_gen wk, wk_key wk, b)]" using eff e by auto
    moreover from this have "e = (wk_gen wk, wk_key wk, b)" using e False by (auto dest: in_set_dropD)
    ultimately show ?thesis using assms by (auto simp: gated_def)
  qed
  ultimately show ?thesis by (simp add: gated_def)
qed

lemma proc_gated: "gated k n p \<Longrightarrow> gated k n (proc_step op p)"
proof (cases op)
  case (Produce o1)
  then show "gated k n p \<Longrightarrow> ?thesis" by (auto simp: produce_def gated_def)
qed (simp add: thread_gated)

lemma procs_gated: "gated k n p \<Longrightarrow> gated k n (fold proc_step ops p)"
  by (induction ops arbitrary: p) (simp_all add: proc_gated)

lemma on_worker_gated:
  "gated k n p \<Longrightarrow> (\<And>wk. wk_gen (f wk) = wk_gen wk \<and> wk_key (f wk) = wk_key wk) \<Longrightarrow> gated k n (on_worker f p)"
  by (auto simp: gated_def on_worker_def)

lemma bump_gated: "gated k n p \<Longrightarrow> gated k n (bump_generation p)"
  by (auto simp: gated_def bump_generation_def)

lemma gone_gated: "gated k n p \<Longrightarrow> gated k n (p\<lparr>pc_worker := None\<rparr>)"
  by (simp add: gated_def)

lemma stop_gated: "gated k n p \<Longrightarrow> gated k n (snd (stop_locked discards during p))"
  by (auto simp: stop_locked_def Let_def gone_gated bump_gated procs_gated on_worker_gated)

lemma start_gated: "gated k n p \<Longrightarrow> k' \<noteq> k \<Longrightarrow> gated k n (start_worker sink k' p)"
  by (auto simp: start_worker_def gated_def bump_generation_def Let_def)

lemma sync_gated:
  assumes "gated k n p" "\<forall>x. r = Some x \<longrightarrow> snd x \<noteq> k"
  shows "gated k n (sync_sink r during p)"
proof (cases r)
  case None
  then show ?thesis using stop_gated [OF assms(1)] by (simp add: sync_sink_def)
next
  case (Some x)
  obtain sink k' where x: "x = (sink, k')" by (cases x)
  then have k': "k' \<noteq> k" using assms(2) Some by simp
  obtain ok p1 where st: "stop_locked True during p = (ok, p1)" by (cases "stop_locked True during p")
  have p1: "gated k n p1" using stop_gated [OF assms(1), of True during] st by simp
  have keep: "gated k n (on_worker (\<lambda>wk. wk\<lparr>wk_sink := sink\<rparr>) p)" by (rule on_worker_gated [OF assms(1)]) simp
  show ?thesis
    using Some x st start_gated [OF assms(1) k', of sink] start_gated [OF p1 k', of sink] p1 keep
    by (cases ok) (auto simp: sync_sink_def split: option.split)
qed

text \<open>Closing the door: a stop that discards takes the generation of whatever worker there is.\<close>

definition worker_known :: "process \<Rightarrow> bool" where
  "worker_known p \<longleftrightarrow> (\<forall>wk. pc_worker p = Some wk \<longrightarrow> wk_gen wk \<le> pc_gen p)"

lemma door_closes:
  assumes "worker_known p"
  shows "gated k (length (pc_written p)) (snd (stop_locked True during p))"
proof (cases "pc_worker p")
  case None
  with assms show ?thesis by (simp add: stop_locked_def gated_def)
next
  case (Some wk)
  have "gated k (length (pc_written p)) (bump_generation p)"
    using assms by (auto simp: gated_def bump_generation_def worker_known_def)
  then have "gated k (length (pc_written p)) (fold proc_step during
      (on_worker (\<lambda>wk. wk\<lparr>wk_stream := (wk_stream wk)\<lparr>st_stopping := True\<rparr>\<rparr>)
        (on_worker (\<lambda>wk. wk\<lparr>wk_stream := discard (wk_stream wk)\<rparr>) (bump_generation p))))"
    by (intro procs_gated on_worker_gated) simp_all
  then show ?thesis using Some by (auto simp: stop_locked_def Let_def gone_gated)
qed

definition avoids :: "string \<times> string \<Rightarrow> sys_op \<Rightarrow> bool" where
  "avoids k op \<longleftrightarrow> (\<forall>sink during. op \<noteq> Syncs (Some (sink, k)) during)"

lemma sys_gated: "gated k n p \<Longrightarrow> avoids k op \<Longrightarrow> gated k n (sys_step op p)"
  by (cases op) (auto simp: proc_gated stop_gated shutdown_stream_def avoids_def intro!: sync_gated)

text \<open>A declaration that occurs nowhere is gated as long as the generation bounds the worker's.\<close>

lemma sys_known:
  assumes "worker_known p"
  shows "worker_known (sys_step op p)"
proof -
  let ?used = "(case pc_worker p of None \<Rightarrow> {} | Some wk \<Rightarrow> {wk_key wk})
      \<union> (case op of Syncs (Some (sink, k)) during \<Rightarrow> {k} | _ \<Rightarrow> {})"
  have "finite ?used" by (auto split: option.split sys_op.split prod.split)
  moreover have "infinite (UNIV :: (string \<times> string) set)" by (simp add: finite_prod infinite_UNIV_listI)
  ultimately obtain k where k: "k \<notin> ?used" by (meson ex_new_if_finite)
  have "gated k (length (pc_written p)) p" using assms k by (auto simp: gated_def worker_known_def)
  moreover have "avoids k op" using k by (auto simp: avoids_def)
  ultimately have "gated k (length (pc_written p)) (sys_step op p)" by (rule sys_gated)
  then show ?thesis by (simp add: gated_def worker_known_def)
qed

lemma sys_run_known: "worker_known p \<Longrightarrow> worker_known (fold sys_step ops p)"
  by (induction ops arbitrary: p) (simp_all add: sys_known)

lemma sys_run_gated: "gated k n p \<Longrightarrow> list_all (avoids k) ops \<Longrightarrow> gated k n (fold sys_step ops p)"
  by (induction ops arbitrary: p) (simp_all add: sys_gated)

text \<open>
  C19. Once a module is off or replaced its sink gets nothing more: from the \<open>sync\<close> that hands over, whatever
  the producers, the thread and further stops do, and even when the old thread outlives its \<open>join\<close>, no batch is
  written for the old declaration until that declaration is registered again.
\<close>

theorem handover_closes_the_door:
  assumes "p = fold sys_step before new_process" "\<forall>x. r = Some x \<longrightarrow> snd x \<noteq> k"
    and "r = None \<or> pc_worker p = None \<or> (\<exists>wk. pc_worker p = Some wk \<and> wk_key wk = k)"
    and "list_all (avoids k) ops" "p' = fold sys_step ops (sync_sink r during p)"
  shows "\<forall>e \<in> set (drop (length (pc_written p)) (pc_written p')). fst (snd e) \<noteq> k"
proof -
  have known: "worker_known p"
    unfolding assms(1) by (rule sys_run_known) (simp add: worker_known_def new_process_def)
  let ?n = "length (pc_written p)"
  have stop: "gated k ?n (snd (stop_locked True during p))" by (rule door_closes [OF known])
  have "gated k ?n (sync_sink r during p)"
  proof (cases r)
    case None
    with stop show ?thesis by (simp add: sync_sink_def)
  next
    case (Some x)
    obtain sink k' where x: "x = (sink, k')" by (cases x)
    then have k': "k' \<noteq> k" using assms(2) Some by simp
    show ?thesis
    proof (cases "pc_worker p")
      case None
      then have "gated k ?n p" by (simp add: gated_def)
      with start_gated [OF this k'] None Some x show ?thesis by (simp add: sync_sink_def)
    next
      case wk: (Some wk)
      then have key: "wk_key wk = k" using assms(3) Some by auto
      obtain ok p1 where st: "stop_locked True during p = (ok, p1)" by (cases "stop_locked True during p")
      then have p1: "gated k ?n p1" using stop by simp
      show ?thesis
        using Some x wk key k' st p1 start_gated [OF p1 k', of sink] by (cases ok) (simp_all add: sync_sink_def)
    qed
  qed
  from sys_run_gated [OF this assms(4)] assms(5) show ?thesis by (simp add: gated_def)
qed

text \<open>A batch is in the thread's hand when the module goes off, and the thread outlives the join.\<close>

definition sample_before :: "sys_op list" where
  "sample_before = [Syncs (Some (''s'', (''chat'', ''Sink''))) [],
     Runs (Produce (Offer 0 \<lparr>dl_exec = ''e'', dl_seq = 1, dl_kind = ''error'', dl_text = None, dl_tool = PyNone,
       dl_data = None\<rparr>)), Runs (Thread 300000)]"

theorem handover_closes_the_door_witness:
  "filter (\<lambda>e. fst (snd e) = (''chat'', ''Sink'')) (drop (length (pc_written (fold sys_step sample_before new_process)))
     (pc_written (fold sys_step [Runs (Thread 400000), Shuts []]
        (sync_sink None [] (fold sys_step sample_before new_process))))) = []"
proof -
  have "list_all (avoids (''chat'', ''Sink'')) [Runs (Thread 400000), Shuts []]" by (simp add: avoids_def)
  from handover_closes_the_door [OF refl _ _ this refl, of None sample_before "[]"]
  show ?thesis by (simp add: filter_empty_conv)
qed

end
