(* ===== verification/Web_Gate.thy ===== *)
theory Web_Gate
  imports Agento_Prelude
begin

text \<open>
  The request limiter (\<open>web/rate_limit.py\<close>) and the way of a request through the listener
  (\<open>web/server.py\<close>: \<open>Call\<close>, \<open>RegexRoute.handle\<close>, \<open>Sec12\<close>). Of a request the model keeps what the gate
  reads; the session lookup, the route table, the answer of a handler and whether a database call
  fails are fields of it. Times are \<open>NOW()\<close>, in seconds.
\<close>

section \<open>The limiter\<close>

record limits =
  lim_window :: nat
  lim_user :: nat
  lim_address :: nat
  lim_failures :: nat
  lim_hold :: nat
  lim_retention :: nat

record limit_row =
  lb_kind :: string
  lb_key :: string
  lb_start :: nat
  lb_count :: nat
  lb_fails :: nat
  lb_held :: "nat option"
  lb_expires :: nat

type_synonym bucket = "string \<times> string"

definition PRIVATE_KINDS :: "string list" where
  "PRIVATE_KINDS = [''user'', ''session'', ''launch'']"

definition private_bucket :: "bucket \<Rightarrow> bool" where
  "private_bucket b \<longleftrightarrow> fst b \<in> set PRIVATE_KINDS"

definition bucket_for :: "(string \<Rightarrow> string) \<Rightarrow> string \<Rightarrow> string \<Rightarrow> bucket" where
  "bucket_for sha256 kind v = (kind, sha256 v)"

definition request_buckets ::
    "(string \<Rightarrow> string) \<Rightarrow> string option \<Rightarrow> string option \<Rightarrow> string option \<Rightarrow> bucket list" where
  "request_buckets sha256 address session launch =
     bucket_for sha256 ''address'' (if truthy address then the address else ''unknown'')
     # (if truthy session then [bucket_for sha256 ''session'' (the session)] else [])
     @ (if truthy launch then [bucket_for sha256 ''launch'' (the launch)] else [])"

definition at_bucket :: "bucket \<Rightarrow> limit_row \<Rightarrow> bool" where
  "at_bucket b r \<longleftrightarrow> lb_kind r = fst b \<and> lb_key r = snd b"

definition find_bucket :: "bucket \<Rightarrow> limit_row list \<Rightarrow> limit_row option" where
  "find_bucket b rows = find (at_bucket b) rows"

text \<open>\<open>window_start <= NOW() - INTERVAL window SECOND\<close>, and the \<open>expires_at\<close> of a row.\<close>

definition stale :: "limits \<Rightarrow> nat \<Rightarrow> limit_row \<Rightarrow> bool" where
  "stale cfg now r \<longleftrightarrow> lb_start r + lim_window cfg \<le> now"

definition expiring :: "limits \<Rightarrow> limit_row \<Rightarrow> limit_row" where
  "expiring cfg r = r\<lparr>lb_expires :=
     max (lb_start r + lim_window cfg) (case lb_held r of None \<Rightarrow> lb_start r | Some h \<Rightarrow> h) + lim_retention cfg\<rparr>"

text \<open>\<open>INSERT ... ON DUPLICATE KEY UPDATE\<close>: the row that is new, or the update of the one there.\<close>

definition upsert :: "bucket \<Rightarrow> limit_row \<Rightarrow> (limit_row \<Rightarrow> limit_row) \<Rightarrow> limit_row list \<Rightarrow> limit_row list" where
  "upsert b new f rows =
     (if find_bucket b rows = None then rows @ [new] else update_where (at_bucket b) f rows)"

definition counted_row :: "limits \<Rightarrow> nat \<Rightarrow> limit_row \<Rightarrow> limit_row" where
  "counted_row cfg now r =
     expiring cfg (if stale cfg now r then r\<lparr>lb_count := 1, lb_fails := 0, lb_start := now\<rparr>
                   else r\<lparr>lb_count := lb_count r + 1\<rparr>)"

definition first_row :: "limits \<Rightarrow> nat \<Rightarrow> bucket \<Rightarrow> limit_row" where
  "first_row cfg now b = \<lparr>lb_kind = fst b, lb_key = snd b, lb_start = now, lb_count = 1, lb_fails = 0,
     lb_held = None, lb_expires = now + lim_window cfg + lim_retention cfg\<rparr>"

definition hold_left :: "nat \<Rightarrow> limit_row \<Rightarrow> nat" where
  "hold_left now r = (case lb_held r of None \<Rightarrow> 0 | Some h \<Rightarrow> h - now)"

text \<open>The count, whether the bucket is held, and the seconds to wait.\<close>

definition touch_bucket ::
    "limits \<Rightarrow> nat \<Rightarrow> bucket \<Rightarrow> limit_row list \<Rightarrow> (nat \<times> bool \<times> nat) \<times> limit_row list" where
  "touch_bucket cfg now b rows =
     (let rows' = upsert b (first_row cfg now b) (counted_row cfg now) rows in
      case find_bucket b rows' of
        None \<Rightarrow> ((0, False, 1), rows')
      | Some r \<Rightarrow>
          (let wait = max (hold_left now r) (lb_start r + lim_window cfg - now)
           in ((lb_count r, 0 < hold_left now r, if wait = 0 then 1 else wait), rows')))"

record decision =
  dc_allowed :: bool
  dc_retry :: nat
  dc_shared :: nat

fun check_each ::
    "limits \<Rightarrow> nat \<Rightarrow> bucket list \<Rightarrow> nat option \<Rightarrow> nat \<Rightarrow> limit_row list \<Rightarrow> nat option \<times> nat \<times> limit_row list" where
  "check_each cfg now [] refusal shared rows = (refusal, shared, rows)"
| "check_each cfg now (b # bs) refusal shared rows =
     (let ((count, is_held, retry), rows') = touch_bucket cfg now b rows;
          ceiling = (if private_bucket b then lim_user cfg else lim_address cfg)
      in if \<not> (is_held \<or> ceiling < count) then check_each cfg now bs refusal shared rows'
         else if private_bucket b
         then check_each cfg now bs (if refusal = None then Some retry else refusal) shared rows'
         else check_each cfg now bs refusal (max shared retry) rows')"

definition check :: "limits \<Rightarrow> nat \<Rightarrow> bucket list \<Rightarrow> limit_row list \<Rightarrow> decision \<times> limit_row list" where
  "check cfg now bs rows =
     (case check_each cfg now bs None 0 rows of
        (Some retry, shared, rows') \<Rightarrow> (\<lparr>dc_allowed = False, dc_retry = retry, dc_shared = 0\<rparr>, rows')
      | (None, shared, rows') \<Rightarrow> (\<lparr>dc_allowed = True, dc_retry = shared, dc_shared = shared\<rparr>, rows'))"

definition count_identity :: "(string \<Rightarrow> string) \<Rightarrow> limits \<Rightarrow> nat \<Rightarrow> nat \<Rightarrow> limit_row list \<Rightarrow> decision \<times> limit_row list" where
  "count_identity sha256 cfg now user_id rows = check cfg now [bucket_for sha256 ''user'' (str_nat user_id)] rows"

definition held_for_buckets :: "nat \<Rightarrow> bucket list \<Rightarrow> limit_row list \<Rightarrow> nat" where
  "held_for_buckets now bs rows =
     fold max (map (hold_left now) (filter (\<lambda>r. (lb_kind r, lb_key r) \<in> set bs) rows)) 0"

definition first_failure :: "limits \<Rightarrow> nat \<Rightarrow> bucket \<Rightarrow> limit_row" where
  "first_failure cfg now b =
     expiring cfg \<lparr>lb_kind = fst b, lb_key = snd b, lb_start = now, lb_count = 0, lb_fails = 1,
       lb_held = (if lim_failures cfg \<le> 1 then Some (now + lim_hold cfg) else None), lb_expires = 0\<rparr>"

definition failed_row :: "limits \<Rightarrow> nat \<Rightarrow> limit_row \<Rightarrow> limit_row" where
  "failed_row cfg now r =
     (let fails = (if stale cfg now r then 1 else lb_fails r + 1) in
      expiring cfg (r\<lparr>lb_held := (if lim_failures cfg \<le> fails then Some (now + lim_hold cfg) else lb_held r),
                      lb_fails := fails, lb_start := (if stale cfg now r then now else lb_start r)\<rparr>))"

definition record_auth_failure :: "limits \<Rightarrow> nat \<Rightarrow> bucket list \<Rightarrow> limit_row list \<Rightarrow> limit_row list" where
  "record_auth_failure cfg now bs rows =
     fold (\<lambda>b. upsert b (first_failure cfg now b) (failed_row cfg now)) bs rows"

definition prune_buckets :: "nat \<Rightarrow> limit_row list \<Rightarrow> nat \<times> limit_row list" where
  "prune_buckets now rows =
     (length (filter (\<lambda>r. lb_expires r \<le> now) rows), filter (\<lambda>r. \<not> lb_expires r \<le> now) rows)"

section \<open>One request\<close>

definition EXEMPT_PATHS :: "string list" where "EXEMPT_PATHS = [''/health'']"
definition AUTHZ_PATHS :: "string list" where "AUTHZ_PATHS = [''/internal/authz/app'']"
definition REDEEM_PATH :: string where "REDEEM_PATH = ''/internal/launch/redeem''"
definition WRITES :: "string list" where "WRITES = [''POST'', ''PUT'', ''PATCH'', ''DELETE'']"

text \<open>
  \<open>rq_route\<close> is the route that matches (\<open>_match\<close>): its \<open>auth\<close>, or none with whether the path is known.
  \<open>rq_lookup\<close> is \<open>lookup_session\<close> on the session cookie: \<open>Inl\<close> when it raises. \<open>rq_body\<close> is the status of
  a body that was refused, \<open>rq_json\<close> whether a body the route wants as JSON parses; \<open>rq_allows\<close> is
  \<open>acl_allows\<close>; \<open>rq_answer\<close> the status the handler answers, none when it raises. The \<open>up\<close> flags say
  that the limiter's database calls work: for the private buckets, the shared ones, the user, the
  failure.
\<close>

record request =
  rq_time :: nat
  rq_method :: string
  rq_path :: string
  rq_address :: "string option"
  rq_session :: "string option"
  rq_launch :: "string option"
  rq_proxy :: bool
  rq_route :: "bool + string"
  rq_lookup :: "unit + nat option"
  rq_write_ok :: bool
  rq_body :: "nat option"
  rq_json :: bool
  rq_csrf :: bool
  rq_allows :: bool
  rq_answer :: "nat option"
  rq_private_up :: bool
  rq_shared_up :: bool
  rq_user_up :: bool
  rq_record_up :: bool

record call =
  cl_buckets :: "bucket list"
  cl_authenticated :: bool
  cl_proxy :: bool
  cl_user :: "nat option"
  cl_launch :: bool

definition new_call :: call where
  "new_call = \<lparr>cl_buckets = [], cl_authenticated = False, cl_proxy = False, cl_user = None, cl_launch = False\<rparr>"

definition limited ::
    "(string \<Rightarrow> string) \<Rightarrow> limits \<Rightarrow> request \<Rightarrow> limit_row list \<Rightarrow> nat option \<times> call \<times> limit_row list" where
  "limited sha256 cfg rq rows =
     (if rq_path rq \<in> set EXEMPT_PATHS then (None, new_call, rows)
      else let c = new_call\<lparr>cl_buckets := request_buckets sha256 (rq_address rq) (rq_session rq) (rq_launch rq),
                            cl_launch := rq_launch rq \<noteq> None\<rparr>
           in if \<not> rq_private_up rq then (Some 503, c, rows)
              else let (d, rows') = check cfg (rq_time rq) (filter private_bucket (cl_buckets c)) rows
                   in (if dc_allowed d then None else Some 429, c, rows'))"

definition prove_identity :: "request \<Rightarrow> call \<Rightarrow> call" where
  "prove_identity rq c =
     (if rq_path rq \<in> set AUTHZ_PATHS then c\<lparr>cl_proxy := rq_proxy rq\<rparr>
      else if rq_path rq = REDEEM_PATH \<or> rq_route rq = Inr ''login'' then c
      else if \<not> truthy (rq_session rq) then c
      else case rq_lookup rq of
             Inl _ \<Rightarrow> c
           | Inr u \<Rightarrow> c\<lparr>cl_user := u, cl_authenticated := u \<noteq> None\<rparr>)"

definition refused_as_a_stranger ::
    "limits \<Rightarrow> request \<Rightarrow> call \<Rightarrow> limit_row list \<Rightarrow> nat option \<times> limit_row list" where
  "refused_as_a_stranger cfg rq c rows =
     (let shared = filter (\<lambda>b. \<not> private_bucket b) (cl_buckets c) in
      if cl_authenticated c \<or> shared = [] then (None, rows)
      else if \<not> rq_shared_up rq then (Some 503, rows)
      else if cl_proxy c
      then (if 0 < held_for_buckets (rq_time rq) shared rows then Some 429 else None, rows)
      else let (d, rows') = check cfg (rq_time rq) shared rows;
               retry = (if 0 < dc_shared d then dc_shared d else if dc_allowed d then 0 else dc_retry d)
           in (if 0 < retry then Some 429 else None, rows'))"

definition gate_call ::
    "(string \<Rightarrow> string) \<Rightarrow> limits \<Rightarrow> request \<Rightarrow> limit_row list \<Rightarrow> nat option \<times> call \<times> limit_row list" where
  "gate_call sha256 cfg rq rows =
     (case limited sha256 cfg rq rows of
        (Some s, c, rows1) \<Rightarrow> (Some s, c, rows1)
      | (None, c, rows1) \<Rightarrow>
          (let c1 = prove_identity rq c;
               (refusal, rows2) = refused_as_a_stranger cfg rq c1 rows1
           in (if refusal = None \<and> rq_method rq = ''OPTIONS'' then Some 405 else refusal, c1, rows2)))"

text \<open>\<open>_run\<close>: the status, and whether the handler ran.\<close>

definition handler_answer :: "request \<Rightarrow> nat \<times> bool" where
  "handler_answer rq = (case rq_answer rq of None \<Rightarrow> (500, True) | Some s \<Rightarrow> (s, True))"

definition run_session ::
    "(string \<Rightarrow> string) \<Rightarrow> limits \<Rightarrow> bool \<Rightarrow> request \<Rightarrow> call \<Rightarrow> limit_row list \<Rightarrow> (nat \<times> bool) \<times> limit_row list" where
  "run_session sha256 cfg write rq c rows =
     (case cl_user c of
        None \<Rightarrow> ((401, False), rows)
      | Some u \<Rightarrow>
          if \<not> rq_user_up rq then ((500, False), rows)
          else let (d, rows') = count_identity sha256 cfg (rq_time rq) u rows
               in (if \<not> dc_allowed d then (429, False)
                   else if write \<and> \<not> rq_csrf rq then (403, False)
                   else if \<not> rq_allows rq then (403, False)
                   else handler_answer rq, rows'))"

definition api_call ::
    "(string \<Rightarrow> string) \<Rightarrow> limits \<Rightarrow> string \<Rightarrow> request \<Rightarrow> call \<Rightarrow> limit_row list \<Rightarrow> (nat \<times> bool) \<times> limit_row list" where
  "api_call sha256 cfg auth rq c rows =
     (let write = (rq_method rq \<in> set WRITES) in
      if write \<and> \<not> rq_write_ok rq then ((403, False), rows)
      else case rq_body rq of
        Some s \<Rightarrow> ((s, False), rows)
      | None \<Rightarrow>
          if \<not> rq_json rq then ((400, False), rows)
          else if auth = ''session'' then run_session sha256 cfg write rq c rows
          else (handler_answer rq, rows))"

definition handle_request ::
    "(string \<Rightarrow> string) \<Rightarrow> limits \<Rightarrow> request \<Rightarrow> call \<Rightarrow> limit_row list \<Rightarrow> (nat \<times> bool) \<times> limit_row list" where
  "handle_request sha256 cfg rq c rows =
     (if rq_path rq = ''/health'' then ((200, False), rows)
      else if rq_path rq \<in> set AUTHZ_PATHS
      then (if cl_proxy c then handler_answer rq else (401, False), rows)
      else if rq_path rq = REDEEM_PATH
      then (if rq_method rq \<noteq> ''POST'' then (405, False)
            else case rq_body rq of Some s \<Rightarrow> (s, False) | None \<Rightarrow> handler_answer rq, rows)
      else if starts_with ''/api/'' (rq_path rq)
      then (case rq_route rq of
              Inl known \<Rightarrow> ((if known then 405 else 404, False), rows)
            | Inr auth \<Rightarrow> api_call sha256 cfg auth rq c rows)
      else ((404, False), rows))"

text \<open>Whether an answer is a failed authentication of this caller.\<close>

definition counts_as_failure :: "nat \<Rightarrow> call \<Rightarrow> bool" where
  "counts_as_failure status c \<longleftrightarrow> status \<in> {401, 403} \<and> \<not> cl_authenticated c \<and> cl_buckets c \<noteq> []
     \<and> \<not> (cl_proxy c \<and> \<not> cl_launch c)"

definition failed_auth :: "limits \<Rightarrow> request \<Rightarrow> nat \<Rightarrow> call \<Rightarrow> limit_row list \<Rightarrow> nat \<times> limit_row list" where
  "failed_auth cfg rq status c rows =
     (if \<not> counts_as_failure status c then (status, rows)
      else if \<not> rq_record_up rq then (503, rows)
      else (status, record_auth_failure cfg (rq_time rq) (cl_buckets c) rows))"

text \<open>The whole of a request: the status sent, whether a handler ran, and the call.\<close>

definition serve ::
    "(string \<Rightarrow> string) \<Rightarrow> limits \<Rightarrow> request \<Rightarrow> limit_row list \<Rightarrow> (nat \<times> bool \<times> call) \<times> limit_row list" where
  "serve sha256 cfg rq rows =
     (case gate_call sha256 cfg rq rows of
        (Some s, c, rows1) \<Rightarrow>
          (let (s', rows2) = failed_auth cfg rq s c rows1 in ((s', False, c), rows2))
      | (None, c, rows1) \<Rightarrow>
          (let ((s, ran), rows2) = handle_request sha256 cfg rq c rows1;
               (s', rows3) = failed_auth cfg rq s c rows2
           in ((s', ran, c), rows3)))"

fun serve_all ::
    "(string \<Rightarrow> string) \<Rightarrow> limits \<Rightarrow> request list \<Rightarrow> limit_row list \<Rightarrow> (nat \<times> bool \<times> call) list \<times> limit_row list" where
  "serve_all sha256 cfg [] rows = ([], rows)"
| "serve_all sha256 cfg (rq # rqs) rows =
     (let (out, rows1) = serve sha256 cfg rq rows; (outs, rows2) = serve_all sha256 cfg rqs rows1
      in (out # outs, rows2))"

section \<open>The row of a bucket\<close>

lemma at_bucket_rows [simp]:
  "at_bucket b (first_row cfg now b') \<longleftrightarrow> b = b'" "at_bucket b (first_failure cfg now b') \<longleftrightarrow> b = b'"
  "at_bucket b (counted_row cfg now r) = at_bucket b r" "at_bucket b (failed_row cfg now r) = at_bucket b r"
  by (auto simp: at_bucket_def first_row_def first_failure_def counted_row_def failed_row_def expiring_def Let_def
      prod_eq_iff)

lemma find_map_same:
  assumes "\<And>r. q (g r) = q r"
  shows "find q (map g rs) = map_option g (find q rs)"
  by (induction rs) (simp_all add: assms)

lemma find_upsert:
  assumes "\<And>c. at_bucket c new \<longleftrightarrow> c = b" "\<And>c r. at_bucket c (f r) = at_bucket c r"
  shows "find_bucket c (upsert b new f rows)
    = (if c = b then Some (case find_bucket b rows of None \<Rightarrow> new | Some r \<Rightarrow> f r) else find_bucket c rows)"
proof (cases "find_bucket b rows")
  case None
  have "find q (rs @ [x]) = (case find q rs of None \<Rightarrow> if q x then Some x else None | Some r \<Rightarrow> Some r)"
    for q :: "limit_row \<Rightarrow> bool" and rs x by (induction rs) auto
  with None assms(1) show ?thesis by (auto simp: upsert_def find_bucket_def split: option.split)
next
  case (Some r)
  have same: "at_bucket c (if at_bucket b x then f x else x) = at_bucket c x" for c x by (simp add: assms(2))
  have "find_bucket c (upsert b new f rows) = map_option (\<lambda>x. if at_bucket b x then f x else x) (find_bucket c rows)"
    using Some by (simp add: upsert_def find_bucket_def update_where_def find_map_same same)
  moreover have "at_bucket b x \<longleftrightarrow> c = b" if "find_bucket c rows = Some x" for x
    using find_SomeD [OF that [unfolded find_bucket_def]] by (auto simp: at_bucket_def prod_eq_iff)
  ultimately show ?thesis using Some by (cases "find_bucket c rows") auto
qed

lemma find_touched:
  "find_bucket c (snd (touch_bucket cfg now b rows))
     = (if c = b then Some (case find_bucket b rows of None \<Rightarrow> first_row cfg now b | Some r \<Rightarrow> counted_row cfg now r)
        else find_bucket c rows)"
proof -
  have "snd (touch_bucket cfg now b rows) = upsert b (first_row cfg now b) (counted_row cfg now) rows"
    by (simp add: touch_bucket_def Let_def split: option.split)
  then show ?thesis by (simp add: find_upsert)
qed


definition counted_at :: "limits \<Rightarrow> nat \<Rightarrow> bucket \<Rightarrow> limit_row option \<Rightarrow> limit_row" where
  "counted_at cfg now b row = (case row of None \<Rightarrow> first_row cfg now b | Some r \<Rightarrow> counted_row cfg now r)"

definition failed :: "limits \<Rightarrow> nat \<Rightarrow> bucket \<Rightarrow> limit_row option \<Rightarrow> limit_row" where
  "failed cfg now b row = (case row of None \<Rightarrow> first_failure cfg now b | Some r \<Rightarrow> failed_row cfg now r)"

lemma find_failed:
  "find_bucket c (upsert b (first_failure cfg now b) (failed_row cfg now) rows)
     = (if c = b then Some (failed cfg now b (find_bucket b rows)) else find_bucket c rows)"
  by (simp add: find_upsert failed_def)

lemma touched:
  "touch_bucket cfg now b rows =
     (let r = counted_at cfg now b (find_bucket b rows);
          wait = max (hold_left now r) (lb_start r + lim_window cfg - now)
      in ((lb_count r, 0 < hold_left now r, if wait = 0 then 1 else wait), snd (touch_bucket cfg now b rows)))"
proof -
  have f: "find_bucket b (upsert b (first_row cfg now b) (counted_row cfg now) rows)
    = Some (counted_at cfg now b (find_bucket b rows))"
    by (simp add: find_upsert counted_at_def)
  show ?thesis by (simp add: touch_bucket_def f Let_def)
qed

text \<open>Checking leaves the row of any bucket that is not checked, and one bucket is checked like this.\<close>

lemma find_check_each:
  assumes "check_each cfg now bs refusal shared rows = (r', s', rows')" "b \<notin> set bs"
  shows "find_bucket b rows' = find_bucket b rows"
  using assms
proof (induction cfg now bs refusal shared rows rule: check_each.induct)
  case (2 cfg now c bs refusal shared rows)
  obtain count is_held retry rows1 where t: "touch_bucket cfg now c rows = ((count, is_held, retry), rows1)"
    by (cases "touch_bucket cfg now c rows") auto
  have "find_bucket b rows1 = find_bucket b rows"
    using 2(5) find_touched [of b cfg now c rows] by (simp add: t)
  with 2(1-3) [OF t [symmetric] refl refl refl] 2(4,5) t show ?case
    by (auto simp: Let_def split: if_splits)
qed simp

lemma find_check:
  "b \<notin> set bs \<Longrightarrow> find_bucket b (snd (check cfg now bs rows)) = find_bucket b rows"
  using find_check_each [of cfg now bs None 0 rows _ _ _ b]
  by (auto simp: check_def split: prod.split option.split)

lemma check_one:
  assumes "check cfg now [b] rows = (d, rows')"
  shows "find_bucket b rows' = Some (counted_at cfg now b (find_bucket b rows))" (is ?row)
    and "private_bucket b \<Longrightarrow> dc_allowed d \<Longrightarrow> lb_count (counted_at cfg now b (find_bucket b rows)) \<le> lim_user cfg"
    and "\<not> private_bucket b \<Longrightarrow> dc_allowed d"
    and "\<not> private_bucket b \<Longrightarrow> dc_shared d = 0 \<Longrightarrow> hold_left now (counted_at cfg now b (find_bucket b rows)) = 0"
proof -
  define r where "r = counted_at cfg now b (find_bucket b rows)"
  have row: "find_bucket b (snd (touch_bucket cfg now b rows)) = Some r"
    using find_touched [of b cfg now b rows] by (simp add: counted_at_def r_def)
  obtain wait where w: "0 < wait"
    and t: "touch_bucket cfg now b rows = ((lb_count r, 0 < hold_left now r, wait), snd (touch_bucket cfg now b rows))"
  proof
    let ?wait = "max (hold_left now r) (lb_start r + lim_window cfg - now)"
    show "touch_bucket cfg now b rows
      = ((lb_count r, 0 < hold_left now r, if ?wait = 0 then 1 else ?wait), snd (touch_bucket cfg now b rows))"
      using touched [of cfg now b rows] unfolding r_def [symmetric] Let_def .
  qed (auto simp: less_max_iff_disj)
  from assms row show ?row unfolding r_def [symmetric]
    by (subst (asm) check_def, subst (asm) check_each.simps, subst (asm) t)
      (auto simp: Let_def split: if_splits)
  from assms show "private_bucket b \<Longrightarrow> dc_allowed d \<Longrightarrow> lb_count (counted_at cfg now b (find_bucket b rows)) \<le> lim_user cfg"
    unfolding r_def [symmetric]
    by (subst (asm) check_def, subst (asm) check_each.simps, subst (asm) t)
      (auto simp: Let_def split: if_splits)
  from assms show "\<not> private_bucket b \<Longrightarrow> dc_allowed d"
    by (subst (asm) check_def, subst (asm) check_each.simps, subst (asm) t)
      (auto simp: Let_def split: if_splits)
  from assms w show "\<not> private_bucket b \<Longrightarrow> dc_shared d = 0 \<Longrightarrow> hold_left now (counted_at cfg now b (find_bucket b rows)) = 0"
    unfolding r_def [symmetric]
    by (subst (asm) check_def, subst (asm) check_each.simps, subst (asm) t)
      (auto simp: Let_def split: if_splits)
qed

section \<open>The bucket of an address over a request\<close>

text \<open>The one shared bucket of a request is that of its address.\<close>

definition address_bucket :: "(string \<Rightarrow> string) \<Rightarrow> request \<Rightarrow> bucket" where
  "address_bucket sha256 rq
     = bucket_for sha256 ''address'' (if truthy (rq_address rq) then the (rq_address rq) else ''unknown'')"

definition buckets_of :: "(string \<Rightarrow> string) \<Rightarrow> request \<Rightarrow> bucket list" where
  "buckets_of sha256 rq = request_buckets sha256 (rq_address rq) (rq_session rq) (rq_launch rq)"

lemma private_kinds [simp]:
  "\<not> private_bucket (bucket_for sha256 ''address'' v)" "private_bucket (bucket_for sha256 ''session'' v)"
  "private_bucket (bucket_for sha256 ''launch'' v)" "private_bucket (bucket_for sha256 ''user'' v)"
  "\<not> private_bucket (address_bucket sha256 rq)"
  by (simp_all add: private_bucket_def bucket_for_def PRIVATE_KINDS_def address_bucket_def)

lemma shared_bucket: "filter (\<lambda>b. \<not> private_bucket b) (buckets_of sha256 rq) = [address_bucket sha256 rq]"
  by (simp add: buckets_of_def request_buckets_def address_bucket_def)

lemma shared_in: "\<not> private_bucket b \<Longrightarrow> b \<in> set (buckets_of sha256 rq) \<longleftrightarrow> b = address_bucket sha256 rq"
  using arg_cong [OF shared_bucket [of sha256 rq], of set] by auto

lemma buckets_distinct: "distinct (buckets_of sha256 rq)"
  by (auto simp: buckets_of_def request_buckets_def bucket_for_def)

lemma user_not_in: "bucket_for sha256 ''user'' v \<notin> set (buckets_of sha256 rq)"
  by (auto simp: buckets_of_def request_buckets_def bucket_for_def)

lemma limited_parts:
  assumes "limited sha256 cfg rq rows = (r, c, rows1)"
  shows "cl_buckets c = (if rq_path rq \<in> set EXEMPT_PATHS then [] else buckets_of sha256 rq)"
    and "b \<notin> set (filter private_bucket (buckets_of sha256 rq)) \<Longrightarrow> find_bucket b rows1 = find_bucket b rows"
    and "r \<noteq> None \<Longrightarrow> the r = 503 \<or> the r = 429"
  using assms find_check [of b "filter private_bucket (buckets_of sha256 rq)" cfg "rq_time rq" rows]
  by (auto simp: limited_def new_call_def buckets_of_def Let_def split: if_splits prod.splits)

lemma prove_keeps [simp]: "cl_buckets (prove_identity rq c) = cl_buckets c"
  by (simp add: prove_identity_def split: sum.split)

lemma prove_user:
  "cl_user c = None \<Longrightarrow> cl_user (prove_identity rq c) = Some u \<Longrightarrow> rq_lookup rq = Inr (Some u)"
  by (auto simp: prove_identity_def split: sum.splits if_splits)

lemma fold_max_bounds: "(m::nat) \<le> fold max xs m" "x \<in> set xs \<Longrightarrow> x \<le> fold max xs m"
proof (induction xs arbitrary: m)
  case (Cons y ys)
  { case 1 show ?case using Cons(1) [of "max y m"] by simp }
  { case 2 then show ?case using Cons(1) [of "max y m"] Cons(2) [of "max y m"] by auto }
qed simp_all

lemma held_for_none:
  assumes "held_for_buckets now bs rows = 0" "find_bucket b rows = Some r" "b \<in> set bs"
  shows "hold_left now r = 0"
proof -
  have "r \<in> set rows" "at_bucket b r" using find_SomeD [OF assms(2) [unfolded find_bucket_def]] by auto
  then have "hold_left now r \<in> set (map (hold_left now) (filter (\<lambda>r. (lb_kind r, lb_key r) \<in> set bs) rows))"
    using assms(3) by (auto simp: at_bucket_def)
  from fold_max_bounds(2) [OF this, of 0] assms(1) show ?thesis by (simp add: held_for_buckets_def)
qed

text \<open>A stranger's request that the gate lets through finds no hold on its address.\<close>

lemma stranger_parts:
  assumes "refused_as_a_stranger cfg rq c rows = (r, rows')"
    and "cl_buckets c = [] \<or> cl_buckets c = buckets_of sha256 rq"
  shows "b \<noteq> address_bucket sha256 rq \<Longrightarrow> find_bucket b rows' = find_bucket b rows"
    and "find_bucket b rows' = find_bucket b rows
      \<or> find_bucket b rows' = Some (counted_at cfg (rq_time rq) b (find_bucket b rows))"
    and "r \<noteq> None \<Longrightarrow> the r = 503 \<or> the r = 429"
    and "r = None \<Longrightarrow> \<not> cl_authenticated c \<Longrightarrow> cl_buckets c = buckets_of sha256 rq
      \<Longrightarrow> find_bucket (address_bucket sha256 rq) rows' = Some row \<Longrightarrow> hold_left (rq_time rq) row = 0"
proof -
  let ?a = "address_bucket sha256 rq" and ?t = "rq_time rq"
  consider (same) "rows' = rows" "r \<noteq> None \<longrightarrow> the r = 503 \<or> the r = 429"
      "r = None \<longrightarrow> cl_authenticated c \<or> cl_buckets c = [] \<or> held_for_buckets ?t [?a] rows = 0"
    | (spent) d where "check cfg ?t [?a] rows = (d, rows')" "r \<noteq> None \<longrightarrow> the r = 429"
      "r = None \<longrightarrow> dc_shared d = 0"
    using assms
    by (auto simp: refused_as_a_stranger_def shared_bucket Let_def split: if_splits prod.splits)
  then have "(b \<noteq> ?a \<longrightarrow> find_bucket b rows' = find_bucket b rows)
    \<and> (find_bucket b rows' = find_bucket b rows
      \<or> find_bucket b rows' = Some (counted_at cfg ?t b (find_bucket b rows)))
    \<and> (r \<noteq> None \<longrightarrow> the r = 503 \<or> the r = 429)
    \<and> (r = None \<longrightarrow> \<not> cl_authenticated c \<longrightarrow> cl_buckets c = buckets_of sha256 rq \<longrightarrow>
      find_bucket ?a rows' = Some row \<longrightarrow> hold_left ?t row = 0)"
  proof cases
    case same
    then show ?thesis using held_for_none [of ?t "[?a]" rows ?a row] shared_in [of ?a sha256 rq]
      by auto
  next
    case spent
    have "find_bucket b rows' = find_bucket b rows" if "b \<noteq> ?a"
      using find_check [of b "[?a]" cfg ?t rows] that by (simp add: spent(1))
    moreover note check_one(1) [OF spent(1)]
    moreover have "hold_left ?t (counted_at cfg ?t ?a (find_bucket ?a rows)) = 0" if "r = None"
      using check_one(4) [OF spent(1)] spent(3) that by simp
    ultimately show ?thesis using spent(2) by (cases "b = ?a") auto
  qed
  then show "b \<noteq> ?a \<Longrightarrow> find_bucket b rows' = find_bucket b rows"
    and "find_bucket b rows' = find_bucket b rows
      \<or> find_bucket b rows' = Some (counted_at cfg ?t b (find_bucket b rows))"
    and "r \<noteq> None \<Longrightarrow> the r = 503 \<or> the r = 429"
    and "r = None \<Longrightarrow> \<not> cl_authenticated c \<Longrightarrow> cl_buckets c = buckets_of sha256 rq
      \<Longrightarrow> find_bucket ?a rows' = Some row \<Longrightarrow> hold_left ?t row = 0"
    by blast+
qed

lemma gate_parts:
  assumes "gate_call sha256 cfg rq rows = (r, c, rows1)"
  shows "cl_buckets c = [] \<or> cl_buckets c = buckets_of sha256 rq" (is ?buckets)
    and "r \<noteq> None \<Longrightarrow> the r \<in> {503, 429, 405}"
    and "\<not> private_bucket b \<Longrightarrow> find_bucket b rows1 = find_bucket b rows
      \<or> find_bucket b rows1 = Some (counted_at cfg (rq_time rq) b (find_bucket b rows))"
    and "b \<notin> set (buckets_of sha256 rq) \<Longrightarrow> find_bucket b rows1 = find_bucket b rows"
    and "r = None \<Longrightarrow> \<not> cl_authenticated c \<Longrightarrow> cl_buckets c = buckets_of sha256 rq
      \<Longrightarrow> find_bucket (address_bucket sha256 rq) rows1 = Some row \<Longrightarrow> hold_left (rq_time rq) row = 0"
    and "cl_user c = Some u \<Longrightarrow> rq_lookup rq = Inr (Some u)"
proof -
  obtain r0 c0 rows0 where l: "limited sha256 cfg rq rows = (r0, c0, rows0)" by (metis prod_cases3)
  note lp = limited_parts [OF l]
  have new: "cl_user c0 = None" using l by (auto simp: limited_def new_call_def Let_def split: if_splits prod.splits)
  have b0: "cl_buckets c0 = [] \<or> cl_buckets c0 = buckets_of sha256 rq" by (simp add: lp(1))
  obtain r1 rows2 where s: "refused_as_a_stranger cfg rq (prove_identity rq c0) rows0 = (r1, rows2)" by fastforce
  have b1: "cl_buckets (prove_identity rq c0) = [] \<or> cl_buckets (prove_identity rq c0) = buckets_of sha256 rq"
    using b0 by simp
  note sp = stranger_parts [OF s b1]
  have g: "r = (case r0 of Some s \<Rightarrow> Some s
      | None \<Rightarrow> if r1 = None \<and> rq_method rq = ''OPTIONS'' then Some 405 else r1)"
    "c = (if r0 = None then prove_identity rq c0 else c0)" "rows1 = (if r0 = None then rows2 else rows0)"
    using assms s by (auto simp: gate_call_def l split: option.splits)
  show ?buckets using b0 by (simp add: g)
  show "r \<noteq> None \<Longrightarrow> the r \<in> {503, 429, 405}"
    using lp(3) sp(3) by (auto simp: g split: option.splits if_splits)
  show "find_bucket b rows1 = find_bucket b rows
      \<or> find_bucket b rows1 = Some (counted_at cfg (rq_time rq) b (find_bucket b rows))" if "\<not> private_bucket b"
    using lp(2) [of b] sp(2) [of b] that by (simp add: g)
  show "find_bucket b rows1 = find_bucket b rows" if "b \<notin> set (buckets_of sha256 rq)"
    using lp(2) [of b] sp(1) [of b] that shared_in [of "address_bucket sha256 rq" sha256 rq] by (auto simp: g)
  show "hold_left (rq_time rq) row = 0" if "r = None" "\<not> cl_authenticated c" "cl_buckets c = buckets_of sha256 rq"
    "find_bucket (address_bucket sha256 rq) rows1 = Some row"
    using sp(4) [of row] that by (auto simp: g split: option.splits if_splits)
  show "rq_lookup rq = Inr (Some u)" if "cl_user c = Some u"
    using that new prove_user [OF new] by (auto simp: g split: if_splits)
qed

text \<open>The handler of a request spends at most the bucket of its user.\<close>

definition session_route :: "request \<Rightarrow> bool" where
  "session_route rq \<longleftrightarrow> rq_path rq \<notin> set (''/health'' # REDEEM_PATH # AUTHZ_PATHS)
     \<and> starts_with ''/api/'' (rq_path rq) \<and> rq_route rq = Inr ''session''"

lemma handle_parts:
  assumes "handle_request sha256 cfg rq c rows = ((s, went), rows')"
  shows "rows' = rows \<and> \<not> (session_route rq \<and> went)
    \<or> (\<exists>u d. session_route rq \<and> cl_user c = Some u
        \<and> check cfg (rq_time rq) [bucket_for sha256 ''user'' (str_nat u)] rows = (d, rows')
        \<and> (went \<longrightarrow> dc_allowed d))"
proof (cases "session_route rq")
  case False
  then have "rows' = rows"
    using assms by (auto simp: handle_request_def api_call_def session_route_def Let_def
        split: if_splits option.splits sum.splits)
  with False show ?thesis by simp
next
  case True
  then have h: "handle_request sha256 cfg rq c rows = api_call sha256 cfg ''session'' rq c rows"
    by (auto simp: handle_request_def session_route_def)
  show ?thesis
  proof (cases "rows' = rows \<and> \<not> went")
    case False
    have "\<exists>write. run_session sha256 cfg write rq c rows = ((s, went), rows')"
      using assms False unfolding h by (auto simp: api_call_def Let_def split: if_splits option.splits)
    then obtain wr where "run_session sha256 cfg wr rq c rows = ((s, went), rows')" ..
    with True False show ?thesis
      by (auto simp: run_session_def count_identity_def split: if_splits option.splits prod.splits)
  qed simp
qed

lemma handle_keeps:
  assumes "handle_request sha256 cfg rq c rows = ((s, went), rows')" "\<And>u. b \<noteq> bucket_for sha256 ''user'' u"
  shows "find_bucket b rows' = find_bucket b rows"
  using handle_parts [OF assms(1)]
proof (elim disjE exE conjE)
  fix u d
  assume "check cfg (rq_time rq) [bucket_for sha256 ''user'' (str_nat u)] rows = (d, rows')"
  with find_check [of b "[bucket_for sha256 ''user'' (str_nat u)]" cfg "rq_time rq" rows] assms(2) show ?thesis
    by simp
qed simp

text \<open>A failure is recorded once on each bucket of the call.\<close>

lemma find_recorded:
  "distinct bs \<Longrightarrow> find_bucket b (record_auth_failure cfg now bs rows)
    = (if b \<in> set bs then Some (failed cfg now b (find_bucket b rows)) else find_bucket b rows)"
proof (induction bs arbitrary: rows)
  case (Cons c bs)
  then show ?case by (auto simp: record_auth_failure_def find_failed)
qed (simp add: record_auth_failure_def)

definition guess :: "bucket \<Rightarrow> nat \<times> bool \<times> call \<Rightarrow> bool" where
  "guess b out \<longleftrightarrow> counts_as_failure (fst out) (snd (snd out)) \<and> b \<in> set (cl_buckets (snd (snd out)))"

lemma serve_split:
  assumes "serve sha256 cfg rq rows = ((s, went, c), rows')"
  obtains r rows1 s1 rows2 where "gate_call sha256 cfg rq rows = (r, c, rows1)"
    and "case r of Some s0 \<Rightarrow> s1 = s0 \<and> \<not> went \<and> rows2 = rows1
         | None \<Rightarrow> handle_request sha256 cfg rq c rows1 = ((s1, went), rows2)"
    and "failed_auth cfg rq s1 c rows2 = (s, rows')"
proof -
  obtain r c0 rows1 where g: "gate_call sha256 cfg rq rows = (r, c0, rows1)" by (metis prod_cases3)
  show thesis
  proof (cases r)
    case (Some s0)
    with assms g show thesis by (intro that [of r rows1 s0 rows1]) (auto simp: serve_def split: prod.splits)
  next
    case None
    obtain s1 went1 rows2 where h: "handle_request sha256 cfg rq c0 rows1 = ((s1, went1), rows2)"
      by (metis prod.collapse)
    with None assms g show thesis by (intro that [of r rows1 s1 rows2]) (auto simp: serve_def split: prod.splits)
  qed
qed

section \<open>How often an address may guess\<close>

definition guess_inv :: "limits \<Rightarrow> nat \<Rightarrow> nat \<Rightarrow> limit_row option \<Rightarrow> bool" where
  "guess_inv cfg t0 g row \<longleftrightarrow> g \<le> lim_failures cfg
     \<and> (case row of None \<Rightarrow> g = 0
        | Some r \<Rightarrow> stale cfg t0 r \<and> g = 0
            \<or> t0 \<le> lb_start r \<and> g \<le> lb_fails r
              \<and> (lim_failures cfg \<le> lb_fails r \<longrightarrow> (\<exists>h. lb_held r = Some h \<and> t0 + lim_hold cfg \<le> h)))"

lemma guess_counted:
  assumes "guess_inv cfg t0 g row" "1 \<le> lim_failures cfg" "t0 \<le> now" "now < t0 + lim_window cfg"
  shows "guess_inv cfg t0 g (Some (counted_at cfg now b row))"
  using assms
  by (auto simp: guess_inv_def counted_at_def first_row_def counted_row_def expiring_def stale_def
      split: option.splits)

lemma guess_failed:
  assumes "guess_inv cfg t0 g row" "t0 \<le> now" "now < t0 + lim_window cfg" "now < t0 + lim_hold cfg"
    and "1 \<le> lim_failures cfg" "\<And>r. row = Some r \<Longrightarrow> hold_left now r = 0"
  shows "guess_inv cfg t0 (Suc g) (Some (failed cfg now b row))"
proof (cases row)
  case None
  with assms show ?thesis by (auto simp: guess_inv_def failed_def first_failure_def expiring_def)
next
  case (Some r)
  have "lb_fails r < lim_failures cfg" if fresh: "t0 \<le> lb_start r" "\<not> stale cfg t0 r"
  proof (rule ccontr)
    assume "\<not> ?thesis"
    then obtain h where "lb_held r = Some h" "t0 + lim_hold cfg \<le> h"
      using assms(1) fresh Some by (auto simp: guess_inv_def)
    with assms(4) assms(6) [OF Some] show False by (simp add: hold_left_def)
  qed
  with assms(1-5) Some show ?thesis
    by (auto simp: guess_inv_def failed_def failed_row_def expiring_def stale_def Let_def)
qed

lemma guess_serve:
  assumes "guess_inv cfg t0 g (find_bucket (bucket_for sha256 ''address'' a) rows)" (is "guess_inv _ _ _ (find_bucket ?b _)")
    and times: "t0 \<le> rq_time rq" "rq_time rq < t0 + lim_window cfg" "rq_time rq < t0 + lim_hold cfg"
    and "1 \<le> lim_failures cfg" and s: "serve sha256 cfg rq rows = ((st, went, c), rows')"
  shows "guess_inv cfg t0 (g + (if guess ?b (st, went, c) then 1 else 0)) (find_bucket ?b rows')"
proof -
  let ?t = "rq_time rq"
  obtain r rows1 s1 rows2 where g: "gate_call sha256 cfg rq rows = (r, c, rows1)"
    and h: "case r of Some s0 \<Rightarrow> s1 = s0 \<and> \<not> went \<and> rows2 = rows1
         | None \<Rightarrow> handle_request sha256 cfg rq c rows1 = ((s1, went), rows2)"
    and f: "failed_auth cfg rq s1 c rows2 = (st, rows')" by (rule serve_split [OF s])
  note gp = gate_parts [OF g]
  have not_user: "?b \<noteq> bucket_for sha256 ''user'' u" for u by (simp add: bucket_for_def)
  have same: "find_bucket ?b rows2 = find_bucket ?b rows1"
    using h handle_keeps [OF _ not_user] by (cases r) auto
  have inv: "guess_inv cfg t0 g (find_bucket ?b rows2)"
    using gp(3) [of ?b] assms(1) guess_counted [OF assms(1) assms(5) times(1,2), of ?b] by (auto simp: same)
  show ?thesis
  proof (cases "counts_as_failure s1 c \<and> rq_record_up rq \<and> ?b \<in> set (cl_buckets c)")
    case True
    then have bs: "cl_buckets c = buckets_of sha256 rq" using gp(1) by auto
    with True have b: "?b = address_bucket sha256 rq" by (simp add: shared_in)
    have st: "st = s1" "rows' = record_auth_failure cfg ?t (buckets_of sha256 rq) rows2"
      using f True by (auto simp: failed_auth_def bs)
    have "r = None" using True gp(2) h by (cases r) (auto simp: counts_as_failure_def)
    moreover have "\<not> cl_authenticated c" using True by (simp add: counts_as_failure_def)
    ultimately have "hold_left ?t row = 0" if "find_bucket ?b rows2 = Some row" for row
      using gp(5) [of row] bs that same unfolding b by simp
    from guess_failed [OF inv times assms(5) this, of ?b] show ?thesis
      using True by (simp add: st find_recorded buckets_distinct bs guess_def)
  next
    case False
    then have "\<not> guess ?b (st, went, c)" "find_bucket ?b rows' = find_bucket ?b rows2"
      using f gp(1) by (auto simp: failed_auth_def guess_def find_recorded buckets_distinct
          counts_as_failure_def split: if_splits)
    with inv show ?thesis by simp
  qed
qed

lemma guess_serve_all:
  assumes "guess_inv cfg t0 g (find_bucket (bucket_for sha256 ''address'' a) rows)"
    and "\<And>rq. rq \<in> set rqs \<Longrightarrow> t0 \<le> rq_time rq \<and> rq_time rq < t0 + min (lim_window cfg) (lim_hold cfg)"
    and "1 \<le> lim_failures cfg"
  shows "g + length (filter (guess (bucket_for sha256 ''address'' a)) (fst (serve_all sha256 cfg rqs rows)))
    \<le> lim_failures cfg"
  using assms
proof (induction rqs arbitrary: g rows)
  case Nil
  then show ?case by (simp add: guess_inv_def)
next
  case (Cons rq rqs)
  obtain st went c rows1 where s: "serve sha256 cfg rq rows = ((st, went, c), rows1)" by (metis prod.collapse)
  have t: "t0 \<le> rq_time rq" "rq_time rq < t0 + lim_window cfg" "rq_time rq < t0 + lim_hold cfg"
    using Cons.prems(2) [of rq] by auto
  show ?case
    using Cons.IH [OF guess_serve [OF Cons.prems(1) t Cons.prems(3) s] Cons.prems(2) Cons.prems(3)]
    by (auto simp: s split: prod.split if_splits)
qed


section \<open>How often a user may ask\<close>

definition user_inv :: "limits \<Rightarrow> nat \<Rightarrow> nat \<Rightarrow> limit_row option \<Rightarrow> bool" where
  "user_inv cfg t0 g row \<longleftrightarrow> g \<le> lim_user cfg
     \<and> (case row of None \<Rightarrow> g = 0 | Some r \<Rightarrow> stale cfg t0 r \<and> g = 0 \<or> t0 \<le> lb_start r \<and> g \<le> lb_count r)"

lemma user_counted:
  assumes "user_inv cfg t0 g row" "t0 \<le> now" "now < t0 + lim_window cfg"
  shows "user_inv cfg t0 g (Some (counted_at cfg now b row))"
    and "lb_count (counted_at cfg now b row) \<le> lim_user cfg \<Longrightarrow> user_inv cfg t0 (Suc g) (Some (counted_at cfg now b row))"
  using assms
  by (auto simp: user_inv_def counted_at_def first_row_def counted_row_def expiring_def stale_def
      split: option.splits)

text \<open>An answer of a handler on a route for a session, of this user.\<close>

definition user_answer :: "nat \<Rightarrow> request \<times> nat \<times> bool \<times> call \<Rightarrow> bool" where
  "user_answer u out \<longleftrightarrow> session_route (fst out) \<and> fst (snd (snd out)) \<and> cl_user (snd (snd (snd out))) = Some u"

lemma user_serve:
  assumes "user_inv cfg t0 g (find_bucket (bucket_for sha256 ''user'' (str_nat u)) rows)"
      (is "user_inv _ _ _ (find_bucket ?b _)")
    and times: "t0 \<le> rq_time rq" "rq_time rq < t0 + lim_window cfg"
    and s: "serve sha256 cfg rq rows = ((st, went, c), rows')"
  shows "user_inv cfg t0 (g + (if user_answer u (rq, st, went, c) then 1 else 0)) (find_bucket ?b rows')"
proof -
  let ?t = "rq_time rq"
  obtain r rows1 s1 rows2 where g: "gate_call sha256 cfg rq rows = (r, c, rows1)"
    and h: "case r of Some s0 \<Rightarrow> s1 = s0 \<and> \<not> went \<and> rows2 = rows1
         | None \<Rightarrow> handle_request sha256 cfg rq c rows1 = ((s1, went), rows2)"
    and f: "failed_auth cfg rq s1 c rows2 = (st, rows')" by (rule serve_split [OF s])
  have "find_bucket ?b rows1 = find_bucket ?b rows" by (rule gate_parts(4) [OF g user_not_in])
  then have inv1: "user_inv cfg t0 g (find_bucket ?b rows1)" using assms(1) by simp
  have "find_bucket ?b rows' = find_bucket ?b rows2"
    using f gate_parts(1) [OF g] by (auto simp: failed_auth_def find_recorded buckets_distinct user_not_in
        counts_as_failure_def split: if_splits)
  moreover have "user_inv cfg t0 (g + (if user_answer u (rq, st, went, c) then 1 else 0)) (find_bucket ?b rows2)"
  proof (cases r)
    case (Some s0)
    with h inv1 show ?thesis by (simp add: user_answer_def)
  next
    case None
    with h have "handle_request sha256 cfg rq c rows1 = ((s1, went), rows2)" by simp
    from handle_parts [OF this] consider "rows2 = rows1" "\<not> (session_route rq \<and> went)"
      | v d where "cl_user c = Some v" "went \<longrightarrow> dc_allowed d"
        "check cfg ?t [bucket_for sha256 ''user'' (str_nat v)] rows1 = (d, rows2)" by blast
    then show ?thesis
    proof cases
      case 1
      then show ?thesis using inv1 by (auto simp: user_answer_def)
    next
      case 2
      let ?v = "bucket_for sha256 ''user'' (str_nat v)"
      show ?thesis
      proof (cases "?v = ?b")
        case True
        note c1 = check_one [OF 2(3) [unfolded True]]
        from 2(2) c1(1,2) user_counted [OF inv1 times] show ?thesis by (auto simp: user_answer_def)
      next
        case False
        then have "find_bucket ?b rows2 = find_bucket ?b rows1"
          using find_check [of ?b "[?v]" cfg ?t rows1] 2(3) by simp
        moreover from False 2(1) have "cl_user c \<noteq> Some u" by auto
        ultimately show ?thesis using inv1 by (simp add: user_answer_def)
      qed
    qed
  qed
  ultimately show ?thesis by simp
qed

lemma user_serve_all:
  assumes "user_inv cfg t0 g (find_bucket (bucket_for sha256 ''user'' (str_nat u)) rows)"
    and "\<And>rq. rq \<in> set rqs \<Longrightarrow> t0 \<le> rq_time rq \<and> rq_time rq < t0 + lim_window cfg"
  shows "g + length (filter (user_answer u) (zip rqs (fst (serve_all sha256 cfg rqs rows)))) \<le> lim_user cfg"
  using assms
proof (induction rqs arbitrary: g rows)
  case Nil
  then show ?case by (simp add: user_inv_def)
next
  case (Cons rq rqs)
  obtain st went c rows1 where s: "serve sha256 cfg rq rows = ((st, went, c), rows1)" by (metis prod.collapse)
  have t: "t0 \<le> rq_time rq" "rq_time rq < t0 + lim_window cfg" using Cons.prems(2) [of rq] by auto
  show ?case
    using Cons.IH [OF user_serve [OF Cons.prems(1) t s] Cons.prems(2)]
    by (auto simp: s split: prod.split if_splits)
qed

text \<open>
  C22. Within one window a user runs at most \<open>max_requests_per_user\<close> handlers of the routes for a
  signed-in caller, over all the sessions they hold: the bucket is the user's, not the token's.
\<close>

theorem user_requests_are_bounded:
  assumes "\<forall>rq\<in>set rqs. t0 \<le> rq_time rq \<and> rq_time rq < t0 + lim_window cfg"
    and "case find_bucket (bucket_for sha256 ''user'' (str_nat u)) rows of None \<Rightarrow> True | Some r \<Rightarrow> stale cfg t0 r"
  shows "length (filter (user_answer u) (zip rqs (fst (serve_all sha256 cfg rqs rows)))) \<le> lim_user cfg"
proof -
  have "user_inv cfg t0 0 (find_bucket (bucket_for sha256 ''user'' (str_nat u)) rows)"
    using assms(2) by (auto simp: user_inv_def split: option.splits)
  from user_serve_all [OF this, of rqs] assms(1) show ?thesis by simp
qed

text \<open>
  A failure in a window that has passed moves \<open>window_start\<close> and leaves \<open>request_count\<close>: the requests
  of the passed window count against the new one.
\<close>

lemma failure_revives_old_requests:
  assumes "stale cfg now r" "0 < lim_window cfg"
  shows "lb_count (counted_row cfg now (failed_row cfg now r)) = lb_count r + 1"
    and "lb_count (counted_row cfg now r) = 1"
  using assms by (simp_all add: counted_row_def failed_row_def expiring_def stale_def Let_def)

section \<open>Witnesses\<close>

definition sample_limits :: limits where
  "sample_limits = \<lparr>lim_window = 60, lim_user = 2, lim_address = 9, lim_failures = 2, lim_hold = 60, lim_retention = 5\<rparr>"

definition sample_request :: request where
  "sample_request = \<lparr>rq_time = 7, rq_method = ''POST'', rq_path = ''/api/login'', rq_address = Some ''ip'',
     rq_session = None, rq_launch = None, rq_proxy = False, rq_route = Inr ''login'', rq_lookup = Inl (),
     rq_write_ok = True, rq_body = None, rq_json = True, rq_csrf = False, rq_allows = False,
     rq_answer = Some 401, rq_private_up = True, rq_shared_up = True, rq_user_up = True, rq_record_up = True\<rparr>"


lemma guesses_reach_the_bound:
  "map fst (fst (serve_all id sample_limits (replicate 4 sample_request) [])) = [401, 401, 429, 429]"
  by code_simp

definition sample_session :: request where
  "sample_session = sample_request\<lparr>rq_method := ''GET'', rq_path := ''/api/me'', rq_session := Some ''tok'',
     rq_route := Inr ''session'', rq_lookup := Inr (Some 3), rq_allows := True, rq_answer := Some 200\<rparr>"

lemma user_requests_are_bounded_witness:
  "length (filter (user_answer 3) (zip [sample_session, sample_session\<lparr>rq_session := Some ''new''\<rparr>]
     (fst (serve_all id sample_limits [sample_session, sample_session\<lparr>rq_session := Some ''new''\<rparr>] [])))) \<le> 2"
  using user_requests_are_bounded [of "[sample_session, sample_session\<lparr>rq_session := Some ''new''\<rparr>]" 7
      sample_limits id 3 "[]"]
  by (simp add: sample_limits_def sample_request_def sample_session_def find_bucket_def)

lemma requests_reach_the_bound:
  "map fst (fst (serve_all id sample_limits [sample_session, sample_session\<lparr>rq_session := Some ''new''\<rparr>,
     sample_session\<lparr>rq_session := Some ''third''\<rparr>] [])) = [200, 200, 429]"
  by code_simp

end
