(* ===== verification/Spec2Isabelle.thy ===== *)
theory Spec2Isabelle
  imports Samples Credential_Properties Access_Properties Access_Panel Dependency_Resolver Config_Save
    Event_Manager Routing Agent_Runtime Run_Credentials Run_Job Delta_Stream Web_Gate
begin

text \<open>
  Agento runs AI agents as jobs of a queue in MySQL. This development models the Python core of the
  program, \<open>src/agento/framework\<close>, and the parts of \<open>src/agento/modules/core\<close> it cannot do without.

  How the parts interact. A publisher (\<open>publisher.py\<close>, \<open>publish_service.py\<close>) puts a job into the
  queue, at the agent view the routing (\<open>router.py\<close>, \<open>ingress_identity.py\<close>) chose; the consumer
  (\<open>consumer.py\<close>) claims the first due job, unless its conversation line is taken (\<open>threads.py\<close>) or
  an observer defers it (\<open>defer.py\<close>), resolves the runtime of the run from the configuration
  (\<open>agent_view_runtime.py\<close>, \<open>config_resolver.py\<close>) and the harness registry (\<open>harness/\<close>), claims a
  credential of the pool (\<open>agent_manager/\<close>), issues the run's capabilities (\<open>toolbox_capability.py\<close>),
  runs the agent, handles what fails and finalizes the job (\<open>retry_policy.py\<close>). Every durable event
  goes to the outbox (\<open>outbox.py\<close>) in the same transaction. The panel (\<open>access/\<close>) administers users,
  roles and launches, and writes the configuration (\<open>config_write.py\<close>).

  Conventions. The database is a record of tables, a table a list of rows (theory \<open>Store\<close> for the
  queue, \<open>Access_Model\<close> for the panel, \<open>Config_Rows\<close> for the configuration). A transaction is one
  function from a state to a state, or to \<open>Inl\<close> of the exception that rolls it back. A JSON value is
  \<open>pyval\<close>; text is a list of Latin-1 characters; times are naive UTC, microseconds for a Python
  \<open>datetime\<close>, seconds for a DATETIME column. What comes from outside is an argument: the clock, random
  ids and tokens, hashes, ciphers, regular expressions, the answers of observers, of the runner and of
  the harness adapters, and what other sessions commit in between.

  The theories, from the bottom:
  \<open>Agento_Prelude\<close>: values, text, dicts, rows, ORDER BY (locale \<open>row_order\<close>), the clock.
  \<open>Job_Model\<close>, \<open>Retry_Policy\<close>, \<open>Redaction\<close>: job rows, the retry decision, the redaction of tokens.
  \<open>Store\<close>, \<open>Outbox\<close>, \<open>Defer\<close>, \<open>Threads\<close>, \<open>Publisher\<close>: tables and their writers, one theory per file.
  \<open>Credential_Store\<close>, \<open>Credential_Resolver\<close>, \<open>Credential_Properties\<close>: the pool. The locales
  \<open>keeps_identity\<close> and \<open>keeps_lease\<close> state what a row update keeps and are interpreted for every
  update of the store.
  \<open>Auth_Context\<close>, \<open>Capability\<close>: who acts, and the tokens a run gets.
  \<open>Runner_Client\<close>, \<open>Job_Store\<close>, \<open>Consumer_Claim\<close>, \<open>Consumer_Finalize\<close>: the life of a job row.
  \<open>Job_Lifecycle\<close>, \<open>Outcomes\<close>: the step relation \<open>queue_step\<close> over all of them, its invariant
  \<open>queue_ok\<close> by rule induction (locale \<open>queue_op\<close>), and the outcome of a finalize on every branch.
  \<open>Passwords\<close>, \<open>Acl\<close>, \<open>Access_Model\<close>, \<open>Access_Launches\<close>, \<open>Access_Laws\<close>, \<open>Access_Panel\<close>,
  \<open>Access_Properties\<close>: the panel. Each transaction is a step of \<open>access_step\<close>; the locales
  \<open>access_invariant\<close> and \<open>access_progress\<close> lift a property of one step to every sequence.
  \<open>Config_Paths\<close>, \<open>Config_Schema\<close>, \<open>Config_Rows\<close>, \<open>Config_Resolver\<close>, \<open>Config_Properties\<close>,
  \<open>Config_Write\<close>, \<open>Config_Save\<close>: the configuration, from the text of a path to the save of a form.
  \<open>Dependency_Resolver\<close>: the load order of the modules, refined from a greedy reference.
  \<open>Event_Manager\<close>, \<open>Routing\<close>: observers and routers.
  \<open>Harness\<close>, \<open>Agent_Runtime\<close>, \<open>Run_Credentials\<close>: harness declarations and registry, the runtime of
  a run, the life of its credential.
  \<open>Samples\<close>, \<open>Access_Samples\<close>: concrete states for the witnesses.

  What the lemmas show. Invariants: \<open>queue_ok\<close> (ids, one run per line, no capability of a settled
  job), \<open>creds_ok\<close>, the laws of the access tables, one owner per credential scope. Functional: what a
  claim, a finalize, a recovery, a save or a grant changes, on every branch, errors included.
  Refinement: the load order against the greedy order; the scope-by-scope lookup against the merged
  overrides. Safety over sequences: leases exclude, quarantines stay, ended jobs stay ended, a demotion
  ends access, a toolbox_only field is never read. Termination and liveness: the resolver's loop, and
  a finalize with one good try.

  Bounds. The load order and the graph search terminate by measures (\<open>kahn\<close>, \<open>bfs\<close>): every placed
  module leaves the finite set of usable ones. The retry of a finalize is a list of at most three
  tries, as in the code. The rounds in which the credential resolver waits are a list, what the others
  did in each sleep; it ends where the code's deadline has passed, so every list is one run of the loop.

  Not modelled. Inside the modelled files: logging and telemetry, texts of messages that nothing
  reads (shortened to a constructor), \<open>updated_at\<close> of a job, the order of rows MySQL leaves open,
  collations (names compare by equality), the width of VARCHAR and TINYINT columns, the import of a
  class a module names, caches by file time. Row locks and isolation are the transaction: two
  transactions never overlap, except where a definition takes the others' commits as an argument.
  Outside: processes, sockets and files (the runner server, the subprocess runner, workspaces and
  artifacts on disk, SSH and git identities), the web server, the command line and the text interface,
  which call the operations modelled here; the channels (Jira, GitHub, Bitbucket, Outlook), the
  harness adapters (Claude, Codex, Pi) and the conversation and miniapps modules, which are modules
  behind the interfaces the framework defines; installation, migrations and code generation; the Node
  toolbox and the frontend, which are other languages.
\<close>

section \<open>The queue\<close>

text \<open>
  C1. In every reachable state of the system, at most one job of a line is RUNNING: two RUNNING
  jobs on the same thread with the same line key are the same row.
\<close>

theorem line_mutual_exclusion:
  assumes "queue_reachable d"
    and "r \<in> set (jobs d)" "j_status r = RUNNING" and "q \<in> set (jobs d)" "j_status q = RUNNING"
    and "j_thread r \<noteq> None" "j_thread r = j_thread q" "line_key r = line_key q"
  shows "r = q"
  using one_run_per_line [OF reachable_ok [OF assms(1)]] assms by blast

theorem line_mutual_exclusion_witness:
  "queue_reachable sample_running \<and> sample_run_row \<in> set (jobs sample_running)
     \<and> sample_run_row = hd (jobs sample_running)"
proof -
  let ?q = "hd (jobs sample_running)"
  have q: "?q = sample_run_row" by (simp add: sample_running_def)
  have row: "sample_run_row \<in> set (jobs sample_running)" by (simp add: sample_running_def)
  have run: "j_status sample_run_row = RUNNING" "j_thread sample_run_row \<noteq> None"
    by (simp_all add: sample_run_row_def)
  have "sample_run_row = ?q"
    by (rule line_mutual_exclusion [OF sample_running_reachable row run(1)])
      (simp_all only: q row run refl not_False_eq_True)
  with row sample_running_reachable show ?thesis by blast
qed

text \<open>
  C8. The claim takes a job that is due and of a registered type, of the highest priority and
  then the oldest; it becomes RUNNING with one more attempt, and no other row changes.
\<close>

theorem claim_takes_first_due_job:
  assumes "queue_reachable d" and "try_dequeue reg env answer None d = (Claimed job, d')"
  shows "\<exists>row \<in> set (jobs d). dequeuable reg d row \<and> j_id job = j_id row
    \<and> (\<forall>q \<in> set (jobs d). dequeuable reg d q \<longrightarrow> j_priority q < j_priority row
          \<or> (j_priority q = j_priority row \<and> j_created row \<le> j_created q))
    \<and> (\<forall>r \<in> set (jobs d'). if j_id r = j_id row
          then j_status r = RUNNING \<and> j_attempt r = j_attempt row + 1 \<and> j_started r = Some (now_s d)
          else r \<in> set (jobs d))"
proof -
  have ids: "ids_ok d" using reachable_ok [OF assms(1)] by (simp add: queue_ok_def)
  obtain row f and jb :: job and a :: claim_answer and d1
    where row: "dequeue_row reg None d = Some row" and f: "placed_row f"
    and jobs': "jobs d' = update_where (\<lambda>r. j_id r = j_id row) (\<lambda>r. if j_status r = TODO
       then run_row (now_s d) (if ca_fresh a then None else resolve_resume jb d1) (f r)
       else f r) (jobs d)" and id: "j_id job = j_id row"
    by (rule try_dequeue_Claimed [OF ids assms(2)]) (rule that; assumption)
  have b: "best dequeued_before (filter (dequeuable reg d) (jobs d)) = Some row"
    using row by (simp add: dequeue_row_def)
  have first: "j_priority q < j_priority row
      \<or> (j_priority q = j_priority row \<and> j_created row \<le> j_created q)"
    if "q \<in> set (jobs d)" "dequeuable reg d q" for q
    using dequeue_order.picked_first [OF b that] by (auto simp: dequeued_before_def)
  have mem: "row \<in> set (jobs d)" "dequeuable reg d row" using best_filterD [OF b] by auto
  have "if j_id r = j_id row
      then j_status r = RUNNING \<and> j_attempt r = j_attempt row + 1 \<and> j_started r = Some (now_s d)
      else r \<in> set (jobs d)" if r: "r \<in> set (jobs d')" for r
  proof -
    obtain r0 where r0: "r0 \<in> set (jobs d)" "r = (if j_id r0 = j_id row
        then (if j_status r0 = TODO then run_row (now_s d) (if ca_fresh a then None
          else resolve_resume jb d1) (f r0) else f r0) else r0)"
      using r unfolding jobs' in_update_where by blast
    show ?thesis
    proof (cases "j_id r0 = j_id row")
      case True
      then have "r0 = row" using only_row [OF ids mem(1) r0(1)] by blast
      then show ?thesis
        using r0(2) mem(2) placed_row_fields [OF f, of row] by (simp add: dequeuable_def)
    qed (use r0 in simp)
  qed
  with first mem id show ?thesis by blast
qed

theorem claim_takes_first_due_job_witness:
  "\<exists>row \<in> set (jobs sample_todo). dequeuable [] sample_todo row \<and> j_id sample_claimed_job = j_id row"
  using claim_takes_first_due_job [OF sample_todo_reachable sample_claimed] by blast

text \<open>
  A deferred claim leaves every job's status and attempt as they were, tells nobody, and
  makes the job wait at least one second and at most thirty.
\<close>

theorem deferral_only_waits:
  assumes "queue_reachable d" and "try_dequeue reg env answer only d = (ClaimDeferred i, d')"
  shows "outbox d' = outbox d \<and> events d' = events d \<and> caps d' = caps d
    \<and> (\<forall>r' \<in> set (jobs d'). \<exists>r \<in> set (jobs d). j_id r' = j_id r \<and> j_status r' = j_status r
         \<and> j_attempt r' = j_attempt r \<and> j_started r' = j_started r
         \<and> (j_id r = i \<longrightarrow> now_s d + 1 \<le> j_sched r' \<and> j_sched r' \<le> now_s d + 30)
         \<and> (j_id r \<noteq> i \<longrightarrow> r' = r))"
proof -
  have ids: "ids_ok d" using reachable_ok [OF assms(1)] by (simp add: queue_ok_def)
  obtain row f g where f: "placed_row f"
    and jobs': "jobs d' = update_where (\<lambda>r. j_id r = i) (\<lambda>r. (f r)\<lparr>j_sched := g\<rparr>) (jobs d)"
    and g: "now_s d + 1 \<le> g" "g \<le> now_s d + 30"
    and rest: "outbox d' = outbox d" "events d' = events d" "caps d' = caps d"
    by (rule try_dequeue_Deferred [OF ids assms(2)]) (rule that; assumption)
  have "\<exists>r \<in> set (jobs d). j_id r' = j_id r \<and> j_status r' = j_status r
         \<and> j_attempt r' = j_attempt r \<and> j_started r' = j_started r
         \<and> (j_id r = i \<longrightarrow> now_s d + 1 \<le> j_sched r' \<and> j_sched r' \<le> now_s d + 30)
         \<and> (j_id r \<noteq> i \<longrightarrow> r' = r)" if r': "r' \<in> set (jobs d')" for r'
  proof -
    obtain r where r: "r \<in> set (jobs d)" "r' = (if j_id r = i then (f r)\<lparr>j_sched := g\<rparr> else r)"
      using r' unfolding jobs' in_update_where by blast
    then show ?thesis using placed_row_fields [OF f, of r] g by (intro bexI [of _ r]) simp_all
  qed
  with rest show ?thesis by blast
qed

definition sample_deferral :: "nat \<Rightarrow> claim_answer" where
  "sample_deferral = (\<lambda>_. \<lparr>ca_completed = False, ca_defer = False, ca_delay = PyNone,
     ca_detach = False, ca_fresh = False\<rparr>)"

lemma sample_deferred:
  "fst (try_dequeue [] sample_env sample_deferral None sample_todo) = ClaimDeferred 1"
proof -
  have "place_claim sample_env (sample_job\<lparr>j_thread_key := None\<rparr>) False sample_todo
      = Inr (sample_job\<lparr>j_thread_key := None\<rparr>, sample_todo)"
    by (simp add: place_claim_def)
  moreover have "claim_defers (sample_deferral i)" "\<not> ca_detach (sample_deferral i)" for i
    by (simp_all add: sample_deferral_def claim_defers_def)
  ultimately show ?thesis
    by (simp add: try_dequeue_def sample_dequeued claim_tx_def sample_from_row Let_def defer_job_def
        split: prod.split)
qed

theorem deferral_only_waits_witness:
  "events (snd (try_dequeue [] sample_env sample_deferral None sample_todo)) = events sample_todo"
  using deferral_only_waits [OF sample_todo_reachable, of "[]" sample_env sample_deferral None 1]
    sample_deferred by (metis prod.collapse)

text \<open>
  C6. In every reachable state a job that succeeded, was dead-lettered or is paused holds no
  capability that still works.
\<close>

theorem settled_jobs_hold_no_capability:
  assumes "queue_reachable d" and "r \<in> set (jobs d)" and "j_status r \<in> {SUCCESS, DEAD, PAUSED}"
    and "c \<in> set (caps d)" and "c_job c = Some (j_id r)"
  shows "c_revoked c \<noteq> None"
  using reachable_ok [OF assms(1)] assms unfolding queue_ok_def caps_ok_def settled_def by auto

theorem settled_jobs_hold_no_capability_witness:
  "queue_reachable sample_paused \<and> (\<exists>r \<in> set (jobs sample_paused). j_status r = PAUSED)
     \<and> (\<exists>c \<in> set (caps sample_paused). c_job c = Some 1 \<and> c_revoked c \<noteq> None)"
proof -
  let ?r = "paused_row 1000000000 sample_run_row"
  have r: "?r \<in> set (jobs sample_paused)" "j_status ?r = PAUSED" "j_id ?r = 1"
    by (simp_all add: paused_row_def)
  obtain c where c: "c \<in> set (caps sample_paused)" "c_job c = Some 1"
    by (simp add: sample_cap_def cap_of_issue_def run_issue_def)
  have "c_revoked c \<noteq> None"
    by (rule settled_jobs_hold_no_capability [OF sample_paused_reachable r(1) _ c(1)])
      (simp_all add: r(2,3) c(2))
  with c r sample_paused_reachable show ?thesis by blast
qed

text \<open>
  C7. A job that has ended, in success, failure or death, is still there with that outcome after
  any further sequence of steps of any worker, publisher or operator.
\<close>

theorem ended_jobs_stay_ended:
  assumes "queue_reachable d" and "rtranclp queue_step d d'"
    and "r \<in> set (jobs d)" and "j_status r \<in> set TERMINAL_STATUSES"
  shows "\<exists>r' \<in> set (jobs d'). j_id r' = j_id r \<and> j_status r' = j_status r"
  by (rule queue.terminal_for_ever [OF assms(2) reachable_ok [OF assms(1)] assms(3,4)])

theorem ended_jobs_stay_ended_witness:
  "\<exists>r' \<in> set (jobs (recover_stale_jobs [] (\<lambda>_ _. None) 0 sample_done)). j_id r' = 1 \<and> j_status r' = SUCCESS"
proof -
  have "rtranclp queue_step sample_done (recover_stale_jobs [] (\<lambda>_ _. None) 0 sample_done)"
    using s_recover by blast
  from ended_jobs_stay_ended [OF sample_done_reachable this, of "success_row None 1000000000 sample_run_row"]
  show ?thesis by (simp add: success_row_def TERMINAL_STATUSES_def)
qed

text \<open>
  C9. Finalizing never leaves the run RUNNING once one of its three tries is not failed by the
  database, whatever the run ended with and whatever other sessions commit meanwhile.
\<close>

theorem finalize_ends_the_run:
  assumes "\<exists>t \<in> set (take 3 tries). y_fault t = NoFault"
    and "\<And>s. j_execution job = Some s \<Longrightarrow> \<not> forbidden_value s"
  shows "\<not> is_running (j_id job) (finalize_job job error res veto tries d)"
  unfolding finalize_job_def by (rule finalize_loop_ends [OF assms(2,1)])

definition sample_tries :: "db_try list" where
  "sample_tries = [\<lparr>y_fault = CheckoutFails, y_others = id, y_jitter = 60\<rparr>,
     \<lparr>y_fault = CommitFails, y_others = id, y_jitter = 60\<rparr>,
     \<lparr>y_fault = NoFault, y_others = id, y_jitter = 60\<rparr>]"

theorem finalize_ends_the_run_witness:
  "is_running 1 sample_running
     \<and> \<not> is_running 1 (finalize_job sample_claimed_job None None None sample_tries sample_running)"
  using finalize_ends_the_run [of sample_tries sample_claimed_job None None None sample_running]
    sample_is_running by (simp add: sample_tries_def)

text \<open>
  When the job is no longer RUNNING (an operator paused it), finalizing changes no job, no
  capability and no outbox row, and announces nothing but that the execution is abandoned.
\<close>

theorem lost_run_is_only_abandoned:
  assumes "\<not> is_running (j_id job) d"
  shows "jobs (finalize_job job error res veto tries d) = jobs d
    \<and> caps (finalize_job job error res veto tries d) = caps d
    \<and> outbox (finalize_job job error res veto tries d) = outbox d
    \<and> (\<exists>es. events (finalize_job job error res veto tries d) = events d @ es
         \<and> set es \<subseteq> {ExecutionAbandonAfter (j_execution job) (j_id job) (j_attempt job)})"
  unfolding finalize_job_def by (rule finalize_loop_lost [OF assms])

theorem lost_run_is_only_abandoned_witness:
  "jobs (finalize_job sample_claimed_job None None None sample_tries sample_paused) = jobs sample_paused"
proof -
  have "\<not> is_running (j_id sample_claimed_job) sample_paused"
    by (simp add: is_running_def find_job_def paused_row_def)
  from lost_run_is_only_abandoned [OF this] show ?thesis by blast
qed



text \<open>
  C13. A wait for a usable credential is bounded: once the job is more than a day old, the attempt
  that finds no credential dead-letters it and revokes its capabilities, although the error
  names a time to come back.
\<close>

theorem auth_wait_ends_dead:
  assumes step: "finalize_tx job (Some e) res jitter d = Inr (es, d')"
    and e: "x_class e = ''CredentialsUnavailableError''" "x_verdict e = None"
    and old: "usec (j_created job) + usec (24 * 3600) < now_us d"
  shows "(\<forall>r \<in> set (jobs d). j_id r = j_id job \<and> j_status r = RUNNING
        \<longrightarrow> (\<exists>r' \<in> set (jobs d'). j_id r' = j_id r \<and> j_status r' = DEAD))
    \<and> (\<forall>c \<in> set (caps d'). c_job c = Some (j_id job) \<longrightarrow> c_revoked c \<noteq> None)"
proof -
  have expired: "auth_wait_expired job e (now_us d)"
    using e(1) old by (simp add: auth_wait_expired_def AUTH_WAIT_MAX_def)
  have h: "h_status (failure_how job e res jitter (now_us d)) = DEAD"
    "h_revoke (failure_how job e res jitter (now_us d))" "\<not> error_fresh_start e"
    using expired e(2) by (simp_all add: failure_how_def Let_def error_blocked_def error_fresh_start_def)
  have t: "transition (j_id job) (j_attempt job) (j_execution job)
      (failure_how job e res jitter (now_us d)) d = Inr (es, d')"
    using step h(3) by (simp add: finalize_tx_def finalize_failure_def Let_def)
  have caps': "caps d' = caps (snd (revoke_job_capabilities (j_id job) d))"
    using transitionD [OF t] h(2) by simp
  have "finalized_row job (Some e) res jitter (now_us d) r \<in> set (jobs d')"
    "j_status (finalized_row job (Some e) res jitter (now_us d) r) = DEAD"
    if "r \<in> set (jobs d)" "j_id r = j_id job" "j_status r = RUNNING" for r
    using that h(1) unfolding finalize_tx_jobs [OF step] in_update_where
    by (auto simp: finalized_row_def intro!: bexI [of _ r])
  then show ?thesis using revoke_job_none_live [of _ "j_id job" d] caps'
    by (metis finalized_row_fields(1))
qed

theorem auth_wait_ends_dead_witness:
  "\<exists>es d'. finalize_tx sample_claimed_job (Some (resolve_exn (CredentialsUnavailable 0))) None 60
       (sample_running\<lparr>now_us := 90000000000\<rparr>) = Inr (es, d')
     \<and> (\<exists>r' \<in> set (jobs d'). j_id r' = 1 \<and> j_status r' = DEAD)"
proof -
  let ?e = "resolve_exn (CredentialsUnavailable 0)" and ?d = "sample_running\<lparr>now_us := 90000000000\<rparr>"
  have x: "\<And>s. j_execution sample_claimed_job = Some s \<Longrightarrow> \<not> forbidden_value s" by simp
  obtain es d' where tx: "finalize_tx sample_claimed_job (Some ?e) None 60 ?d = Inr (es, d')"
    using finalize_tx_total [OF x, where error = "Some ?e" and res = None and jitter = 60 and d = ?d]
    by (metis surj_pair)
  have "\<exists>r' \<in> set (jobs d'). j_id r' = 1 \<and> j_status r' = DEAD"
    using auth_wait_ends_dead [OF tx] by (simp add: plain_exn_def)
  with tx show ?thesis by blast
qed

text \<open>
  C12. A recovery pass touches exactly the RUNNING rows whose run has ended: such a row goes back
  to TODO, due now, while its attempts are below the maximum, and is DEAD otherwise. A run whose
  runner answers alive or unknown is left alone.
\<close>

theorem recovery_frees_ended_runs_only:
  assumes "ids_ok d"
    and "\<forall>r \<in> set (jobs d). j_status r = RUNNING \<and> run_ended ask (timeout + 60) d r
      \<longrightarrow> \<not> recovery_raises reg r"
  shows "length (jobs (recover_stale_jobs reg ask timeout d)) = length (jobs d)
    \<and> (\<forall>i < length (jobs d).
         let r = jobs d ! i; r' = jobs (recover_stale_jobs reg ask timeout d) ! i in
         if j_status r = RUNNING
           \<and> (if truthy (j_runner r) then run_alive ask (j_runner r) (job_tag (j_id r)) = RunDead
              else j_pid r \<noteq> None
                \<or> (\<exists>s. j_started r = Some s \<and> usec s + usec (timeout + 60) \<le> now_us d))
         then j_id r' = j_id r \<and> j_attempt r' = j_attempt r
           \<and> (if j_attempt r < j_max r then j_status r' = TODO \<and> j_sched r' = now_s d
              else j_status r' = DEAD \<and> j_sched r' = j_sched r)
         else r' = r)"
proof -
  have ended: "run_ended ask (timeout + 60) d r \<longleftrightarrow>
      (if truthy (j_runner r) then run_alive ask (j_runner r) (job_tag (j_id r)) = RunDead
       else j_pid r \<noteq> None
         \<or> (\<exists>s. j_started r = Some s \<and> usec s + usec (timeout + 60) \<le> now_us d))" for r
    by (simp add: run_ended_def split: option.split)
  show ?thesis
    unfolding recover_stale_jobs_rows [OF assms] ended [symmetric]
    by (auto simp: recovered_row_def recovery_how_def Let_def)
qed

theorem recovery_frees_ended_runs_only_witness:
  "map j_status (jobs (recover_stale_jobs [] (\<lambda>_ _. None) 0 (sample_running\<lparr>jobs := [sample_run_row\<lparr>j_pid := Some 7\<rparr>]\<rparr>)))
     = [TODO]"
proof -
  let ?r = "sample_run_row\<lparr>j_pid := Some 7\<rparr>"
  let ?d = "sample_running\<lparr>jobs := [?r]\<rparr>"
  have n: "next_job sample_running = 2" by (simp add: sample_running_def sample_todo_def)
  have ids: "ids_ok ?d" by (simp add: ids_ok_def n)
  have fine: "\<forall>r \<in> set (jobs ?d). j_status r = RUNNING \<and> run_ended (\<lambda>_ _. None) (0 + 60) ?d r
      \<longrightarrow> \<not> recovery_raises [] r" by (simp add: recovery_raises_def)
  show ?thesis
    using recovery_frees_ended_runs_only [OF ids fine]
    by (simp add: Let_def list_eq_iff_nth_eq)
qed

text \<open>
  A claim leaves exactly one new \<open>job.claimed\<close> row, for the attempt that starts.
\<close>

theorem claim_announces_once:
  assumes "queue_reachable d" and "try_dequeue reg env answer only d = (Claimed job, d')"
  shows "filter (\<lambda>o'. o_kind o' = ''job.claimed'') (outbox d')
      = filter (\<lambda>o'. o_kind o' = ''job.claimed'') (outbox d)
        @ [\<lparr>o_id = next_outbox d, o_job = j_id job, o_execution = None, o_kind = ''job.claimed'',
            o_payload = PyDict [(PyStr ''job_id'', PyInt (int (j_id job))),
              (PyStr ''attempt'', PyInt (int (j_attempt job)))], o_created = now_s d\<rparr>]"
proof -
  have ids: "ids_ok d" using reachable_ok [OF assms(1)] by (simp add: queue_ok_def)
  obtain row :: job_row and jb :: job and a :: claim_answer and d1
    where s: "start_job jb a d1 = Inr (Claimed job, d')"
    and j: "j_id jb = j_id row" "j_attempt jb = j_attempt row" "j_id job = j_id row"
      "j_attempt job = j_attempt row + 1"
    and d1: "outbox d1 = outbox d" "next_outbox d1 = next_outbox d" "now_us d1 = now_us d"
    by (rule try_dequeue_Claimed [OF ids assms(2)]) (rule that, assumption+)
  show ?thesis using start_job_outbox [OF s] j d1 by (simp add: claimed_payload_def)
qed

theorem claim_announces_once_witness:
  "length (filter (\<lambda>o'. o_kind o' = ''job.claimed'') (outbox sample_running)) = 1"
  unfolding claim_announces_once [OF sample_todo_reachable sample_claimed] by simp

text \<open>
  C14. Publishing is idempotent in the key: publishing again under a key that was published,
  whatever the rest of the request, returns the same job and changes nothing.
\<close>

theorem publish_is_idempotent:
  assumes "queue_reachable d" and "publish_job env p d = Inr (i, d')" and "p_key q = p_key p"
  shows "publish_job env' q d' = Inr (i, d') \<and> publish env' skip q d' = Inr (False, d')
    \<and> length (filter (\<lambda>r. j_key r = p_key p) (jobs d')) = 1"
proof -
  have ok: "queue_ok d" using reachable_ok [OF assms(1)] .
  have ok': "queue_ok d'" using publish_job_ok [OF ok assms(2)] by blast
  have old: "existing_job_id (p_key p) d' = Some i"
    by (rule publish_job_key [OF _ _ assms(2)]) (use ok in \<open>simp_all add: queue_ok_def\<close>)
  then have "publish_job env' q d' = Inr (i, d')" "publish env' skip q d' = Inr (False, d')"
    using assms(3) by (simp_all add: publish_job_def publish_def)
  moreover have "length (filter (\<lambda>r. j_key r = p_key p) (jobs d')) = 1"
    using old ok' by (intro one_with_key) (auto simp: queue_ok_def)
  ultimately show ?thesis by blast
qed

theorem publish_is_idempotent_witness:
  "publish_job sample_env (sample_pub\<lparr>p_priority := 90\<rparr>) sample_todo = Inr (1, sample_todo)"
proof -
  have "queue_reachable sample_start"
    unfolding queue_reachable_def sample_start_def by blast
  from publish_is_idempotent [OF this sample_published, of "sample_pub\<lparr>p_priority := 90\<rparr>"]
  show ?thesis by simp
qed

end
